(* ===== verification/Prelude.thy ===== *)
theory Prelude
  imports Main "HOL-Library.Word" "HOL-Library.Sublist"
begin

text \<open>
  The vocabulary shared by every component of the model: machine integers, I/O
  errors and panics as values, the state-and-error effect of functions that
  mutate their arguments, and the generic lemmas on lists, words and effects.
\<close>

unbundle bit_operations_syntax

named_theorems eff_simps \<open>unfolding rules of the effect combinators\<close>
named_theorems keeps_intro \<open>compositional invariant rules of effects\<close>
named_theorems throws_intro \<open>compositional rules for the faults an effect may end with\<close>
named_theorems str_simps \<open>evaluation rules of the string operations\<close>

section \<open>Machine integers and bytes\<close>

type_synonym byte = char
type_synonym bytes = "char list"
type_synonym u32 = "32 word"
type_synonym u64 = "64 word"

section \<open>Errors and panics as values\<close>

text \<open>
  The kinds of \<^verbatim>\<open>std::io::ErrorKind\<close> that the program makes or tests, and one more
  for a device that is full. A \<^verbatim>\<open>panic!\<close>, a failed \<^verbatim>\<open>assert!\<close> and an \<^verbatim>\<open>unwrap\<close>
  of \<^verbatim>\<open>None\<close> are values too, but no handler of the program catches them. \<open>OutOfFuel\<close> is no
  outcome of the program: a loop that is not known to end takes a bound on its rounds,
  and ends with it when the bound is used up.
\<close>

datatype error_kind =
    NotFound | PermissionDenied | InvalidInput | InvalidData | UnexpectedEof
  | BrokenPipe | Unsupported | IsADirectory | StorageFull | OtherKind

datatype fault = IoErr error_kind string | Panic string | OutOfFuel

type_synonym 'a res = "fault + 'a"

definition err_kind :: "fault \<Rightarrow> error_kind option" where
  "err_kind e = (case e of IoErr k _ \<Rightarrow> Some k | _ \<Rightarrow> None)"

abbreviation err :: "error_kind \<Rightarrow> 'a res" where
  "err k \<equiv> Inl (IoErr k [])"

abbreviation err_msg :: "error_kind \<Rightarrow> string \<Rightarrow> 'a res" where
  "err_msg k m \<equiv> Inl (IoErr k m)"

definition bindR :: "'a res \<Rightarrow> ('a \<Rightarrow> 'b res) \<Rightarrow> 'b res" where
  "bindR r f = (case r of Inl e \<Rightarrow> Inl e | Inr x \<Rightarrow> f x)"

section \<open>State and errors: functions that mutate their arguments\<close>

text \<open>
  A function that takes \<^verbatim>\<open>&mut\<close> arguments and returns a \<^verbatim>\<open>Result\<close> is a function
  from the state to the result and the new state. The new state is kept when the
  result is an error: the mutations made before the error are visible to a caller
  that handles it.
\<close>

type_synonym ('s, 'a) eff = "'s \<Rightarrow> 'a res \<times> 's"

definition ret :: "'a \<Rightarrow> ('s, 'a) eff" where
  "ret x s = (Inr x, s)"

definition throw :: "fault \<Rightarrow> ('s, 'a) eff" where
  "throw e s = (Inl e, s)"

definition lift_res :: "'a res \<Rightarrow> ('s, 'a) eff" where
  "lift_res r s = (r, s)"

definition bindE :: "('s, 'a) eff \<Rightarrow> ('a \<Rightarrow> ('s, 'b) eff) \<Rightarrow> ('s, 'b) eff" where
  "bindE m f s = (case m s of (Inl e, t) \<Rightarrow> (Inl e, t) | (Inr x, t) \<Rightarrow> f x t)"

definition seqE :: "('s, unit) eff \<Rightarrow> ('s, 'b) eff \<Rightarrow> ('s, 'b) eff" where
  "seqE m n = bindE m (\<lambda>_. n)"

definition modifyE :: "('s \<Rightarrow> 's) \<Rightarrow> ('s, unit) eff" where
  "modifyE f s = (Inr (), f s)"

definition getE :: "('s \<Rightarrow> 'a) \<Rightarrow> ('s, 'a) eff" where
  "getE f s = (Inr (f s), s)"

definition tryE :: "('s, 'a) eff \<Rightarrow> ('a res \<Rightarrow> ('s, 'b) eff) \<Rightarrow> ('s, 'b) eff" where
  \<comment> \<open>\<^verbatim>\<open>match call { Err(e) => ..., Ok(x) => ... }\<close>; the handler decides\<close>
  "tryE m h s = (case m s of (r, t) \<Rightarrow> h r t)"

fun for_each :: "'x list \<Rightarrow> ('x \<Rightarrow> ('s, unit) eff) \<Rightarrow> ('s, unit) eff" where
  "for_each [] f s = (Inr (), s)"
| "for_each (x # xs) f s = bindE (f x) (\<lambda>_. for_each xs f) s"

lemma bindR_simps [simp]:
  "bindR (Inl e) f = Inl e"
  "bindR (Inr x) f = f x"
  by (simp_all add: bindR_def)

lemma bindR_Inr_iff: "bindR r f = Inr y \<longleftrightarrow> (\<exists>x. r = Inr x \<and> f x = Inr y)"
  by (cases r) auto

lemma ret_simp [simp]: "ret x s = (Inr x, s)"
  by (simp add: ret_def)

lemma throw_simp [simp]: "throw e s = (Inl e, s)"
  by (simp add: throw_def)

lemma lift_res_simp [simp]: "lift_res r s = (r, s)"
  by (simp add: lift_res_def)

lemma modifyE_simp [simp]: "modifyE f s = (Inr (), f s)"
  by (simp add: modifyE_def)

lemma getE_simp [simp]: "getE f s = (Inr (f s), s)"
  by (simp add: getE_def)

lemma bindE_Inr_eq [simp]: "m s = (Inr x, t) \<Longrightarrow> bindE m f s = f x t"
  by (simp add: bindE_def)

lemma bindE_Inl_eq [simp]: "m s = (Inl e, t) \<Longrightarrow> bindE m f s = (Inl e, t)"
  by (simp add: bindE_def)

lemma seqE_Inr_eq [simp]: "m s = (Inr x, t) \<Longrightarrow> seqE m n s = n t"
  by (simp add: seqE_def)

lemma seqE_Inl_eq [simp]: "m s = (Inl e, t) \<Longrightarrow> seqE m n s = (Inl e, t)"
  by (simp add: seqE_def)

lemma bindE_Inr_iff:
  "bindE m f s = (Inr y, t) \<longleftrightarrow> (\<exists>x u. m s = (Inr x, u) \<and> f x u = (Inr y, t))"
  by (auto simp: bindE_def split: prod.splits sum.splits)

lemma bindE_InrE:
  assumes "bindE m f s = (Inr y, t)"
  obtains x u where "m s = (Inr x, u)" and "f x u = (Inr y, t)"
  using assms by (auto simp: bindE_Inr_iff)

lemma seqE_Inr_iff:
  "seqE m n s = (Inr y, t) \<longleftrightarrow> (\<exists>u. m s = (Inr (), u) \<and> n u = (Inr y, t))"
  by (auto simp: seqE_def bindE_Inr_iff)

lemma bindE_cases:
  assumes "bindE m f s = (r, t)"
  obtains (fail) e where "m s = (Inl e, t)" and "r = Inl e"
  | (step) x u where "m s = (Inr x, u)" and "f x u = (r, t)"
  using assms by (auto simp: bindE_def split: prod.splits sum.splits)

lemma for_each_append:
  "for_each (xs @ ys) f s = seqE (for_each xs f) (for_each ys f) s"
proof (induction xs arbitrary: s)
  case Nil
  then show ?case by simp
next
  case (Cons x xs)
  obtain r t where "f x s = (r, t)" by fastforce
  then show ?case
    by (cases r) (simp_all add: bindE_def seqE_def Cons.IH)
qed

section \<open>Invariants of effects\<close>

text \<open>
  A result is recoverable when a handler of the program can go on after it: success,
  or an I/O error of kind \<^const>\<open>NotFound\<close>, which the kernel module code ignores for
  optional modules. \<open>keeps P m\<close> says that \<open>m\<close> takes \<open>P\<close>-states to \<open>P\<close>-states
  whenever it ends with a recoverable result.
\<close>

fun recoverable :: "'a res \<Rightarrow> bool" where
  "recoverable (Inr x) = True"
| "recoverable (Inl e) = (err_kind e = Some NotFound)"

definition keeps :: "('s \<Rightarrow> bool) \<Rightarrow> ('s, 'a) eff \<Rightarrow> bool" where
  "keeps P m \<longleftrightarrow> (\<forall>s r t. P s \<longrightarrow> m s = (r, t) \<longrightarrow> recoverable r \<longrightarrow> P t)"

lemma keepsI: "(\<And>s r t. P s \<Longrightarrow> m s = (r, t) \<Longrightarrow> recoverable r \<Longrightarrow> P t) \<Longrightarrow> keeps P m"
  by (simp add: keeps_def)

lemma keepsD: "keeps P m \<Longrightarrow> P s \<Longrightarrow> m s = (Inr x, t) \<Longrightarrow> P t"
  by (auto simp: keeps_def)

lemma keepsD_recoverable:
  "keeps P m \<Longrightarrow> P s \<Longrightarrow> m s = (r, t) \<Longrightarrow> recoverable r \<Longrightarrow> P t"
  by (auto simp: keeps_def)

lemma keeps_ret [keeps_intro]: "keeps P (ret x)"
  by (rule keepsI) simp

lemma keeps_throw [keeps_intro]: "keeps P (throw e)"
  by (rule keepsI) simp

lemma keeps_lift_res [keeps_intro]: "keeps P (lift_res r)"
  by (rule keepsI) simp

lemma keeps_getE [keeps_intro]: "keeps P (getE f)"
  by (rule keepsI) simp

lemma keeps_bindE [keeps_intro]:
  "keeps P m \<Longrightarrow> (\<And>x. keeps P (f x)) \<Longrightarrow> keeps P (bindE m f)"
proof (rule keepsI)
  fix s r t
  assume m: "keeps P m" and f: "\<And>x. keeps P (f x)" and "P s" and "recoverable r"
    and "bindE m f s = (r, t)"
  from this(5) show "P t"
  proof (cases rule: bindE_cases)
    case (fail e)
    with m \<open>P s\<close> \<open>recoverable r\<close> show ?thesis
      by (auto simp: keeps_def)
  next
    case (step x u)
    from m \<open>P s\<close> step(1) have "P u" by (rule keepsD)
    with f step(2) \<open>recoverable r\<close> show ?thesis
      by (auto simp: keeps_def)
  qed
qed

lemma keeps_seqE [keeps_intro]:
  "keeps P m \<Longrightarrow> keeps P n \<Longrightarrow> keeps P (seqE m n)"
  unfolding seqE_def by (intro keeps_intro)

lemma keeps_modifyE [keeps_intro]: "(\<And>s. P s \<Longrightarrow> P (f s)) \<Longrightarrow> keeps P (modifyE f)"
  by (rule keepsI) auto

lemma keeps_if [keeps_intro]:
  "keeps P m \<Longrightarrow> keeps P n \<Longrightarrow> keeps P (if b then m else n)"
  by simp

lemma keeps_option_case [keeps_intro]:
  "keeps P m \<Longrightarrow> (\<And>x. keeps P (f x)) \<Longrightarrow> keeps P (case z of None \<Rightarrow> m | Some x \<Rightarrow> f x)"
  by (cases z) auto

lemma keeps_sum_case [keeps_intro]:
  "(\<And>e. keeps P (m e)) \<Longrightarrow> (\<And>x. keeps P (f x)) \<Longrightarrow> keeps P (case z of Inl e \<Rightarrow> m e | Inr x \<Rightarrow> f x)"
  by (cases z) auto

lemma keeps_for_each [keeps_intro]:
  "(\<And>x. x \<in> set xs \<Longrightarrow> keeps P (f x)) \<Longrightarrow> keeps P (for_each xs f)"
proof (induction xs)
  case Nil
  show ?case by (rule keepsI) simp
next
  case (Cons x xs)
  then have "keeps P (bindE (f x) (\<lambda>_. for_each xs f))"
    by (intro keeps_bindE) auto
  then show ?case by (simp add: keeps_def)
qed

section \<open>The faults an effect may end with\<close>

definition throws :: "(fault \<Rightarrow> bool) \<Rightarrow> ('s, 'a) eff \<Rightarrow> bool" where
  "throws F m \<longleftrightarrow> (\<forall>s e t. m s = (Inl e, t) \<longrightarrow> F e)"

lemma throwsI: "(\<And>s e t. m s = (Inl e, t) \<Longrightarrow> F e) \<Longrightarrow> throws F m"
  by (simp add: throws_def)

lemma throwsD: "throws F m \<Longrightarrow> m s = (Inl e, t) \<Longrightarrow> F e"
  by (auto simp: throws_def)

lemma throws_ret [throws_intro]: "throws F (ret x)"
  by (simp add: throws_def)

lemma throws_throw [throws_intro]: "F e \<Longrightarrow> throws F (throw e)"
  by (simp add: throws_def)

lemma throws_getE [throws_intro]: "throws F (getE f)"
  by (simp add: throws_def)

lemma throws_modifyE [throws_intro]: "throws F (modifyE f)"
  by (simp add: throws_def)

lemma throws_lift_res [throws_intro]: "(\<And>e. r = Inl e \<Longrightarrow> F e) \<Longrightarrow> throws F (lift_res r)"
  by (simp add: throws_def)

lemma throws_bindE [throws_intro]:
  "throws F m \<Longrightarrow> (\<And>x. throws F (f x)) \<Longrightarrow> throws F (bindE m f)"
proof (rule throwsI)
  fix s e t
  assume m: "throws F m" and f: "\<And>x. throws F (f x)" and "bindE m f s = (Inl e, t)"
  from this(3) show "F e"
    by (cases rule: bindE_cases) (use m f in \<open>auto dest: throwsD\<close>)
qed

lemma throws_seqE [throws_intro]: "throws F m \<Longrightarrow> throws F n \<Longrightarrow> throws F (seqE m n)"
  unfolding seqE_def by (intro throws_intro)

lemma throws_if [throws_intro]:
  "(b \<Longrightarrow> throws F m) \<Longrightarrow> (\<not> b \<Longrightarrow> throws F n) \<Longrightarrow> throws F (if b then m else n)"
  by simp

lemma throws_option_case [throws_intro]:
  "throws F m \<Longrightarrow> (\<And>x. throws F (f x)) \<Longrightarrow> throws F (case z of None \<Rightarrow> m | Some x \<Rightarrow> f x)"
  by (cases z) auto

lemma throws_sum_case [throws_intro]:
  "(\<And>e. z = Inl e \<Longrightarrow> throws F (m e)) \<Longrightarrow> (\<And>x. throws F (f x)) \<Longrightarrow>
    throws F (case z of Inl e \<Rightarrow> m e | Inr x \<Rightarrow> f x)"
  by (cases z) auto

lemma throws_prod [throws_intro]: "(\<And>a b. throws F (f a b)) \<Longrightarrow> throws F (case z of (a, b) \<Rightarrow> f a b)"
  by (cases z) auto

lemma throws_tryE [throws_intro]: "(\<And>r. throws F (h r)) \<Longrightarrow> throws F (tryE m h)"
  by (auto simp: throws_def tryE_def split: prod.splits)

lemma throws_bool [throws_intro]: "throws F m \<Longrightarrow> throws F n \<Longrightarrow> throws F (case b of True \<Rightarrow> m | False \<Rightarrow> n)"
  by (cases b) auto

lemma throws_Let [throws_intro]: "throws F (f z) \<Longrightarrow> throws F (let x = z in f x)"
  by simp

lemma throws_for_each [throws_intro]:
  "(\<And>x. x \<in> set xs \<Longrightarrow> throws F (f x)) \<Longrightarrow> throws F (for_each xs f)"
proof (induction xs)
  case Nil
  show ?case by (simp add: throws_def)
next
  case (Cons x xs)
  then have "throws F (bindE (f x) (\<lambda>_. for_each xs f))" by (intro throws_bindE) auto
  then show ?case by (simp add: throws_def)
qed

section \<open>Lists\<close>

lemma take_append_exact [simp]: "length xs = n \<Longrightarrow> take n (xs @ ys) = xs"
  by simp

lemma drop_append_exact [simp]: "length xs = n \<Longrightarrow> drop n (xs @ ys) = ys"
  by simp

lemma takeWhile_append_stop:
  "\<forall>x\<in>set xs. P x \<Longrightarrow> \<not> P y \<Longrightarrow> takeWhile P (xs @ y # ys) = xs"
  by (induction xs) auto

lemma dropWhile_append_stop:
  "\<forall>x\<in>set xs. P x \<Longrightarrow> \<not> P y \<Longrightarrow> dropWhile P (xs @ y # ys) = y # ys"
  by (induction xs) auto

section \<open>Words\<close>

lemma unat_of_nat_small: "n < 2 ^ LENGTH('a) \<Longrightarrow> unat (of_nat n :: 'a::len word) = n"
  by (simp add: unat_of_nat take_bit_nat_eq_self)

end
