(* ===== verification/Rust_Str.thy ===== *)
theory Rust_Str
  imports Prelude
begin

text \<open>
  The operations of Rust's \<^verbatim>\<open>str\<close>, byte slices and \<^verbatim>\<open>BufRead\<close> that the program
  uses. A \<^verbatim>\<open>&str\<close> is the list of its UTF-8 bytes; the operations that Rust defines on
  characters (trimming and splitting at whitespace) match the UTF-8 encodings of the
  Unicode \<open>White_Space\<close> characters, so they agree with Rust on every valid string.
\<close>

section \<open>UTF-8 validity and whitespace\<close>

definition byte_val :: "byte \<Rightarrow> nat" where
  "byte_val c = of_char c"

definition byte_in :: "nat \<Rightarrow> nat \<Rightarrow> byte \<Rightarrow> bool" where
  "byte_in lo hi c \<longleftrightarrow> lo \<le> byte_val c \<and> byte_val c \<le> hi"

abbreviation cont_byte :: "byte \<Rightarrow> bool" where
  "cont_byte \<equiv> byte_in 128 191"

fun utf8_valid :: "bytes \<Rightarrow> bool" where
  "utf8_valid [] = True"
| "utf8_valid (a # s) =
    (if byte_in 0 127 a then utf8_valid s
     else case s of
       [] \<Rightarrow> False
     | b # s1 \<Rightarrow>
       (if byte_in 194 223 a then cont_byte b \<and> utf8_valid s1
        else case s1 of
          [] \<Rightarrow> False
        | c # s2 \<Rightarrow>
          (if byte_in 224 239 a then
             (if byte_val a = 224 then byte_in 160 191 b
              else if byte_val a = 237 then byte_in 128 159 b
              else cont_byte b) \<and> cont_byte c \<and> utf8_valid s2
           else case s2 of
             [] \<Rightarrow> False
           | d # s3 \<Rightarrow>
             byte_in 240 244 a \<and>
             (if byte_val a = 240 then byte_in 144 191 b
              else if byte_val a = 244 then byte_in 128 143 b
              else cont_byte b) \<and> cont_byte c \<and> cont_byte d \<and> utf8_valid s3)))"

text \<open>The number of bytes of the whitespace character a string starts with, 0 if none.\<close>

definition ascii_ws :: "byte \<Rightarrow> bool" where
  "ascii_ws c \<longleftrightarrow> byte_in 9 13 c \<or> byte_val c = 32"

definition ws2 :: "byte \<Rightarrow> byte \<Rightarrow> bool" where
  "ws2 a b \<longleftrightarrow> byte_val a = 194 \<and> (byte_val b = 133 \<or> byte_val b = 160)"

definition ws3 :: "byte \<Rightarrow> byte \<Rightarrow> byte \<Rightarrow> bool" where
  "ws3 a b c \<longleftrightarrow>
     (byte_val a = 225 \<and> byte_val b = 154 \<and> byte_val c = 128)
   \<or> (byte_val a = 226 \<and> byte_val b = 128 \<and>
       (byte_in 128 138 c \<or> byte_val c = 168 \<or> byte_val c = 169 \<or> byte_val c = 175))
   \<or> (byte_val a = 226 \<and> byte_val b = 129 \<and> byte_val c = 159)
   \<or> (byte_val a = 227 \<and> byte_val b = 128 \<and> byte_val c = 128)"

fun ws_len :: "bytes \<Rightarrow> nat" where
  "ws_len [] = 0"
| "ws_len (a # s) =
    (if ascii_ws a then 1
     else case s of
       [] \<Rightarrow> 0
     | b # s1 \<Rightarrow> if ws2 a b then 2
        else (case s1 of [] \<Rightarrow> 0 | c # _ \<Rightarrow> if ws3 a b c then 3 else 0))"

text \<open>The same at the end of a string, given reversed.\<close>

fun ws_len_rev :: "bytes \<Rightarrow> nat" where
  "ws_len_rev [] = 0"
| "ws_len_rev (c # s) =
    (if ascii_ws c then 1
     else case s of
       [] \<Rightarrow> 0
     | b # s1 \<Rightarrow> if ws2 b c then 2
        else (case s1 of [] \<Rightarrow> 0 | a # _ \<Rightarrow> if ws3 a b c then 3 else 0))"

lemma ws_len_le: "ws_len s \<le> length s"
  by (cases s rule: ws_len.cases) (auto split: list.splits)

lemma ws_len_rev_le: "ws_len_rev s \<le> length s"
  by (cases s rule: ws_len_rev.cases) (auto split: list.splits)

lemma ws_len_drop_less: "ws_len s \<noteq> 0 \<Longrightarrow> length (drop (ws_len s) s) < length s"
  using ws_len_le [of s] by (cases s) auto

lemma ws_len_rev_drop_less: "ws_len_rev s \<noteq> 0 \<Longrightarrow> length (drop (ws_len_rev s) s) < length s"
  using ws_len_rev_le [of s] by (cases s) auto

function trim_start :: "bytes \<Rightarrow> bytes" where
  "trim_start s = (if ws_len s = 0 then s else trim_start (drop (ws_len s) s))"
  by pat_completeness auto
termination
  by (relation "measure length") (simp, unfold in_measure, rule ws_len_drop_less)

function trim_rev :: "bytes \<Rightarrow> bytes" where
  "trim_rev s = (if ws_len_rev s = 0 then s else trim_rev (drop (ws_len_rev s) s))"
  by pat_completeness auto
termination
  by (relation "measure length") (simp, unfold in_measure, rule ws_len_rev_drop_less)

declare trim_start.simps [simp del] trim_rev.simps [simp del]

definition trim_end :: "bytes \<Rightarrow> bytes" where
  "trim_end s = rev (trim_rev (rev s))"

definition trim :: "bytes \<Rightarrow> bytes" where
  "trim s = trim_end (trim_start s)"

fun take_word :: "bytes \<Rightarrow> bytes" where
  "take_word [] = []"
| "take_word (c # s) = (if ws_len (c # s) = 0 then c # take_word s else [])"

lemma trim_start_length: "length (trim_start s) \<le> length s"
proof (induction s rule: trim_start.induct)
  case (1 s)
  then show ?case
    by (cases "ws_len s = 0") (auto simp: trim_start.simps [of s])
qed

lemma ws_len_trim_start [simp]: "ws_len (trim_start s) = 0"
  by (induction s rule: trim_start.induct) (subst trim_start.simps, simp)

function split_whitespace :: "bytes \<Rightarrow> bytes list" where
  "split_whitespace s =
    (case trim_start s of
       [] \<Rightarrow> []
     | c # r \<Rightarrow> (c # take_word r) # split_whitespace (drop (length (take_word r)) r))"
  by pat_completeness auto
termination
proof (relation "measure length", simp)
  fix s c r
  assume "trim_start s = c # r"
  with trim_start_length [of s] show "(drop (length (take_word r)) r, s) \<in> measure length"
    by simp
qed

declare split_whitespace.simps [simp del]

section \<open>Searching, splitting and stripping\<close>

definition starts_with :: "bytes \<Rightarrow> bytes \<Rightarrow> bool" where
  "starts_with p s \<longleftrightarrow> take (length p) s = p"

definition ends_with :: "bytes \<Rightarrow> bytes \<Rightarrow> bool" where
  "ends_with p s \<longleftrightarrow> length p \<le> length s \<and> drop (length s - length p) s = p"

definition strip_prefix :: "bytes \<Rightarrow> bytes \<Rightarrow> bytes option" where
  "strip_prefix p s = (if starts_with p s then Some (drop (length p) s) else None)"

definition strip_suffix :: "bytes \<Rightarrow> bytes \<Rightarrow> bytes option" where
  "strip_suffix p s = (if ends_with p s then Some (take (length s - length p) s) else None)"

fun str_contains :: "bytes \<Rightarrow> bytes \<Rightarrow> bool" where
  "str_contains p [] = (p = [])"
| "str_contains p (c # s) = (starts_with p (c # s) \<or> str_contains p s)"

definition split_once :: "(byte \<Rightarrow> bool) \<Rightarrow> bytes \<Rightarrow> (bytes \<times> bytes) option" where
  "split_once P s =
    (case dropWhile (\<lambda>c. \<not> P c) s of
       [] \<Rightarrow> None
     | _ # r \<Rightarrow> Some (takeWhile (\<lambda>c. \<not> P c) s, r))"

definition rsplit_once :: "(byte \<Rightarrow> bool) \<Rightarrow> bytes \<Rightarrow> (bytes \<times> bytes) option" where
  "rsplit_once P s = map_option (\<lambda>(a, b). (rev b, rev a)) (split_once P (rev s))"

fun split_inclusive :: "(byte \<Rightarrow> bool) \<Rightarrow> bytes \<Rightarrow> bytes list" where
  "split_inclusive P [] = []"
| "split_inclusive P (c # s) =
    (if P c then [c] # split_inclusive P s
     else case split_inclusive P s of [] \<Rightarrow> [[c]] | b # bs \<Rightarrow> (c # b) # bs)"

fun split_on :: "(byte \<Rightarrow> bool) \<Rightarrow> bytes \<Rightarrow> bytes list" where
  "split_on P [] = [[]]"
| "split_on P (c # s) =
    (if P c then [] # split_on P s
     else case split_on P s of [] \<Rightarrow> [[c]] | b # bs \<Rightarrow> (c # b) # bs)"

definition replace_byte :: "byte \<Rightarrow> byte \<Rightarrow> bytes \<Rightarrow> bytes" where
  "replace_byte a b s = map (\<lambda>c. if c = a then b else c) s"

section \<open>Reading lines\<close>

text \<open>
  A reader gives its content and then end of file, or an I/O error.
\<close>

type_synonym reader = "bytes \<times> error_kind option"

definition newline :: byte where
  "newline = CHR 0x0A"

fun read_until :: "byte \<Rightarrow> bytes \<Rightarrow> bytes \<times> bytes" where
  "read_until d [] = ([], [])"
| "read_until d (c # s) =
    (if c = d then ([c], s) else (case read_until d s of (l, r) \<Rightarrow> (c # l, r)))"

definition utf8_line :: "bytes \<Rightarrow> bytes res" where
  "utf8_line l = (if utf8_valid l then Inr l
                  else err_msg InvalidData ''stream did not contain valid UTF-8'')"

text \<open>The error that reading one more line runs into: only a line without newline meets it.\<close>

definition line_error :: "bytes \<Rightarrow> error_kind option \<Rightarrow> error_kind option" where
  "line_error l f = (if l \<noteq> [] \<and> last l = newline then None else f)"

text \<open>
  \<^verbatim>\<open>BufRead::read_line\<close>: the next line with its newline, empty at the end of the file, and
  the reader after it. Text that is not UTF-8 is an \<^const>\<open>InvalidData\<close> error.
\<close>

definition read_line :: "reader \<Rightarrow> bytes res \<times> reader" where
  "read_line rd =
    (case read_until newline (fst rd) of
       (l, r) \<Rightarrow>
         (case line_error l (snd rd) of
            Some k \<Rightarrow> (err k, [], Some k)
          | None \<Rightarrow> (utf8_line l, r, snd rd)))"

lemma read_until_length: "read_until d s = (l, r) \<Longrightarrow> length r + length l = length s"
  by (induction d s arbitrary: l r rule: read_until.induct) (auto split: if_splits prod.splits)

lemma read_until_append: "read_until d s = (l, r) \<Longrightarrow> l @ r = s"
  by (induction d s arbitrary: l r rule: read_until.induct) (auto split: if_splits prod.splits)

lemma read_until_empty: "read_until d s = ([], r) \<longleftrightarrow> s = [] \<and> r = []"
  by (cases s) (auto split: prod.splits)

lemma read_line_length: "read_line rd = (Inr l, rd1) \<Longrightarrow> length (fst rd1) + length l = length (fst rd)"
  using read_until_length [of newline "fst rd"]
  by (auto simp: read_line_def utf8_line_def split: prod.splits option.splits if_splits)

lemma read_line_no_panic: "fst (read_line rd) \<noteq> Inl (Panic m)"
  by (auto simp: read_line_def utf8_line_def split: prod.splits option.splits)

text \<open>
  \<^verbatim>\<open>BufRead::lines\<close>: the lines without their newline (or carriage return and newline),
  as the list the iterator yields; a line that is not UTF-8 is an error item.
\<close>

definition strip_line_end :: "bytes \<Rightarrow> bytes" where
  "strip_line_end l =
    (case strip_suffix [newline] l of
       None \<Rightarrow> l
     | Some l1 \<Rightarrow> (case strip_suffix [CHR 0x0D] l1 of None \<Rightarrow> l1 | Some l2 \<Rightarrow> l2))"

function lines_of :: "reader \<Rightarrow> bytes res list" where
  "lines_of rd =
    (case read_until newline (fst rd) of
       (l, r) \<Rightarrow>
         (case line_error l (snd rd) of
            Some k \<Rightarrow> [err k]
          | None \<Rightarrow>
            if l = [] then []
            else bindR (utf8_line l) (\<lambda>l. Inr (strip_line_end l)) # lines_of (r, snd rd)))"
  by pat_completeness auto
termination
  by (relation "measure (\<lambda>rd. length (fst rd))")
    (auto dest!: sym [of "(_, _)"] read_until_length simp: neq_Nil_conv)

declare lines_of.simps [simp del]

section \<open>Numbers in text\<close>

text \<open>
  \<^verbatim>\<open>{integer}::from_str_radix\<close> and \<^verbatim>\<open>str::parse\<close> on an unsigned type of \<open>bits\<close> bits: an
  optional plus sign before at least one digit, and no overflow.
\<close>

definition digit_of :: "nat \<Rightarrow> byte \<Rightarrow> nat option" where
  "digit_of radix c =
    (let v = byte_val c;
         d = (if 48 \<le> v \<and> v \<le> 57 then v - 48
              else if 97 \<le> v \<and> v \<le> 122 then v - 87
              else if 65 \<le> v \<and> v \<le> 90 then v - 55
              else radix)
     in if d < radix then Some d else None)"

fun parse_digits :: "nat \<Rightarrow> nat \<Rightarrow> bytes \<Rightarrow> nat option" where
  "parse_digits radix acc [] = Some acc"
| "parse_digits radix acc (c # s) =
    (case digit_of radix c of
       None \<Rightarrow> None
     | Some d \<Rightarrow> parse_digits radix (acc * radix + d) s)"

definition strip_plus :: "bytes \<Rightarrow> bytes" where
  "strip_plus s =
    (case s of c # d # r \<Rightarrow> if c = CHR ''+'' then d # r else s | _ \<Rightarrow> s)"

definition from_str_radix :: "nat \<Rightarrow> nat \<Rightarrow> bytes \<Rightarrow> nat option" where
  "from_str_radix bits radix s =
    (if s = [] then None
     else case parse_digits radix 0 (strip_plus s) of
       None \<Rightarrow> None
     | Some v \<Rightarrow> if v < 2 ^ bits then Some v else None)"

text \<open>Positional notation, as the formatting macros print it.\<close>

fun nat_digits :: "nat \<Rightarrow> nat \<Rightarrow> nat list" where
  "nat_digits b n = (if n < b \<or> b < 2 then [n] else nat_digits b (n div b) @ [n mod b])"

declare nat_digits.simps [simp del]

definition digit_char :: "nat \<Rightarrow> byte" where
  "digit_char d = char_of (if d < 10 then 48 + d else 87 + d)"

definition digit_char_upper :: "nat \<Rightarrow> byte" where
  "digit_char_upper d = char_of (if d < 10 then 48 + d else 55 + d)"

definition pad0 :: "nat \<Rightarrow> bytes \<Rightarrow> bytes" where
  "pad0 w s = replicate (w - length s) CHR ''0'' @ s"

definition fmt_dec :: "nat \<Rightarrow> bytes" where
  "fmt_dec n = map digit_char (nat_digits 10 n)"

definition fmt_hex :: "nat \<Rightarrow> nat \<Rightarrow> bytes" where
  \<comment> \<open>\<^verbatim>\<open>{:0wx}\<close>\<close>
  "fmt_hex w n = pad0 w (map digit_char (nat_digits 16 n))"

definition fmt_HEX :: "nat \<Rightarrow> nat \<Rightarrow> bytes" where
  \<comment> \<open>\<^verbatim>\<open>{:0wX}\<close>\<close>
  "fmt_HEX w n = pad0 w (map digit_char_upper (nat_digits 16 n))"

subsection \<open>Printing and parsing numbers\<close>

lemma nat_digits_less: "2 \<le> b \<Longrightarrow> d \<in> set (nat_digits b n) \<Longrightarrow> d < b"
proof (induction b n rule: nat_digits.induct)
  case (1 b n)
  then show ?case by (auto simp: nat_digits.simps [of b n] split: if_splits)
qed

lemma nat_digits_nonempty [simp]: "nat_digits b n \<noteq> []"
  by (simp add: nat_digits.simps [of b n])

lemma nat_digits_length:
  "2 \<le> b \<Longrightarrow> n < b ^ Suc k \<Longrightarrow> length (nat_digits b n) \<le> Suc k"
proof (induction k arbitrary: n)
  case 0
  then show ?case by (simp add: nat_digits.simps [of b n])
next
  case (Suc k)
  then have "n div b < b ^ Suc k"
    by (simp add: less_mult_imp_div_less mult.commute)
  with Suc show ?case by (auto simp: nat_digits.simps [of b n])
qed

lemma parse_digits_append:
  "parse_digits r acc (s @ t) =
    (case parse_digits r acc s of None \<Rightarrow> None | Some v \<Rightarrow> parse_digits r v t)"
  by (induction s arbitrary: acc) (auto split: option.splits)

lemma byte_val_char_of: "n < 256 \<Longrightarrow> byte_val (char_of n) = n"
  by (simp add: byte_val_def)

lemma digit_of_digit_char: "d < r \<Longrightarrow> r \<le> 36 \<Longrightarrow> digit_of r (digit_char d) = Some d"
  by (simp add: digit_of_def digit_char_def byte_val_char_of Let_def)

lemma digit_of_digit_char_upper: "d < r \<Longrightarrow> r \<le> 36 \<Longrightarrow> digit_of r (digit_char_upper d) = Some d"
  by (simp add: digit_of_def digit_char_upper_def byte_val_char_of Let_def)

lemma parse_digits_nat_digits:
  assumes "2 \<le> r" and "\<And>d. d < r \<Longrightarrow> digit_of r (f d) = Some d"
  shows "parse_digits r 0 (map f (nat_digits r n)) = Some n"
  using assms
proof (induction r n rule: nat_digits.induct)
  case (1 b n)
  then show ?case
    by (cases "n < b") (simp_all add: nat_digits.simps [of b n] parse_digits_append)
qed

lemma parse_digits_zeros:
  "digit_of r CHR ''0'' = Some 0 \<Longrightarrow> parse_digits r 0 (replicate k CHR ''0'' @ s) = parse_digits r 0 s"
  by (induction k) auto

section \<open>Splitting, reading and validity of concatenated text\<close>

lemma split_once_first: "\<forall>c\<in>set k. \<not> P c \<Longrightarrow> P x \<Longrightarrow> split_once P (k @ x # s) = Some (k, s)"
  by (induction k) (simp_all add: split_once_def split: list.splits)

lemma read_until_line: "d \<notin> set l \<Longrightarrow> read_until d (l @ d # r) = (l @ [d], r)"
  by (induction l) auto

lemma split_on_none: "\<forall>c\<in>set w. \<not> P c \<Longrightarrow> split_on P w = [w]"
  by (induction w) auto

lemma split_on_first: "\<forall>c\<in>set w. \<not> P c \<Longrightarrow> P d \<Longrightarrow> split_on P (w @ d # s) = w # split_on P s"
  by (induction w) auto

lemma split_on_char:
  "x \<notin> set w \<Longrightarrow> split_on (\<lambda>c. c = x) w = [w]"
  "x \<notin> set w \<Longrightarrow> split_on (\<lambda>c. c = x) (w @ x # s) = w # split_on (\<lambda>c. c = x) s"
  using split_on_none [of w "\<lambda>c. c = x"] split_on_first [of w "\<lambda>c. c = x" x s] by blast+

lemma read_until_cases:
  assumes "read_until d s = (l, r)"
  obtains (line) p where "l = p @ [d]" and "d \<notin> set p" and "s = p @ d # r"
  | (rest) "l = s" and "d \<notin> set s" and "r = []"
  using assms
proof (induction d s arbitrary: l r thesis rule: read_until.induct)
  case (2 d c s)
  show ?case
  proof (cases "c = d")
    case True
    with 2 show ?thesis by (metis append_Nil prod.inject read_until.simps(2) empty_iff list.set(1))
  next
    case False
    obtain l1 r1 where lr: "read_until d s = (l1, r1)" by fastforce
    with False "2.prems"(3) have l: "l = c # l1" "r = r1" by auto
    show ?thesis
    proof (rule "2.IH" [OF False _ _ lr])
      fix p assume "l1 = p @ [d]" "d \<notin> set p" "s = p @ d # r1"
      with l False show thesis by (intro "2.prems"(1) [of "c # p"]) auto
    next
      assume "l1 = s" "d \<notin> set s" "r1 = []"
      with l False show thesis by (intro "2.prems"(2)) auto
    qed
  qed
qed simp

lemma utf8_valid_append: "utf8_valid s \<Longrightarrow> utf8_valid (s @ t) = utf8_valid t"
proof (induction s rule: utf8_valid.induct)
  case (2 a s)
  show ?case
  proof (cases "byte_in 0 127 a")
    case True
    with "2.IH"(1) "2.prems" show ?thesis by simp
  next
    case one: False
    with "2.prems" obtain b s1 where s: "s = b # s1" by (cases s) auto
    show ?thesis
    proof (cases "byte_in 194 223 a")
      case True
      with one s "2.IH"(2) [OF one s] "2.prems" show ?thesis by simp
    next
      case two: False
      with one s "2.prems" obtain c s2 where s1: "s1 = c # s2" by (cases s1) auto
      show ?thesis
      proof (cases "byte_in 224 239 a")
        case True
        with one two s s1 "2.IH"(3) [OF one s two s1] "2.prems" show ?thesis by simp
      next
        case three: False
        with one two s s1 "2.prems" obtain d s3 where s2: "s2 = d # s3" by (cases s2) auto
        with one two three s s1 "2.IH"(4) [OF one s two s1 three s2] "2.prems" show ?thesis by simp
      qed
    qed
  qed
qed simp

text \<open>An ASCII byte never ends in the middle of a character.\<close>

lemma utf8_valid_ascii_end:
  assumes "byte_in 0 127 c"
  shows "utf8_valid (s @ c # t) \<Longrightarrow> utf8_valid s"
proof (induction s rule: utf8_valid.induct)
  case 1
  then show ?case by simp
next
  case (2 a s)
  have n: "\<not> cont_byte c" "\<not> byte_in 160 191 c" "\<not> byte_in 128 159 c" "\<not> byte_in 144 191 c" "\<not> byte_in 128 143 c"
    using assms by (simp_all add: byte_in_def)
  show ?case
  proof (cases "byte_in 0 127 a")
    case True
    with "2.IH"(1) "2.prems" show ?thesis by simp
  next
    case one: False
    with "2.prems" n obtain b s1 where s: "s = b # s1"
      by (cases s) (auto split: if_splits list.splits)
    show ?thesis
    proof (cases "byte_in 194 223 a")
      case True
      with one s "2.IH"(2) [OF one s] "2.prems" show ?thesis by simp
    next
      case two: False
      with one s "2.prems" n obtain c' s2 where s1: "s1 = c' # s2"
        by (cases s1) (auto split: if_splits list.splits)
      show ?thesis
      proof (cases "byte_in 224 239 a")
        case True
        with one two s s1 "2.IH"(3) [OF one s two s1] "2.prems" show ?thesis by simp
      next
        case three: False
        with one two s s1 "2.prems" n obtain d s3 where s2: "s2 = d # s3" by (cases s2) auto
        with one two three s s1 "2.IH"(4) [OF one s two s1 three s2] "2.prems" show ?thesis by simp
      qed
    qed
  qed
qed

lemma utf8_valid_ascii: "\<forall>c\<in>set s. byte_in 0 127 c \<Longrightarrow> utf8_valid s"
  by (induction s) auto

section \<open>Printable words\<close>

definition word_ok :: "bytes \<Rightarrow> bool" where
  \<comment> \<open>printable and without blanks\<close>
  "word_ok s \<longleftrightarrow> (\<forall>c\<in>set s. byte_in 33 126 c)"

lemma word_ok_append [simp]: "word_ok (s @ t) \<longleftrightarrow> word_ok s \<and> word_ok t"
  by (auto simp: word_ok_def)

lemma word_ok_Nil [simp]: "word_ok []"
  by (simp add: word_ok_def)

lemma word_ok_Cons [simp]: "word_ok (c # s) \<longleftrightarrow> byte_in 33 126 c \<and> word_ok s"
  by (auto simp: word_ok_def)

lemma word_ok_utf8: "word_ok s \<Longrightarrow> utf8_valid s"
  by (rule utf8_valid_ascii) (auto simp: word_ok_def byte_in_def)

lemma word_ok_blank: "word_ok s \<Longrightarrow> c \<in> set s \<Longrightarrow> \<not> (c = CHR '' '' \<or> c = newline)"
  by (auto simp: word_ok_def byte_in_def byte_val_def newline_def)

lemma ws_len_printable: "byte_in 33 126 c \<Longrightarrow> ws_len (c # s) = 0"
  by (cases s; cases "tl s") (auto simp: byte_in_def ascii_ws_def ws2_def ws3_def)

lemma trim_start_printable: "byte_in 33 126 c \<Longrightarrow> trim_start (c # s) = c # s"
  by (simp add: trim_start.simps [of "c # s"] ws_len_printable del: ws_len.simps)

lemma trim_start_blank: "ascii_ws b \<Longrightarrow> trim_start (b # s) = trim_start s"
  by (simp add: trim_start.simps [of "b # s"])

lemma take_word_printable: "word_ok w \<Longrightarrow> ascii_ws b \<Longrightarrow> take_word (w @ b # s) = w"
  by (induction w) (simp, simp add: ws_len_printable del: ws_len.simps)

lemma split_whitespace_word:
  assumes "word_ok w" and "w \<noteq> []" and "ascii_ws b"
  shows "split_whitespace (w @ b # s) = w # split_whitespace s"
proof -
  obtain c v where w: "w = c # v" using assms(2) by (cases w) auto
  have "split_whitespace (w @ b # s) = w # split_whitespace (b # s)"
    using assms w by (simp add: split_whitespace.simps [of "c # v @ b # s"] trim_start_printable take_word_printable)
  also have "split_whitespace (b # s) = split_whitespace s"
    using assms(3) by (simp add: split_whitespace.simps [of "b # s"] split_whitespace.simps [of s] trim_start_blank)
  finally show ?thesis .
qed

lemma split_whitespace_Nil: "split_whitespace [] = []"
  by (simp add: split_whitespace.simps [of "[]"] trim_start.simps [of "[]"])

lemma blanks [simp]: "ascii_ws CHR '' ''" "ascii_ws newline"
  by (simp_all add: ascii_ws_def byte_val_def byte_in_def newline_def)

lemma trim_end_line:
  assumes "word_ok s"
  shows "trim_end (s @ [newline]) = s"
proof -
  have "ws_len_rev (rev s) = 0"
  proof (cases "rev s")
    case (Cons c x)
    then have "byte_in 33 126 c" using assms by (auto simp: word_ok_def dest: arg_cong [of _ _ set])
    then show ?thesis
      unfolding Cons by (cases x; cases "tl x") (auto simp: byte_in_def ascii_ws_def ws2_def ws3_def)
  qed simp
  then have "trim_rev (rev s) = rev s" by (simp add: trim_rev.simps [of "rev s"])
  moreover have "ws_len_rev (newline # rev s) = 1"
    by (simp add: ascii_ws_def byte_in_def byte_val_def newline_def)
  ultimately show ?thesis by (simp add: trim_end_def trim_rev.simps [of "newline # rev s"])
qed

end
