(* ===== verification/Rust_Path.thy ===== *)
theory Rust_Path
  imports Rust_Str
begin

text \<open>
  The operations of \<^verbatim>\<open>std::path\<close> on Unix that the program uses. A path is its byte
  string; \<^verbatim>\<open>Path\<close> compares and hashes component by component, so a set of paths is a
  set of component lists here, and \<open>path_key\<close> is the equality class of a path.
\<close>

datatype component = RootDir | CurDir | ParentDir | Normal bytes

abbreviation sep :: byte where
  "sep \<equiv> CHR ''/''"

definition is_absolute :: "bytes \<Rightarrow> bool" where
  "is_absolute p \<longleftrightarrow> (case p of c # _ \<Rightarrow> c = sep | [] \<Rightarrow> False)"

definition include_cur_dir :: "bytes \<Rightarrow> bool" where
  "include_cur_dir p \<longleftrightarrow>
    (case p of
       [c] \<Rightarrow> c = CHR ''.''
     | c # d # _ \<Rightarrow> c = CHR ''.'' \<and> d = sep
     | [] \<Rightarrow> False)"

definition parse_single_component :: "bytes \<Rightarrow> component option" where
  "parse_single_component c =
    (if c = [] \<or> c = ''.'' then None
     else if c = ''..'' then Some ParentDir
     else Some (Normal c))"

definition body_components :: "bytes \<Rightarrow> component list" where
  "body_components s = List.map_filter parse_single_component (split_on (\<lambda>c. c = sep) s)"

definition components :: "bytes \<Rightarrow> component list" where
  "components p =
    (if is_absolute p then RootDir # body_components (tl p)
     else if include_cur_dir p then CurDir # body_components (tl p)
     else body_components p)"

type_synonym path_key = "component list"

section \<open>Taking components off the front and the back\<close>

text \<open>
  \<open>next_body s\<close> skips empty and \<open>.\<close> components at the front and takes the next one
  off: the component's bytes, and what follows its separator. The iterator's back
  end works on the reversed string: the skipped components are palindromes.
\<close>

function next_body :: "bytes \<Rightarrow> (bytes \<times> bytes) option" where
  "next_body s =
    (if s = [] then None
     else let c = takeWhile (\<lambda>x. x \<noteq> sep) s; r = drop (Suc (length c)) s
          in if parse_single_component c = None then next_body r else Some (c, r))"
  by pat_completeness auto
termination
  by (relation "measure length") auto

declare next_body.simps [simp del]

function trim_left :: "bytes \<Rightarrow> bytes" where
  "trim_left s =
    (if s = [] then []
     else let c = takeWhile (\<lambda>x. x \<noteq> sep) s
          in if parse_single_component c = None then trim_left (drop (Suc (length c)) s) else s)"
  by pat_completeness auto
termination
  by (relation "measure length") auto

declare trim_left.simps [simp del]

definition trim_right :: "bytes \<Rightarrow> bytes" where
  "trim_right s = rev (trim_left (rev s))"

section \<open>Operations of \<open>Path\<close> and \<open>PathBuf\<close>\<close>

definition strip_prefix_root :: "bytes \<Rightarrow> bytes option" where
  \<comment> \<open>\<^verbatim>\<open>path.strip_prefix("/")\<close>\<close>
  "strip_prefix_root p = (if is_absolute p then Some (trim_right (trim_left (tl p))) else None)"

definition strip_prefix_cur :: "bytes \<Rightarrow> bytes option" where
  \<comment> \<open>\<^verbatim>\<open>path.strip_prefix("./")\<close> and \<^verbatim>\<open>path.strip_prefix(".")\<close>\<close>
  "strip_prefix_cur p =
    (if \<not> is_absolute p \<and> include_cur_dir p then Some (trim_right (trim_left (tl p))) else None)"

definition path_join :: "bytes \<Rightarrow> bytes \<Rightarrow> bytes" where
  "path_join a b =
    (if is_absolute b then b
     else if a \<noteq> [] \<and> last a \<noteq> sep then a @ sep # b
     else a @ b)"

definition before_body :: "bytes \<Rightarrow> nat" where
  "before_body p = (if is_absolute p \<or> include_cur_dir p then 1 else 0)"

definition parent :: "bytes \<Rightarrow> bytes option" where
  "parent p =
    (let n = before_body p
     in case next_body (rev (drop n p)) of
          Some (_, r) \<Rightarrow> Some (take n p @ rev (trim_left r))
        | None \<Rightarrow> if \<not> is_absolute p \<and> include_cur_dir p then Some [] else None)"

definition path_pop :: "bytes \<Rightarrow> bytes \<times> bool" where
  "path_pop p = (case parent p of Some q \<Rightarrow> (q, True) | None \<Rightarrow> (p, False))"

definition file_name :: "bytes \<Rightarrow> bytes option" where
  "file_name p =
    (case next_body (rev (drop (before_body p) p)) of
       Some (c, _) \<Rightarrow> (if c = ''..'' then None else Some (rev c))
     | None \<Rightarrow> None)"

definition rsplit_file_at_dot :: "bytes \<Rightarrow> bytes option \<times> bytes option" where
  "rsplit_file_at_dot f =
    (if f = ''..'' then (Some f, None)
     else case rsplit_once (\<lambda>c. c = CHR ''.'') f of
       None \<Rightarrow> (None, Some f)
     | Some (stem, ext) \<Rightarrow> if stem = [] then (Some f, None) else (Some stem, Some ext))"

definition file_stem :: "bytes \<Rightarrow> bytes option" where
  "file_stem p =
    (case file_name p of
       None \<Rightarrow> None
     | Some f \<Rightarrow> (case rsplit_file_at_dot f of
                   (Some stem, _) \<Rightarrow> Some stem
                 | (None, ext) \<Rightarrow> ext))"

definition extension :: "bytes \<Rightarrow> bytes option" where
  "extension p =
    (case file_name p of
       None \<Rightarrow> None
     | Some f \<Rightarrow> (case rsplit_file_at_dot f of (Some _, ext) \<Rightarrow> ext | (None, _) \<Rightarrow> None))"

definition component_bytes :: "component \<Rightarrow> bytes" where
  "component_bytes c =
    (case c of RootDir \<Rightarrow> ''/'' | CurDir \<Rightarrow> ''.'' | ParentDir \<Rightarrow> ''..'' | Normal n \<Rightarrow> n)"

definition path_extend :: "bytes \<Rightarrow> component list \<Rightarrow> bytes" where
  "path_extend p cs = foldl (\<lambda>a c. path_join a (component_bytes c)) p cs"

definition path_absolute :: "bytes \<Rightarrow> bytes \<Rightarrow> bytes res" where
  \<comment> \<open>\<^verbatim>\<open>std::path::absolute\<close>, in the current directory \<open>cwd\<close>\<close>
  "path_absolute cwd p =
    (if p = [] then err_msg InvalidInput ''cannot make an empty path absolute''
     else let q = (case strip_prefix_cur p of Some r \<Rightarrow> r | None \<Rightarrow> p);
              two = starts_with ''//'' p \<and> \<not> starts_with ''///'' p;
              comps = (if two then tl (components q) else components q);
              base = (if is_absolute p then (if two then ''//'' else []) else cwd);
              n = path_extend base comps
          in Inr (if ends_with ''/'' p then path_join n [] else n))"

section \<open>Laws\<close>

lemma is_absolute_simps [simp]:
  "is_absolute [] = False"
  "is_absolute (c # s) = (c = sep)"
  by (simp_all add: is_absolute_def)

lemma parse_single_component_rev:
  "parse_single_component (rev c) = None \<longleftrightarrow> parse_single_component c = None"
  by (auto simp: parse_single_component_def)

lemma map_filter_Nil [simp]: "List.map_filter f [] = []"
  by (simp add: List.map_filter_def)

lemma map_filter_Cons [simp]:
  "List.map_filter f (x # xs) = (case f x of None \<Rightarrow> List.map_filter f xs | Some y \<Rightarrow> y # List.map_filter f xs)"
  by (simp add: List.map_filter_def split: option.splits)

lemma map_filter_append [simp]:
  "List.map_filter f (xs @ ys) = List.map_filter f xs @ List.map_filter f ys"
  by (simp add: List.map_filter_def)

lemma split_on_nonempty [simp]: "split_on P s \<noteq> []"
  by (induction s) (auto split: list.splits)

lemma split_on_append_sep: "P c \<Longrightarrow> split_on P (a @ c # b) = split_on P a @ split_on P b"
  by (induction a) (auto split: list.splits)

lemma body_components_Nil [simp]: "body_components [] = []"
  by (simp add: body_components_def parse_single_component_def)

lemma body_components_append_sep:
  "body_components (a @ sep # b) = body_components a @ body_components b"
  by (simp add: body_components_def split_on_append_sep)

lemma body_components_single:
  "sep \<notin> set c \<Longrightarrow> body_components c =
     (case parse_single_component c of None \<Rightarrow> [] | Some x \<Rightarrow> [x])"
  by (auto simp: body_components_def split_on_char split: option.splits)

text \<open>A name that \<^verbatim>\<open>read_dir\<close> can return: one component, not \<open>.\<close> or \<open>..\<close>.\<close>

definition plain_name :: "bytes \<Rightarrow> bool" where
  "plain_name n \<longleftrightarrow> sep \<notin> set n \<and> n \<noteq> [] \<and> n \<noteq> ''.'' \<and> n \<noteq> ''..''"

lemma plain_name_parse: "plain_name n \<Longrightarrow> parse_single_component n = Some (Normal n)"
  by (auto simp: plain_name_def parse_single_component_def)

lemma plain_name_not_absolute: "plain_name n \<Longrightarrow> \<not> is_absolute n"
  by (cases n) (auto simp: plain_name_def)

lemma components_join:
  assumes "is_absolute p" and "plain_name n"
  shows "components (path_join p n) = components p @ [Normal n]"
proof -
  have n: "body_components n = [Normal n]"
    using assms(2) by (simp add: plain_name_def body_components_single plain_name_parse)
  from assms(1) obtain q where p: "p = sep # q" by (cases p) auto
  show ?thesis
  proof (cases "last p = sep")
    case False
    with p n show ?thesis
      using assms(2)
      by (auto simp: path_join_def components_def plain_name_not_absolute body_components_append_sep)
  next
    case True
    show ?thesis
    proof (cases "q = []")
      case True
      with p n show ?thesis
        using assms(2) by (simp add: path_join_def components_def plain_name_not_absolute)
    next
      case False
      with True p obtain q' where q: "q = q' @ [sep]" by (metis append_butlast_last_id last_ConsR)
      have "body_components (q' @ sep # n) = body_components (q' @ [sep]) @ [Normal n]"
        using body_components_append_sep [of q' n] body_components_append_sep [of q' "[]"] n by simp
      with p q True show ?thesis
        using assms(2) by (simp add: path_join_def components_def plain_name_not_absolute)
    qed
  qed
qed

lemma is_absolute_join: "is_absolute p \<Longrightarrow> is_absolute (path_join p n)"
  by (cases p) (auto simp: path_join_def)

section \<open>The parent of a path\<close>

lemma take_to_sep [simp]:
  "sep \<notin> set c \<Longrightarrow> takeWhile (\<lambda>x. x \<noteq> sep) (c @ sep # r) = c"
  "sep \<notin> set c \<Longrightarrow> takeWhile (\<lambda>x. x \<noteq> sep) c = c"
  by (rule takeWhile_append_stop, auto simp: takeWhile_eq_all_conv)

lemma take_first_component:
  obtains "sep \<notin> set (s :: bytes)" | c r where "s = c @ sep # r" "sep \<notin> set c"
  by (meson split_list_first)

lemma next_body_Nil [simp]: "next_body [] = None"
  by (subst next_body.simps) simp

lemma trim_left_Nil [simp]: "trim_left [] = []"
  by (subst trim_left.simps) simp

lemma next_body_word:
  "sep \<notin> set s \<Longrightarrow> next_body s = (if parse_single_component s = None then None else Some (s, []))"
  by (subst next_body.simps) (simp add: Let_def parse_single_component_def)

lemma next_body_sep:
  "sep \<notin> set c \<Longrightarrow>
    next_body (c @ sep # r) = (if parse_single_component c = None then next_body r else Some (c, r))"
  by (subst next_body.simps) (simp add: Let_def)

lemma trim_left_word: "sep \<notin> set s \<Longrightarrow> trim_left s = (if parse_single_component s = None then [] else s)"
  by (subst trim_left.simps) (simp add: Let_def parse_single_component_def)

lemma trim_left_sep:
  "sep \<notin> set c \<Longrightarrow>
    trim_left (c @ sep # r) = (if parse_single_component c = None then trim_left r else c @ sep # r)"
  by (subst trim_left.simps) (simp add: Let_def)

lemma body_components_rev_cons:
  assumes "sep \<notin> set c"
  shows "body_components (rev (c @ sep # r))
    = body_components (rev r) @ (case parse_single_component (rev c) of None \<Rightarrow> [] | Some x \<Rightarrow> [x])"
  using assms body_components_append_sep [of "rev r" "rev c"] by (simp add: body_components_single)

lemma next_body_components:
  "case next_body s of None \<Rightarrow> body_components (rev s) = []
   | Some (c, r) \<Rightarrow> \<exists>x. parse_single_component (rev c) = Some x \<and> body_components (rev s) = body_components (rev r) @ [x]"
proof (induction s rule: length_induct)
  case (1 s)
  show ?case
  proof (cases rule: take_first_component [of s])
    case 1
    then show ?thesis
      using body_components_single [of "rev s"] parse_single_component_rev [of s]
      by (auto simp: next_body_word split: option.splits)
  next
    case (2 c r)
    show ?thesis
    proof (cases "parse_single_component c")
      case None
      then have "next_body s = next_body r" and "body_components (rev s) = body_components (rev r)"
        using 2 body_components_rev_cons [OF 2(2), of r] parse_single_component_rev [of c] by (simp_all add: next_body_sep)
      moreover have "length r < length s" using 2(1) by simp
      ultimately show ?thesis using "1.IH" by (simp only:)
    next
      case (Some x)
      with 2 body_components_rev_cons [OF 2(2), of r] parse_single_component_rev [of c] show ?thesis
        by (auto simp: next_body_sep)
    qed
  qed
qed

lemma trim_left_components: "body_components (rev (trim_left s)) = body_components (rev s)"
proof (induction s rule: length_induct)
  case (1 s)
  show ?case
  proof (cases rule: take_first_component [of s])
    case 1
    then show ?thesis
      using body_components_single [of "rev s"] parse_single_component_rev [of s]
      by (auto simp: trim_left_word split: option.splits)
  next
    case (2 c r)
    with "1.IH" body_components_rev_cons [OF 2(2), of r] parse_single_component_rev [of c] show ?thesis
      by (auto simp: trim_left_sep)
  qed
qed

lemma parent_components:
  assumes "is_absolute p"
  shows "case parent p of None \<Rightarrow> components p = [RootDir]
    | Some q \<Rightarrow> is_absolute q \<and> components p \<noteq> [RootDir] \<and> components q = butlast (components p)"
proof -
  from assms obtain s where p: "p = sep # s" by (cases p) auto
  show ?thesis
    using next_body_components [of "rev s"] trim_left_components
    by (auto simp: parent_def before_body_def p components_def split: option.splits)
qed

end
