(* ===== verification/Cpio.thy ===== *)
theory Cpio
  imports Rust_Path
begin

text \<open>
  The crate \<^verbatim>\<open>src/cpio\<close>: writing and walking newc cpio archives. This theory holds the
  data model and the operations, in the order of the source; the proofs about them are
  in the theories that follow it.
\<close>

section \<open>Constants and data\<close>

definition NEWC_HDR_LEN :: nat where "NEWC_HDR_LEN = 110"
definition PATH_MAX :: nat where "PATH_MAX = 4096"

definition S_IFIFO :: u32 where "S_IFIFO = 0x1000"
definition S_IFCHR :: u32 where "S_IFCHR = 0x2000"
definition S_IFDIR :: u32 where "S_IFDIR = 0x4000"
definition S_IFBLK :: u32 where "S_IFBLK = 0x6000"
definition S_IFREG :: u32 where "S_IFREG = 0x8000"
definition S_IFLNK :: u32 where "S_IFLNK = 0xA000"
definition S_IFSOCK :: u32 where "S_IFSOCK = 0xC000"
definition S_IFMT :: u32 where "S_IFMT = 0xF000"

lemmas S_IF_defs = S_IFIFO_def S_IFCHR_def S_IFDIR_def S_IFBLK_def S_IFREG_def
  S_IFLNK_def S_IFSOCK_def S_IFMT_def

record ArchiveProperties =
  initial_ino :: u32
  data_align :: u32
  namesize_max :: u32
  initial_data_off :: u64
  fixed_mtime :: "u32 option"
  fixed_uid :: "u32 option"
  fixed_gid :: "u32 option"

definition default_props :: ArchiveProperties where
  "default_props =
    \<lparr>initial_ino = 0, data_align = 0, namesize_max = of_nat PATH_MAX, initial_data_off = 0,
     fixed_mtime = None, fixed_uid = None, fixed_gid = None\<rparr>"

record ArchiveState =
  as_props :: ArchiveProperties
  as_off :: u64
  as_ino :: u32

definition new_state :: "ArchiveProperties \<Rightarrow> ArchiveState" where
  "new_state props = \<lparr>as_props = props, as_off = 0, as_ino = initial_ino props\<rparr>"

record ArchiveMd =
  md_nlink :: u32
  md_mode :: u32
  md_uid :: u32
  md_gid :: u32
  md_mtime :: u32
  md_rmajor :: u32
  md_rminor :: u32
  md_len :: u32

text \<open>What \<^verbatim>\<open>fs::Metadata\<close> gives of a file; \<open>mtime\<close> is signed.\<close>

record Metadata =
  st_mode :: u32
  st_nlink :: u64
  st_uid :: u32
  st_gid :: u32
  st_mtime :: int
  st_rdev :: u64
  st_size :: u64

definition u32_try_from :: "int \<Rightarrow> u32 option" where
  "u32_try_from i = (if 0 \<le> i \<and> i < 2 ^ 32 then Some (word_of_int i) else None)"

definition rdev_major :: "u64 \<Rightarrow> u32" where
  "rdev_major rd = ucast ((drop_bit 32 rd AND 0xfffff000) OR (drop_bit 8 rd AND 0xfff))"

definition rdev_minor :: "u64 \<Rightarrow> u32" where
  "rdev_minor rd = ucast ((drop_bit 12 rd AND 0xffffff00) OR (rd AND 0xff))"

definition ArchiveMd_from :: "ArchiveState \<Rightarrow> Metadata \<Rightarrow> ArchiveMd res" where
  "ArchiveMd_from state md =
    bindR (case fixed_mtime (as_props state) of
             Some t \<Rightarrow> Inr t
           | None \<Rightarrow> (case u32_try_from (st_mtime md) of
                       None \<Rightarrow> err_msg InvalidInput ''mtime too large for cpio''
                     | Some m \<Rightarrow> Inr m)) (\<lambda>mtime.
    let mode = st_mode md;
        fmt = mode AND S_IFMT;
        (nlink, rmajor, rminor) =
          (if fmt = S_IFBLK \<or> fmt = S_IFCHR then
             (u32_try_from (uint (st_nlink md)), rdev_major (st_rdev md), rdev_minor (st_rdev md))
           else if fmt = S_IFREG then (Some 1, 0, 0)
           else (u32_try_from (uint (st_nlink md)), 0, 0))
    in case u32_try_from (uint (st_size md)) of
         None \<Rightarrow> err_msg InvalidInput ''file too large for newc''
       | Some len \<Rightarrow>
         (case nlink of
            None \<Rightarrow> err_msg InvalidInput ''nlink too large''
          | Some n \<Rightarrow>
            Inr \<lparr>md_nlink = n, md_mode = mode,
                 md_uid = (case fixed_uid (as_props state) of Some u \<Rightarrow> u | None \<Rightarrow> st_uid md),
                 md_gid = (case fixed_gid (as_props state) of Some g \<Rightarrow> g | None \<Rightarrow> st_gid md),
                 md_mtime = mtime, md_rmajor = rmajor, md_rminor = rminor, md_len = len\<rparr>))"

section \<open>Path names in the archive\<close>

definition path_trim_prefixes :: "bytes \<Rightarrow> bytes res" where
  "path_trim_prefixes path =
    (let outpath = (case strip_prefix_root path of
                      Some p \<Rightarrow> if length p = 0 then path else p
                    | None \<Rightarrow> path);
         fname = (case strip_prefix_cur outpath of
                    Some p \<Rightarrow> if length p = 0 then outpath else p
                  | None \<Rightarrow> outpath)
     in if length fname + 1 \<ge> PATH_MAX then err_msg InvalidInput ''path too long''
        else Inr fname)"

section \<open>The writer\<close>

text \<open>
  The output device: the bytes written to it so far and the number of bytes it still
  takes (\<^const>\<open>None\<close>: no limit). A write that does not fit fails, after the part that fits.
\<close>

record writer =
  w_buf :: bytes
  w_room :: "nat option"

definition write_all :: "bytes \<Rightarrow> (writer, unit) eff" where
  "write_all z w =
    (case w_room w of
       None \<Rightarrow> (Inr (), w\<lparr>w_buf := w_buf w @ z\<rparr>)
     | Some n \<Rightarrow>
       if length z \<le> n then (Inr (), w\<lparr>w_buf := w_buf w @ z, w_room := Some (n - length z)\<rparr>)
       else (err_msg StorageFull ''failed to write whole buffer'',
             w\<lparr>w_buf := w_buf w @ take n z, w_room := Some 0\<rparr>))"

text \<open>The pair of \<^verbatim>\<open>&mut ArchiveState\<close> and writer every archiving function takes.\<close>

record cpio =
  c_state :: ArchiveState
  c_out :: writer

definition emit :: "bytes \<Rightarrow> (cpio, unit) eff" where
  "emit z c = (case write_all z (c_out c) of (r, w) \<Rightarrow> (r, c\<lparr>c_out := w\<rparr>))"

definition add_off :: "u64 \<Rightarrow> (cpio, unit) eff" where
  "add_off k = modifyE (\<lambda>c. c\<lparr>c_state := (c_state c)\<lparr>as_off := as_off (c_state c) + k\<rparr>\<rparr>)"

definition next_ino :: "(cpio, u32) eff" where
  "next_ino c =
    (Inr (as_ino (c_state c)), c\<lparr>c_state := (c_state c)\<lparr>as_ino := as_ino (c_state c) + 1\<rparr>\<rparr>)"

abbreviation NUL :: byte where
  "NUL \<equiv> CHR 0x00"

definition newc_hdr_fmt :: "nat list \<Rightarrow> bytes" where
  \<comment> \<open>ino, mode, uid, gid, nlink, mtime, filesize, major, minor, rmajor, rminor, namesize, chksum\<close>
  "newc_hdr_fmt fs = ''070701'' @ concat (map (fmt_HEX 8) fs)"

definition archive_padlen :: "u64 \<Rightarrow> u64 \<Rightarrow> u64" where
  \<comment> \<open>every caller passes a positive alignment\<close>
  "archive_padlen off alignment = (alignment - (off AND (alignment - 1))) mod alignment"

definition hdr_fields :: "u32 \<Rightarrow> ArchiveMd \<Rightarrow> nat \<Rightarrow> nat \<Rightarrow> nat list" where
  "hdr_fields ino md filesize namesize =
    [unat ino, unat (md_mode md), unat (md_uid md), unat (md_gid md), unat (md_nlink md),
     unat (md_mtime md), filesize, 0, 0, unat (md_rmajor md), unat (md_rminor md), namesize, 0]"

section \<open>Archiving\<close>

definition emit_name_pad :: "(cpio, unit) eff" where
  \<comment> \<open>the nul terminator and the zeros that align what follows to 4 bytes\<close>
  "emit_name_pad =
    bindE (getE (\<lambda>c. 1 + archive_padlen (as_off (c_state c) + 1) 4)) (\<lambda>seek_len.
    seqE (emit (replicate (unat seek_len) NUL)) (add_off seek_len))"

definition emit_data_pad :: "(cpio, unit) eff" where
  \<comment> \<open>\<^verbatim>\<open>"{pad:.padlen$}"\<close>: at most the three zeros of the format argument\<close>
  "emit_data_pad =
    bindE (getE (\<lambda>c. archive_padlen (as_off (c_state c)) 4)) (\<lambda>dpad_len.
    seqE (emit (take (unat dpad_len) [NUL, NUL, NUL])) (add_off dpad_len))"

definition archive_path :: "bytes \<Rightarrow> ArchiveMd \<Rightarrow> (cpio, unit) eff" where
  "archive_path path md =
    bindE (lift_res (path_trim_prefixes path)) (\<lambda>fname.
    if (md_mode md AND S_IFMT = S_IFREG \<and> md_len md > 0) \<or> md_mode md AND S_IFMT = S_IFLNK
    then throw (IoErr InvalidInput ''archive_path does not support data files or symlinks'')
    else
      bindE next_ino (\<lambda>ino.
      seqE (emit (newc_hdr_fmt (hdr_fields ino md 0 (length fname + 1)))) (
      seqE (add_off (of_nat NEWC_HDR_LEN)) (
      seqE (emit fname) (
      seqE (add_off (of_nat (length fname)))
      emit_name_pad)))))"

definition archive_symlink :: "bytes \<Rightarrow> ArchiveMd \<Rightarrow> bytes \<Rightarrow> (cpio, unit) eff" where
  "archive_symlink path md symlink_tgt =
    bindE (lift_res (path_trim_prefixes path)) (\<lambda>fname.
    if length symlink_tgt \<ge> PATH_MAX
    then throw (IoErr InvalidInput ''symlink path too long'')
    else if md_mode md AND S_IFMT \<noteq> S_IFLNK then throw (IoErr InvalidInput [])
    else
      bindE next_ino (\<lambda>ino.
      seqE (emit (newc_hdr_fmt (hdr_fields ino md (length symlink_tgt) (length fname + 1)))) (
      seqE (add_off (of_nat NEWC_HDR_LEN)) (
      seqE (emit fname) (
      seqE (add_off (of_nat (length fname))) (
      seqE emit_name_pad (
      seqE (emit symlink_tgt) (
      seqE (add_off (of_nat (length symlink_tgt)))
      emit_data_pad))))))))"

definition io_copy :: "reader \<Rightarrow> (cpio, nat) eff" where
  "io_copy rd =
    seqE (emit (fst rd)) (case snd rd of Some k \<Rightarrow> throw (IoErr k []) | None \<Rightarrow> ret (length (fst rd)))"

definition data_align_seek :: "ArchiveState \<Rightarrow> bytes \<Rightarrow> ArchiveMd \<Rightarrow> u32" where
  "data_align_seek state fname md =
    (let props = as_props state in
     if data_align props > 0 \<and> md_len md > data_align props then
       let len = archive_padlen
                   (initial_data_off props + as_off state + of_nat NEWC_HDR_LEN
                      + of_nat (length fname) + 1)
                   (ucast (data_align props));
           padded_namesize = len + of_nat (length fname) + 1
       in if padded_namesize > ucast (namesize_max props) then 0 else ucast len
     else 0)"

definition name_zeros :: "u32 \<Rightarrow> (cpio, unit) eff" where
  "name_zeros das =
     (if das > 0 then
        bindE (getE (\<lambda>c. as_off (c_state c) + (1 + ucast das))) (\<lambda>o1.
        if archive_padlen o1 4 \<noteq> 0
        then throw (Panic ''assertion failed: archive_padlen(state.off + seek_len, 4) == 0'')
        else seqE (emit (replicate (1 + unat das) NUL)) (add_off (1 + ucast das)))
      else emit_name_pad)"

definition archive_file :: "bytes \<Rightarrow> ArchiveMd \<Rightarrow> reader \<Rightarrow> (cpio, unit) eff" where
  "archive_file path md rd =
    bindE (lift_res (path_trim_prefixes path)) (\<lambda>fname.
    if md_mode md AND S_IFMT \<noteq> S_IFREG then throw (IoErr InvalidInput ''not a file'')
    else
      bindE (getE (\<lambda>c. data_align_seek (c_state c) fname md)) (\<lambda>das.
      bindE next_ino (\<lambda>ino.
      seqE (emit (newc_hdr_fmt
             (hdr_fields ino md (unat (md_len md)) (length fname + 1 + unat das)))) (
      seqE (add_off (of_nat NEWC_HDR_LEN)) (
      seqE (emit fname) (
      seqE (add_off (of_nat (length fname))) (
      seqE (name_zeros das) (
      if md_len md > 0 then
        bindE (io_copy rd) (\<lambda>copied.
        if copied \<noteq> unat (md_len md)
        then throw (IoErr UnexpectedEof ''copy returned unexpected length'')
        else seqE (add_off (ucast (md_len md))) emit_data_pad)
      else ret ()))))))))"

definition trailer_name :: bytes where
  "trailer_name = ''TRAILER!!!''"

definition archive_trailer :: "(cpio, u64) eff" where
  "archive_trailer =
    seqE (emit (newc_hdr_fmt [0, 0, 0, 0, 1, 0, 0, 0, 0, 0, 0, length trailer_name + 1, 0])) (
    seqE (add_off (of_nat NEWC_HDR_LEN)) (
    bindE (getE (\<lambda>c. archive_padlen (as_off (c_state c) + of_nat (length trailer_name + 1)) 4)) (\<lambda>padding_len.
    seqE (emit (trailer_name @ NUL # take (unat padding_len) [NUL, NUL, NUL])) (
    seqE (add_off (of_nat (length trailer_name + 1) + padding_len))
    (getE (\<lambda>c. as_off (c_state c)))))))"

section \<open>Walking an archive\<close>

record ArchiveEnt =
  ae_md :: ArchiveMd
  ae_namesize :: u32
  ae_name :: bytes \<comment> \<open>\<^verbatim>\<open>[u8; PATH_MAX + 1]\<close>\<close>

definition name_str :: "ArchiveEnt \<Rightarrow> bytes res" where
  "name_str ent =
    (let s = take (unat (ae_namesize ent) - 1) (ae_name ent)
     in if ae_namesize ent = 0 then Inl (Panic ''range end index out of range'')
        else if length (ae_name ent) < unat (ae_namesize ent) - 1 then Inl (Panic ''range end index out of range'')
        else if \<not> utf8_valid s then Inl (Panic ''called unwrap on an Err value: Utf8Error'')
        else case split_once (\<lambda>c. c = NUL) s of None \<Rightarrow> Inr s | Some (stripped, _) \<Rightarrow> Inr stripped)"

definition hdr_field :: "bytes \<Rightarrow> u32 res" where
  "hdr_field f =
    (if utf8_valid f then
       (case from_str_radix 32 16 f of
          Some u \<Rightarrow> Inr (of_nat u)
        | None \<Rightarrow> err_msg InvalidData ''invalid hdr field'')
     else err_msg InvalidData ''invalid hdr field'')"

text \<open>
  The iterator \<^verbatim>\<open>md_iter\<close> over the fields of a header is the list of the chunks still to come.
  \<^verbatim>\<open>next().unwrap()\<close> and \<^verbatim>\<open>nth(n).unwrap()\<close> panic when there is none.
\<close>

function chunks_exact :: "nat \<Rightarrow> bytes \<Rightarrow> bytes list" where
  "chunks_exact n xs =
    (if n = 0 \<or> length xs < n then [] else take n xs # chunks_exact n (drop n xs))"
  by pat_completeness auto
termination
  by (relation "measure (length \<circ> snd)") auto

declare chunks_exact.simps [simp del]

definition md_next :: "(bytes list, u32) eff" where
  "md_next it =
    (case it of
       [] \<Rightarrow> (Inl (Panic ''called unwrap on a None value''), [])
     | f # it' \<Rightarrow> (hdr_field f, it'))"

definition md_nth :: "nat \<Rightarrow> (bytes list, u32) eff" where
  "md_nth n it = md_next (drop n it)"

definition archive_read_newc_md :: "bytes \<Rightarrow> (ArchiveMd \<times> u32) res" where
  \<comment> \<open>\<open>hdr_md\<close> is the header after its magic: 13 fields of 8 digits; ino, major, minor
      and chksum are skipped\<close>
  "archive_read_newc_md hdr_md = fst (
    bindE (md_nth 1) (\<lambda>mode.
    bindE md_next (\<lambda>uid.
    bindE md_next (\<lambda>gid.
    bindE md_next (\<lambda>nlink.
    bindE md_next (\<lambda>mtime.
    bindE md_next (\<lambda>len.
    bindE (md_nth 2) (\<lambda>rmajor.
    bindE md_next (\<lambda>rminor.
    bindE md_next (\<lambda>namesize it.
    (if namesize = 0 \<or> unat namesize > PATH_MAX + 1
     then err_msg InvalidData ''invalid namesize''
     else Inr (\<lparr>md_nlink = nlink, md_mode = mode, md_uid = uid, md_gid = gid, md_mtime = mtime,
                md_rmajor = rmajor, md_rminor = rminor, md_len = len\<rparr>, namesize), it)))))))))) (chunks_exact 8 hdr_md))"

definition read_exact :: "nat \<Rightarrow> reader \<Rightarrow> bytes res \<times> reader" where
  \<comment> \<open>the bytes before the end or the fault are lost when there are too few of them\<close>
  "read_exact n rd =
    (if n \<le> length (fst rd) then (Inr (take n (fst rd)), (drop n (fst rd), snd rd))
     else (case snd rd of
             None \<Rightarrow> err_msg UnexpectedEof ''failed to fill whole buffer''
           | Some k \<Rightarrow> err k, ([], snd rd)))"

text \<open>
  \<^verbatim>\<open>ArchiveWalker::next\<close>. The reader's state is the input from its position on, up to its end
  or to the place where reading fails: reading takes bytes off it, and seeking forward drops
  them; a seek past the end leaves the reader at end of file, or at the fault. Whether a seek
  fails is for the reader to say: \<open>sk rd n\<close> is the error of seeking \<open>n\<close> bytes forward. The
  panics of the code (an \<^verbatim>\<open>unwrap\<close>, a slice beyond the name buffer or with its end below zero)
  are items that hold a \<open>Panic\<close>.
\<close>

type_synonym seeker = "reader \<Rightarrow> nat \<Rightarrow> error_kind option"

definition archive_next :: "seeker \<Rightarrow> reader \<Rightarrow> ArchiveEnt res option \<times> reader" where
  "archive_next sk rd =
    (case read_exact NEWC_HDR_LEN rd of
       (Inl e, rd1) \<Rightarrow> (if err_kind e = Some UnexpectedEof then None else Some (Inl e), rd1)
     | (Inr hdr_buf, rd1) \<Rightarrow>
       if take 6 hdr_buf = ''070701'' then
         (case archive_read_newc_md (drop 6 hdr_buf) of
            Inl e \<Rightarrow> (Some (Inl e), rd1)
          | Inr (md, namesize) \<Rightarrow>
            if PATH_MAX + 1 < unat namesize then (Some (Inl (Panic ''range end index out of range'')), rd1)
            else (case read_exact (unat namesize) rd1 of
               (Inl e, rd2) \<Rightarrow> (Some (Inl e), rd2)
             | (Inr fbuf, rd2) \<Rightarrow>
               let buf = fbuf @ replicate (PATH_MAX + 1 - unat namesize) NUL;
                   npad = archive_padlen (of_nat NEWC_HDR_LEN + ucast namesize) 4;
                   dlen = ucast (md_len md);
                   dpad = archive_padlen dlen 4;
                   seeklen = unat (npad + dlen + dpad)
               in if 2 ^ 63 \<le> seeklen
                  then (Some (Inl (Panic ''called unwrap on an Err value: TryFromIntError'')), rd2)
                  else (case sk rd2 seeklen of
                     Some k \<Rightarrow> (Some (err k), rd2)
                   | None \<Rightarrow>
                     let rd3 = (drop seeklen (fst rd2), snd rd2)
                     in if namesize = 0
                        then (Some (Inl (Panic ''range end index out of range'')), rd3)
                        else if take (unat namesize - 1) buf = trailer_name then (None, rd3)
                        else (Some (Inr \<lparr>ae_md = md, ae_namesize = namesize, ae_name = buf\<rparr>), rd3))))
       else (Some (err_msg InvalidInput ''invalid newc hdr''), rd1))"

lemma archive_next_length: "archive_next sk rd = (Some (Inr ent), rd') \<Longrightarrow> length (fst rd') < length (fst rd)"
  by (auto simp: archive_next_def read_exact_def NEWC_HDR_LEN_def Let_def
      split: if_splits option.splits sum.splits prod.splits)

text \<open>
  The items a loop \<^verbatim>\<open>while let Some(ent) = walker.next()\<close> sees that leaves at the first error,
  as those of \<^verbatim>\<open>lscpio\<close> and \<^verbatim>\<open>rapido-vm\<close> do; \<open>archive_walk\<close> is the loop over a regular file,
  which can be sought.
\<close>

function archive_walk_on :: "seeker \<Rightarrow> reader \<Rightarrow> ArchiveEnt res list" where
  "archive_walk_on sk rd =
    (case archive_next sk rd of
       (None, _) \<Rightarrow> []
     | (Some (Inl e), _) \<Rightarrow> [Inl e]
     | (Some (Inr ent), rd') \<Rightarrow> Inr ent # archive_walk_on sk rd')"
  by pat_completeness auto
termination
  by (relation "measure (length \<circ> fst \<circ> snd)") (auto dest!: sym [of "(_, _)"] archive_next_length)

declare archive_walk_on.simps [simp del]

definition archive_walk :: "reader \<Rightarrow> ArchiveEnt res list" where
  "archive_walk = archive_walk_on (\<lambda>_ _. None)"

end
