(* ===== verification/KvConf.thy ===== *)
theory KvConf
  imports Rust_Str
begin

text \<open>
  The crate \<^verbatim>\<open>src/kv-conf\<close>: the reader of \<^verbatim>\<open>rapido.conf\<close> and of manifest variables.
  A configuration is a map from keys to values; a \<^verbatim>\<open>HashMap\<close> is only looked up and
  inserted into, so its order does not matter here.
\<close>

type_synonym conf = "bytes \<rightharpoonup> bytes"

definition CONF_LINE_MAX :: nat where "CONF_LINE_MAX = 1024 * 100"

abbreviation cBS :: byte where "cBS \<equiv> CHR 0x5C"
abbreviation cDQ :: byte where "cDQ \<equiv> CHR 0x22"
abbreviation cSQ :: byte where "cSQ \<equiv> CHR 0x27"
abbreviation cSP :: byte where "cSP \<equiv> CHR 0x20"
abbreviation cTAB :: byte where "cTAB \<equiv> CHR 0x09"

text \<open>An error of the line parser is a message; a failed assertion or \<^verbatim>\<open>unwrap\<close> is a panic.\<close>

datatype kv_err = KvMsg string | KvPanic string

definition unwrap_str :: "bytes option \<Rightarrow> kv_err + bytes" where
  "unwrap_str z = (case z of Some s \<Rightarrow> Inr s | None \<Rightarrow> Inl (KvPanic ''called unwrap on a None value''))"

section \<open>Variable substitution\<close>

definition kv_var_sub :: "bytes \<Rightarrow> conf \<Rightarrow> kv_err + bytes" where
  "kv_var_sub block m =
    (case split_inclusive (\<lambda>c. c = CHR ''{'' \<or> c = CHR ''}'') block of
       [] \<Rightarrow> Inl (KvMsg ''variables must be wrapped in {} braces'')
     | b0 # rest \<Rightarrow>
       if b0 \<noteq> ''{'' then Inl (KvMsg ''variables must be wrapped in {} braces'')
       else (case rest of
           [] \<Rightarrow> Inl (KvMsg ''no closing brace for variable'')
         | var # after \<Rightarrow>
           if \<not> ends_with ''}'' var then Inl (KvMsg ''no closing brace for variable'')
           else (case unwrap_str (strip_suffix ''}'' var) of
               Inl e \<Rightarrow> Inl e
             | Inr key \<Rightarrow>
               (case m key of
                  None \<Rightarrow> Inl (KvMsg ''invalid variable substitution: not seen'')
                | Some subbed \<Rightarrow> Inr (subbed @ (case after of [] \<Rightarrow> [] | b # _ \<Rightarrow> b))))))"

section \<open>One line\<close>

datatype Quoted = QNo | QSingle | QDouble

record kv_scan =
  inquote :: Quoted
  escape_next :: bool
  comment_next :: bool
  var_next :: bool
  unquoted_val :: bytes

definition kv_scan_init :: kv_scan where
  "kv_scan_init = \<lparr>inquote = QNo, escape_next = False, comment_next = False, var_next = False, unquoted_val = []\<rparr>"

definition is_special :: "byte \<Rightarrow> bool" where
  "is_special c \<longleftrightarrow> c = cBS \<or> c = cDQ \<or> c = cSQ \<or> c = cSP \<or> c = cTAB \<or> c = CHR ''$''"

definition is_key_bad :: "byte \<Rightarrow> bool" where
  "is_key_bad c \<longleftrightarrow> c = cBS \<or> c = CHR ''/'' \<or> c = cDQ \<or> c = cSQ \<or> c = cSP \<or> c = cTAB
    \<or> c = CHR ''$'' \<or> c = CHR ''#'' \<or> c = CHR ''.'' \<or> c = CHR 0x60"

definition push_stripped :: "bytes \<Rightarrow> bytes \<Rightarrow> kv_scan \<Rightarrow> kv_err + kv_scan" where
  \<comment> \<open>\<^verbatim>\<open>unquoted_val.push_str(quoteblock.strip_suffix(sfx).unwrap())\<close>\<close>
  "push_stripped sfx block st =
    (case unwrap_str (strip_suffix sfx block) of
       Inl e \<Rightarrow> Inl e
     | Inr s \<Rightarrow> Inr (st\<lparr>unquoted_val := unquoted_val st @ s\<rparr>))"

definition kv_block_tail :: "bytes \<Rightarrow> kv_scan \<Rightarrow> kv_err + kv_scan" where
  \<comment> \<open>the end of a block decides: escape, quotes, space, variable or newline\<close>
  "kv_block_tail block st =
    (if ends_with [cBS] block \<and> inquote st \<noteq> QSingle then
       push_stripped [cBS] block (st\<lparr>escape_next := True\<rparr>)
     else if ends_with [cDQ] block then
       (case inquote st of
          QNo \<Rightarrow> push_stripped [cDQ] block (st\<lparr>inquote := QDouble\<rparr>)
        | QDouble \<Rightarrow> push_stripped [cDQ] block (st\<lparr>inquote := QNo\<rparr>)
        | QSingle \<Rightarrow> push_stripped [] block st)
     else if ends_with [cSQ] block then
       (case inquote st of
          QNo \<Rightarrow> push_stripped [cSQ] block (st\<lparr>inquote := QSingle\<rparr>)
        | QSingle \<Rightarrow> push_stripped [cSQ] block (st\<lparr>inquote := QNo\<rparr>)
        | QDouble \<Rightarrow> push_stripped [] block st)
     else if (ends_with [cSP] block \<or> ends_with [cTAB] block) \<and> inquote st = QNo then
       push_stripped (if ends_with [cSP] block then [cSP] else [cTAB]) block (st\<lparr>comment_next := True\<rparr>)
     else if ends_with ''$'' block \<and> inquote st \<noteq> QSingle then
       push_stripped ''$'' block (st\<lparr>var_next := True\<rparr>)
     else if ends_with [newline] block then push_stripped [newline] block st
     else Inr (st\<lparr>unquoted_val := unquoted_val st @ block\<rparr>))"

text \<open>One iteration of the block loop; the flag says that the loop is left by \<^verbatim>\<open>break\<close>.\<close>

definition kv_block :: "conf \<Rightarrow> bytes \<Rightarrow> kv_scan \<Rightarrow> kv_err + kv_scan \<times> bool" where
  "kv_block varmap block st =
    (if escape_next st then
       (if (\<exists>c\<in>set (take 1 block). is_special c) then
          (let st1 = st\<lparr>escape_next := False, unquoted_val := unquoted_val st @ block\<rparr>
           in if length block \<noteq> 1 then Inl (KvMsg ''expected escaped char at split boundary'')
              else Inr (st1, False))
        else if starts_with [newline] block \<and> inquote st \<noteq> QNo then Inr (st, True)
        else Inl (KvMsg ''bad escape''))
     else if comment_next st then
       (if inquote st \<noteq> QNo then Inl (KvPanic ''assertion failed: inquote == Quoted::No'')
        else if starts_with ''#'' block then Inr (st, True)
        else if trim_start block = [] then Inr (st, False)
        else Inl (KvMsg ''unexpected whitespace''))
     else
       (case (if var_next st then kv_var_sub block varmap else Inr block) of
          Inl e \<Rightarrow> Inl e
        | Inr block1 \<Rightarrow>
          (case kv_block_tail block1 (st\<lparr>var_next := False\<rparr>) of
             Inl e \<Rightarrow> Inl e
           | Inr st1 \<Rightarrow> Inr (st1, False))))"

fun kv_blocks :: "conf \<Rightarrow> bytes list \<Rightarrow> kv_scan \<Rightarrow> kv_err + kv_scan" where
  "kv_blocks varmap [] st = Inr st"
| "kv_blocks varmap (b # bs) st =
    (case kv_block varmap b st of
       Inl e \<Rightarrow> Inl e
     | Inr (st1, brk) \<Rightarrow> if brk then Inr st1 else kv_blocks varmap bs st1)"

definition kv_multiline :: "Quoted \<Rightarrow> bytes \<Rightarrow> kv_err + bytes" where
  \<comment> \<open>the buffer to keep when the line ends inside quotes\<close>
  "kv_multiline q trimmed_line =
    (let ml = trim_end trimmed_line in
     if ends_with [cBS] ml \<and> q = QDouble then
       (case unwrap_str (strip_suffix [cBS] ml) of
          Inl e \<Rightarrow> Inl e
        | Inr ml1 \<Rightarrow>
          (let ml2 = trim_end ml1
           in Inr (ml2 @ (if length ml1 = length ml2 then [] else [cSP]))))
     else Inr (ml @ [cSP]))"

text \<open>The result and the line buffer that is left.\<close>

definition kv_process :: "bytes \<Rightarrow> conf \<Rightarrow> (kv_err + (bytes \<times> bytes) option) \<times> bytes" where
  "kv_process line varmap =
    (let trimmed_line = trim_start line in
     if trimmed_line = [] \<or> starts_with ''#'' trimmed_line then (Inr None, [])
     else case split_once (\<lambda>c. c = CHR ''='') trimmed_line of
       None \<Rightarrow> (Inl (KvMsg ''missing =''), line)
     | Some (key, val) \<Rightarrow>
       if key = [] then (Inl (KvMsg ''empty key''), line)
       else if list_ex is_key_bad key then (Inl (KvMsg ''invalid key''), line)
       else (case kv_blocks varmap (split_inclusive is_special val) kv_scan_init of
           Inl e \<Rightarrow> (Inl e, line)
         | Inr st \<Rightarrow>
           if inquote st \<noteq> QNo then
             (case kv_multiline (inquote st) trimmed_line of
                Inl e \<Rightarrow> (Inl e, line)
              | Inr line1 \<Rightarrow> (Inr None, line1))
           else (Inr (Some (key, unquoted_val st)), [])))"

section \<open>The whole file\<close>

definition line_msg :: "nat \<Rightarrow> string \<Rightarrow> string" where
  "line_msg linenum m = ''line '' @ fmt_dec linenum @ '': '' @ m"

text \<open>
  \<^verbatim>\<open>read_line\<close> appends to the buffer; a line that is not UTF-8 is an error and leaves it.
  The result is the number of bytes read, the input after them and the buffer.
\<close>

definition kv_read_line :: "reader \<Rightarrow> nat \<Rightarrow> bytes \<Rightarrow> nat res \<times> reader \<times> bytes" where
  "kv_read_line rdr linenum buf =
    (case read_line rdr of
       (Inl e, rdr1) \<Rightarrow> (Inl e, rdr1, buf)
     | (Inr l, rdr1) \<Rightarrow>
       (let n = length l; buf1 = buf @ l in
        if n = 0 \<and> length buf1 \<noteq> 0 then (err_msg InvalidInput (line_msg linenum ''unexpected EOF''), rdr1, buf1)
        else if n > CONF_LINE_MAX then (err_msg InvalidInput (line_msg linenum ''too long''), rdr1, buf1)
        else (Inr n, rdr1, buf1)))"

lemma kv_read_line_shrinks:
  "kv_read_line rdr linenum buf = (Inr n, rdr1, buf1) \<Longrightarrow> n \<noteq> 0 \<Longrightarrow> length (fst rdr1) < length (fst rdr)"
  by (auto simp: kv_read_line_def Let_def neq_Nil_conv split: prod.splits sum.splits if_splits dest!: read_line_length)

fun line_fault :: "nat \<Rightarrow> kv_err \<Rightarrow> fault" where
  "line_fault linenum (KvMsg m) = IoErr InvalidInput (line_msg linenum m)"
| "line_fault linenum (KvPanic m) = Panic m"

function kv_append_loop :: "nat \<Rightarrow> reader \<Rightarrow> bytes \<Rightarrow> conf \<Rightarrow> unit res \<times> conf" where
  "kv_append_loop linenum rdr buffer m =
    (case kv_read_line rdr linenum buffer of
       (Inl e, _, _) \<Rightarrow> (Inl e, m)
     | (Inr n, rdr1, buf1) \<Rightarrow>
       if n = 0 then (Inr (), m)
       else (case kv_process buf1 m of
           (Inl e, _) \<Rightarrow> (Inl (line_fault linenum e), m)
         | (Inr kv, buf2) \<Rightarrow>
           kv_append_loop (linenum + 1) rdr1 buf2 (case kv of Some (k, v) \<Rightarrow> m(k \<mapsto> v) | None \<Rightarrow> m)))"
  by pat_completeness auto
termination
  by (relation "measure (\<lambda>(_, rdr, _, _). length (fst rdr))")
    (auto dest: kv_read_line_shrinks [OF sym])

function kv_append_separate_loop :: "nat \<Rightarrow> reader \<Rightarrow> bytes \<Rightarrow> conf \<Rightarrow> conf \<Rightarrow> unit res \<times> conf" where
  "kv_append_separate_loop linenum rdr buffer varmap m =
    (case kv_read_line rdr linenum buffer of
       (Inl e, _, _) \<Rightarrow> (Inl e, m)
     | (Inr n, rdr1, buf1) \<Rightarrow>
       if n = 0 then (Inr (), m)
       else (case kv_process buf1 varmap of
           (Inl e, _) \<Rightarrow> (Inl (line_fault linenum e), m)
         | (Inr kv, buf2) \<Rightarrow>
           kv_append_separate_loop (linenum + 1) rdr1 buf2 varmap
             (case kv of Some (k, v) \<Rightarrow> m(k \<mapsto> v) | None \<Rightarrow> m)))"
  by pat_completeness auto
termination
  by (relation "measure (\<lambda>(_, rdr, _, _, _). length (fst rdr))")
    (auto dest: kv_read_line_shrinks [OF sym])

declare kv_append_loop.simps [simp del] kv_append_separate_loop.simps [simp del]

definition kv_conf_process_append :: "reader \<Rightarrow> conf \<Rightarrow> unit res \<times> conf" where
  "kv_conf_process_append rdr m = kv_append_loop 1 rdr [] m"

definition kv_conf_process_append_separate :: "reader \<Rightarrow> conf \<Rightarrow> conf \<Rightarrow> unit res \<times> conf" where
  "kv_conf_process_append_separate rdr varmap m = kv_append_separate_loop 1 rdr [] varmap m"

definition kv_conf_process :: "reader \<Rightarrow> conf res" where
  "kv_conf_process rdr =
    (case kv_conf_process_append rdr Map.empty of (Inl e, _) \<Rightarrow> Inl e | (Inr _, m) \<Rightarrow> Inr m)"

section \<open>The line parser never panics\<close>

lemma ends_with_snoc [simp]: "ends_with [x] (s @ [c]) \<longleftrightarrow> x = c"
  by (auto simp: ends_with_def)

lemma ends_with_Nil [simp]: "ends_with [] s"
  by (simp add: ends_with_def)

lemma push_stripped_ok:
  "ends_with sfx b \<Longrightarrow>
    push_stripped sfx b st = Inr (st\<lparr>unquoted_val := unquoted_val st @ take (length b - length sfx) b\<rparr>)"
  by (simp add: push_stripped_def strip_suffix_def unwrap_str_def)

text \<open>
  A pending comment was started by an unquoted space, and nothing opens a quote after
  it: the assertion of the block loop holds.
\<close>

definition scan_inv :: "kv_scan \<Rightarrow> bool" where
  "scan_inv st \<longleftrightarrow> (comment_next st \<longrightarrow> inquote st = QNo)"

lemma kv_block_tail_inv:
  assumes "\<not> comment_next st"
  shows "\<exists>st1. kv_block_tail b st = Inr st1 \<and> scan_inv st1"
  using assms by (auto simp: kv_block_tail_def push_stripped_ok scan_inv_def split: Quoted.splits)

lemma kv_var_sub_no_panic: "kv_var_sub b m \<noteq> Inl (KvPanic e)"
  by (auto simp: kv_var_sub_def strip_suffix_def unwrap_str_def split: list.splits option.splits sum.splits)

lemma kv_block_inv:
  assumes "scan_inv st"
  shows "case kv_block varmap b st of Inl e \<Rightarrow> (\<forall>m. e \<noteq> KvPanic m) | Inr (st1, brk) \<Rightarrow> scan_inv st1"
proof (cases "escape_next st \<or> comment_next st")
  case True
  with assms show ?thesis by (auto simp: kv_block_def scan_inv_def Let_def)
next
  case False
  show ?thesis
  proof (cases "if var_next st then kv_var_sub b varmap else Inr b")
    case (Inl e)
    with False show ?thesis
      using kv_var_sub_no_panic [of b varmap] by (auto simp: kv_block_def split: if_splits)
  next
    case (Inr b1)
    with False kv_block_tail_inv [of "st\<lparr>var_next := False\<rparr>" b1] show ?thesis
      by (auto simp: kv_block_def)
  qed
qed

lemma kv_blocks_inv:
  assumes "scan_inv st"
  shows "kv_blocks varmap bs st \<noteq> Inl (KvPanic m)"
  using assms
proof (induction bs arbitrary: st)
  case (Cons b bs)
  then show ?case
    using kv_block_inv [OF Cons.prems, of varmap b] by (auto split: sum.splits)
qed simp

lemma kv_multiline_ok: "\<exists>l. kv_multiline q s = Inr l"
  by (simp add: kv_multiline_def Let_def strip_suffix_def unwrap_str_def)

lemma kv_process_no_panic: "fst (kv_process line varmap) \<noteq> Inl (KvPanic m)"
proof -
  have "scan_inv kv_scan_init" by (simp add: scan_inv_def kv_scan_init_def)
  from kv_blocks_inv [OF this] kv_multiline_ok show ?thesis
    by (simp add: kv_process_def Let_def split: option.splits sum.splits) (metis sum.distinct(1))
qed

section \<open>The line loop\<close>

text \<open>
  Both loops read a line, hand the buffer to the line parser with the variables of the
  moment and store the pair it returns. They differ in where variables are looked up.
\<close>

definition key_valid :: "bytes \<Rightarrow> bool" where
  "key_valid k \<longleftrightarrow> k \<noteq> [] \<and> \<not> list_ex is_key_bad k \<and> CHR ''='' \<notin> set k"

lemma split_once_key: "split_once (\<lambda>c. c = x) s = Some (k, v) \<Longrightarrow> x \<notin> set k"
  by (auto simp: split_once_def split: list.splits dest: set_takeWhileD)

lemma kv_process_key: "kv_process line varmap = (Inr (Some (k, v)), buf) \<Longrightarrow> key_valid k \<and> buf = []"
  by (auto simp: kv_process_def key_valid_def Let_def split: option.splits sum.splits if_splits dest: split_once_key)

locale conf_loop =
  fixes loop :: "nat \<Rightarrow> reader \<Rightarrow> bytes \<Rightarrow> conf \<Rightarrow> unit res \<times> conf" and vars :: "conf \<Rightarrow> conf"
  assumes loop_step: "loop linenum rdr buffer m =
    (case kv_read_line rdr linenum buffer of
       (Inl e, _, _) \<Rightarrow> (Inl e, m)
     | (Inr n, rdr1, buf1) \<Rightarrow>
       if n = 0 then (Inr (), m)
       else (case kv_process buf1 (vars m) of
           (Inl e, _) \<Rightarrow> (Inl (line_fault linenum e), m)
         | (Inr kv, buf2) \<Rightarrow>
           loop (linenum + 1) rdr1 buf2 (case kv of Some (k, v) \<Rightarrow> m(k \<mapsto> v) | None \<Rightarrow> m)))"
begin

lemma loop_induct [case_names step]:
  assumes "\<And>rdr linenum buf m. (\<And>rdr1 linenum1 buf1 m1. length (fst rdr1) < length (fst rdr) \<Longrightarrow> P linenum1 rdr1 buf1 m1)
    \<Longrightarrow> P linenum rdr buf m"
  shows "P linenum rdr buf m"
  using assms by (induction "length (fst rdr)" arbitrary: rdr linenum buf m rule: less_induct) blast

lemma loop_cases:
  obtains (unread) e where "fst (kv_read_line rdr linenum buf) = Inl e" and "loop linenum rdr buf m = (Inl e, m)"
  | (finished) "loop linenum rdr buf m = (Inr (), m)"
  | (malformed) e buf1 where "fst (kv_process buf1 (vars m)) = Inl e"
      and "loop linenum rdr buf m = (Inl (line_fault linenum e), m)"
  | (skipped) rdr1 buf2 where "length (fst rdr1) < length (fst rdr)"
      and "loop linenum rdr buf m = loop (linenum + 1) rdr1 buf2 m"
  | (stored) rdr1 k v where "length (fst rdr1) < length (fst rdr)" and "key_valid k"
      and "loop linenum rdr buf m = loop (linenum + 1) rdr1 [] (m(k \<mapsto> v))"
proof (cases "kv_read_line rdr linenum buf")
  case (fields r rdr1 buf1)
  show ?thesis
  proof (cases r)
    case (Inl e)
    with fields show ?thesis by (intro unread) (simp_all add: loop_step [of linenum])
  next
    case (Inr n)
    show ?thesis
    proof (cases "n = 0")
      case True
      with fields Inr show ?thesis by (intro finished) (simp add: loop_step [of linenum])
    next
      case False
      with fields Inr have less: "length (fst rdr1) < length (fst rdr)" by (simp add: kv_read_line_shrinks)
      obtain p buf2 where p: "kv_process buf1 (vars m) = (p, buf2)" by fastforce
      show ?thesis
      proof (cases p)
        case (Inl e)
        with fields Inr False p show ?thesis
          by (intro malformed [of buf1 e]) (simp_all add: loop_step [of linenum])
      next
        case kv: (Inr kv)
        show ?thesis
        proof (cases kv)
          case None
          with fields Inr False p kv less show ?thesis
            by (intro skipped [of rdr1 buf2]) (simp_all add: loop_step [of linenum])
        next
          case (Some z)
          obtain k v where "z = (k, v)" by fastforce
          with fields Inr False p kv Some less kv_process_key [of buf1 "vars m" k v buf2] show ?thesis
            by (intro stored [of rdr1 k v]) (simp_all add: loop_step [of linenum])
        qed
      qed
    qed
  qed
qed

lemma read_no_panic: "fst (kv_read_line rdr linenum buf) \<noteq> Inl (Panic e)"
  using read_line_no_panic [of rdr e] by (auto simp: kv_read_line_def Let_def split: prod.splits sum.splits)

lemma no_panic: "fst (loop linenum rdr buf m) \<noteq> Inl (Panic e)"
proof (induction linenum rdr buf m rule: loop_induct)
  case (step rdr linenum buf m)
  show ?case
  proof (cases rule: loop_cases [of rdr linenum buf m])
    case (malformed f buf1)
    with kv_process_no_panic [of buf1 "vars m"] show ?thesis by (cases f) auto
  next
    case (unread f)
    with read_no_panic [of rdr linenum buf e] show ?thesis by simp
  qed (use step.IH in auto)
qed

lemma keys_valid:
  assumes "\<forall>k\<in>dom m. key_valid k" and "loop linenum rdr buf m = (r, m')"
  shows "\<forall>k\<in>dom m'. key_valid k"
  using assms
proof (induction linenum rdr buf m rule: loop_induct)
  case (step rdr linenum buf m)
  show ?case
  proof (cases rule: loop_cases [of rdr linenum buf m])
    case (stored rdr1 k v)
    then have "\<forall>k'\<in>dom (m(k \<mapsto> v)). key_valid k'" using step.prems(1) by simp
    with stored step show ?thesis by metis
  next
    case (skipped rdr1 buf2)
    with step show ?thesis by metis
  qed (use step.prems in auto)
qed

text \<open>Entries already stored are only ever replaced, never removed.\<close>

lemma dom_grows:
  assumes "loop linenum rdr buf m = (r, m')"
  shows "dom m \<subseteq> dom m'"
  using assms
proof (induction linenum rdr buf m rule: loop_induct)
  case (step rdr linenum buf m)
  show ?case
  proof (cases rule: loop_cases [of rdr linenum buf m])
    case (stored rdr1 k v)
    with step have "dom (m(k \<mapsto> v)) \<subseteq> dom m'" by metis
    then show ?thesis by auto
  next
    case (skipped rdr1 buf2)
    with step show ?thesis by metis
  qed (use step.prems in auto)
qed

end

interpretation append_loop: conf_loop kv_append_loop "\<lambda>m. m"
  by unfold_locales (subst kv_append_loop.simps, rule refl)

interpretation separate_loop: conf_loop "\<lambda>linenum rdr buffer. kv_append_separate_loop linenum rdr buffer varmap" "\<lambda>_. varmap"
  for varmap
  by unfold_locales (subst kv_append_separate_loop.simps, rule refl)

section \<open>Printing and reading a configuration\<close>

definition kv_quote :: "bytes \<times> bytes \<Rightarrow> bytes" where
  "kv_quote kv = fst kv @ CHR ''='' # cSQ # snd kv @ [cSQ, newline]"

text \<open>Keys of printable ASCII characters, and values that fit between single quotes.\<close>

definition key_plain :: "bytes \<Rightarrow> bool" where
  "key_plain k \<longleftrightarrow> key_valid k \<and> (\<forall>c\<in>set k. byte_in 33 126 c)"

definition value_plain :: "bytes \<Rightarrow> bool" where
  "value_plain v \<longleftrightarrow> cSQ \<notin> set v \<and> newline \<notin> set v \<and> utf8_valid v"

lemma split_inclusive_prefix:
  "\<forall>c\<in>set p. \<not> P c \<Longrightarrow> P c \<Longrightarrow> split_inclusive P (p @ c # s) = (p @ [c]) # split_inclusive P s"
  by (induction p) auto

lemma split_inclusive_last: "\<forall>c\<in>set p. \<not> P c \<Longrightarrow> p \<noteq> [] \<Longrightarrow> split_inclusive P p = [p]"
proof (induction p)
  case (Cons c p)
  then show ?case by (cases p) auto
qed simp

lemma special_simps [simp]:
  "is_special cBS" "is_special cDQ" "is_special cSQ" "is_special cSP" "is_special cTAB" "is_special CHR ''$''"
  "\<not> is_special newline" "newline \<noteq> cBS" "newline \<noteq> cDQ" "newline \<noteq> cSQ" "newline \<noteq> cSP" "newline \<noteq> cTAB" "newline \<noteq> CHR ''$''"
  by (simp_all add: is_special_def newline_def)

lemma push_stripped_snoc:
  "push_stripped [c] (p @ [c]) st = Inr (st\<lparr>unquoted_val := unquoted_val st @ p\<rparr>)"
  by (simp add: push_stripped_ok)

text \<open>Inside single quotes every special character but the quote is kept.\<close>

lemma kv_block_single:
  assumes "inquote st = QSingle" and "\<not> escape_next st" "\<not> comment_next st" "\<not> var_next st"
    and "is_special c" "c \<noteq> cSQ"
  shows "kv_block varmap (p @ [c]) st = Inr (st\<lparr>unquoted_val := unquoted_val st @ p @ [c]\<rparr>, False)"
  using assms by (auto simp: kv_block_def kv_block_tail_def is_special_def push_stripped_ok newline_def)

lemma kv_blocks_single:
  assumes "inquote st = QSingle" and "\<not> escape_next st" "\<not> comment_next st" "\<not> var_next st"
    and "cSQ \<notin> set v" and "\<forall>c\<in>set p. \<not> is_special c"
  shows "kv_blocks varmap (split_inclusive is_special (p @ v @ [cSQ, newline])) st
    = Inr (st\<lparr>inquote := QNo, unquoted_val := unquoted_val st @ p @ v\<rparr>)"
  using assms
proof (induction v arbitrary: p st)
  case Nil
  have "split_inclusive is_special (p @ [cSQ, newline]) = [p @ [cSQ], [newline]]"
    using Nil by (simp add: split_inclusive_prefix)
  with Nil show ?case
    using push_stripped_snoc [of newline "[]"]
    by (simp add: kv_block_def kv_block_tail_def push_stripped_snoc) (simp add: ends_with_def)
next
  case (Cons c v)
  show ?case
  proof (cases "is_special c")
    case True
    with Cons.prems have "split_inclusive is_special (p @ (c # v) @ [cSQ, newline])
        = (p @ [c]) # split_inclusive is_special ([] @ v @ [cSQ, newline])"
      by (simp add: split_inclusive_prefix)
    moreover have "kv_block varmap (p @ [c]) st = Inr (st\<lparr>unquoted_val := unquoted_val st @ p @ [c]\<rparr>, False)"
      using Cons.prems True by (intro kv_block_single) auto
    ultimately show ?thesis
      using Cons.prems Cons.IH [of "st\<lparr>unquoted_val := unquoted_val st @ p @ [c]\<rparr>" "[]"] by simp
  next
    case False
    with Cons.prems Cons.IH [of st "p @ [c]"] show ?thesis by simp
  qed
qed

lemma trim_start_ascii: "byte_in 33 126 c \<Longrightarrow> trim_start (c # s) = c # s"
  by (subst trim_start.simps)
    (auto simp: ascii_ws_def byte_in_def ws2_def ws3_def split: list.splits)

lemma kv_process_quoted:
  assumes "key_plain k" and "cSQ \<notin> set v"
  shows "kv_process (kv_quote (k, v)) varmap = (Inr (Some (k, v)), [])"
proof -
  obtain c r where k: "k = c # r" using assms(1) by (cases k) (auto simp: key_plain_def key_valid_def)
  have t: "trim_start (kv_quote (k, v)) = kv_quote (k, v)"
    using assms(1) by (simp add: kv_quote_def k trim_start_ascii key_plain_def)
  have "c \<noteq> CHR ''#''"
    using assms(1) by (auto simp: k key_plain_def key_valid_def is_key_bad_def)
  then have c: "\<not> starts_with ''#'' (kv_quote (k, v))" by (simp add: starts_with_def kv_quote_def k)
  have sp: "split_once (\<lambda>c. c = CHR ''='') (kv_quote (k, v)) = Some (k, cSQ # v @ [cSQ, newline])"
    using assms(1) by (auto simp: kv_quote_def key_plain_def key_valid_def intro!: split_once_first)
  have "kv_block varmap [cSQ] kv_scan_init = Inr (kv_scan_init\<lparr>inquote := QSingle\<rparr>, False)"
    using push_stripped_snoc [of cSQ "[]"] 
    by (simp add: kv_block_def kv_block_tail_def kv_scan_init_def) (simp add: ends_with_def)
  then have "kv_blocks varmap (split_inclusive is_special (cSQ # v @ [cSQ, newline])) kv_scan_init
      = Inr (kv_scan_init\<lparr>unquoted_val := v\<rparr>)"
    using kv_blocks_single [of "kv_scan_init\<lparr>inquote := QSingle\<rparr>" v "[]"] assms(2)
    by (simp add: kv_scan_init_def)
  with t c sp assms(1) show ?thesis
    by (simp add: kv_process_def Let_def key_plain_def key_valid_def kv_scan_init_def) (simp add: kv_quote_def)
qed

lemma kv_quote_utf8:
  assumes "key_plain k" and "value_plain v"
  shows "utf8_valid (kv_quote (k, v))"
proof -
  have "utf8_valid k"
    using assms(1) by (intro utf8_valid_ascii) (auto simp: key_plain_def byte_in_def)
  moreover have "utf8_valid [CHR ''='', cSQ]" and "utf8_valid [cSQ, newline]"
    by (rule utf8_valid_ascii, simp add: byte_in_def byte_val_def newline_def)+
  moreover have "utf8_valid v" using assms(2) by (simp add: value_plain_def)
  moreover have "kv_quote (k, v) = k @ [CHR ''='', cSQ] @ v @ [cSQ, newline]" by (simp add: kv_quote_def)
  ultimately show ?thesis by (simp only: utf8_valid_append)
qed

lemma kv_read_line_quoted:
  assumes "key_plain k" and "value_plain v" and "length (kv_quote (k, v)) \<le> CONF_LINE_MAX"
  shows "kv_read_line (kv_quote (k, v) @ rest, f) n [] = (Inr (length (kv_quote (k, v))), (rest, f), kv_quote (k, v))"
proof -
  let ?l = "k @ CHR ''='' # cSQ # v @ [cSQ]"
  have q: "kv_quote (k, v) = ?l @ [newline]" by (simp add: kv_quote_def)
  have "newline \<notin> set k"
    using assms(1) by (auto simp: key_plain_def byte_in_def byte_val_def newline_def)
  then have "newline \<notin> set ?l"
    using assms(2) by (auto simp: value_plain_def newline_def)
  then have "read_until newline (kv_quote (k, v) @ rest) = (kv_quote (k, v), rest)"
    unfolding q using read_until_line [of newline ?l rest] by simp
  then show ?thesis
    using kv_quote_utf8 [OF assms(1,2)] assms(3)
    by (simp add: kv_read_line_def read_line_def utf8_line_def Let_def line_error_def) (simp add: kv_quote_def)
qed

definition kv_plain :: "bytes \<times> bytes \<Rightarrow> bool" where
  "kv_plain kv \<longleftrightarrow> key_plain (fst kv) \<and> value_plain (snd kv) \<and> length (kv_quote kv) \<le> CONF_LINE_MAX"

context conf_loop
begin

lemma reads_quoted:
  assumes "\<forall>kv\<in>set kvs. kv_plain kv"
  shows "loop linenum (concat (map kv_quote kvs), None) [] m = (Inr (), m ++ map_of (rev kvs))"
  using assms
proof (induction kvs arbitrary: linenum m)
  case Nil
  then show ?case by (simp add: loop_step [of linenum] kv_read_line_def read_line_def utf8_line_def line_error_def)
next
  case (Cons kv kvs)
  obtain k v where kv: "kv = (k, v)" by fastforce
  with Cons.prems have p: "key_plain k" "value_plain v" "length (kv_quote (k, v)) \<le> CONF_LINE_MAX"
    by (simp_all add: kv_plain_def)
  have "kv_process (kv_quote (k, v)) (vars m) = (Inr (Some (k, v)), [])"
    using p by (intro kv_process_quoted) (simp_all add: value_plain_def)
  moreover have "length (kv_quote (k, v)) \<noteq> 0" by (simp add: kv_quote_def)
  ultimately have "loop linenum (concat (map kv_quote (kv # kvs)), None) [] m
      = loop (linenum + 1) (concat (map kv_quote kvs), None) [] (m(k \<mapsto> v))"
    using kv_read_line_quoted [OF p] by (simp add: loop_step [of linenum] kv)
  then show ?case using Cons by (simp only: kv) simp
qed

end

text \<open>
  C9. Round trip of the configuration reader: a file that lists keys and single-quoted
  values, one per line, is read as the map in which a later line overrides an earlier one;
  every other character of the values (blanks, dollars, backslashes, double quotes, hashes)
  is kept as it is.
\<close>

theorem kv_conf_roundtrip:
  assumes "\<forall>kv\<in>set kvs. kv_plain kv"
  shows "kv_conf_process (concat (map kv_quote kvs), None) = Inr (map_of (rev kvs))"
  by (simp add: kv_conf_process_def kv_conf_process_append_def append_loop.reads_quoted [OF assms])

theorem kv_conf_roundtrip_witness:
  "kv_conf_process (concat (map kv_quote [(''A'', ''x $y #z''), (''B'', ''1''), (''A'', [cBS, cDQ])]), None)
    = Inr [''A'' \<mapsto> [cBS, cDQ], ''B'' \<mapsto> ''1'']"
proof -
  have "kv_conf_process (concat (map kv_quote [(''A'', ''x $y #z''), (''B'', ''1''), (''A'', [cBS, cDQ])]), None)
    = Inr (map_of (rev [(''A'', ''x $y #z''), (''B'', ''1''), (''A'', [cBS, cDQ])]))"
    by (rule kv_conf_roundtrip) (simp add: kv_plain_def key_plain_def value_plain_def key_valid_def is_key_bad_def
        byte_in_def byte_val_def newline_def kv_quote_def CONF_LINE_MAX_def)
  then show ?thesis by (simp add: fun_eq_iff)
qed

section \<open>Variables\<close>

definition kv_ref :: "bytes \<Rightarrow> bytes \<Rightarrow> bytes" where
  \<comment> \<open>the line \<open>k="${var}"\<close>\<close>
  "kv_ref k var = k @ CHR ''='' # cDQ # ''${'' @ var @ CHR ''}'' # [cDQ, newline]"

lemma kv_var_sub_braced:
  assumes "CHR ''{'' \<notin> set var" and "CHR ''}'' \<notin> set var" and "m var = Some val"
    and "\<forall>c\<in>set after. c \<noteq> CHR ''{'' \<and> c \<noteq> CHR ''}''"
  shows "kv_var_sub (CHR ''{'' # var @ CHR ''}'' # after) m = Inr (val @ after)"
proof -
  let ?P = "\<lambda>c. c = CHR ''{'' \<or> c = CHR ''}''"
  have "split_inclusive ?P (CHR ''{'' # var @ CHR ''}'' # after)
      = ''{'' # (var @ ''}'') # split_inclusive ?P after"
    using assms(1,2) split_inclusive_prefix [of var ?P "CHR ''}''" after] by auto
  moreover have "split_inclusive ?P after = (if after = [] then [] else [after])"
    using assms(4) by (auto intro!: split_inclusive_last)
  ultimately show ?thesis
    using assms(3) by (simp add: kv_var_sub_def strip_suffix_def unwrap_str_def)
qed

lemma ends_with_single [simp]: "ends_with [x] [c] \<longleftrightarrow> x = c"
  using ends_with_snoc [of x "[]" c] by simp

lemma push_stripped_single [simp]: "push_stripped [c] [c] st = Inr st"
  using push_stripped_snoc [of c "[]" st] by simp

text \<open>Quotes and variables in the quoting states they occur in.\<close>

definition quoting :: "Quoted \<Rightarrow> bool \<Rightarrow> bytes \<Rightarrow> kv_scan" where
  "quoting q var val = \<lparr>inquote = q, escape_next = False, comment_next = False, var_next = var, unquoted_val = val\<rparr>"

lemma kv_block_quoting:
  "kv_block varmap [cDQ] (quoting QNo False val) = Inr (quoting QDouble False val, False)"
  "kv_block varmap ''$'' (quoting QDouble False val) = Inr (quoting QDouble True val, False)"
  "kv_block varmap [newline] (quoting QNo False val) = Inr (quoting QNo False val, False)"
  "kv_var_sub b varmap = Inr (s @ [cDQ]) \<Longrightarrow>
    kv_block varmap b (quoting QDouble True val) = Inr (quoting QNo False (val @ s), False)"
  by (simp_all add: quoting_def kv_block_def kv_block_tail_def push_stripped_snoc newline_def)

text \<open>
  Variable substitution: the line \<open>k="${var}"\<close> assigns to the key the value of a
  variable seen before, whatever characters that value has, and leaves no pending text.
\<close>

theorem kv_process_variable:
  assumes "key_plain k" and "varmap var = Some val"
    and "\<forall>c\<in>set var. \<not> is_special c \<and> c \<noteq> CHR ''{'' \<and> c \<noteq> CHR ''}''"
  shows "kv_process (kv_ref k var) varmap = (Inr (Some (k, val)), [])"
proof -
  let ?b = "CHR ''{'' # var @ CHR ''}'' # [cDQ]"
  obtain c r where k: "k = c # r" using assms(1) by (cases k) (auto simp: key_plain_def key_valid_def)
  have t: "trim_start (kv_ref k var) = kv_ref k var"
    using assms(1) by (simp add: kv_ref_def k trim_start_ascii key_plain_def)
  have "c \<noteq> CHR ''#''" using assms(1) by (auto simp: k key_plain_def key_valid_def is_key_bad_def)
  then have c: "\<not> starts_with ''#'' (kv_ref k var)" by (simp add: starts_with_def kv_ref_def k)
  have sp: "split_once (\<lambda>c. c = CHR ''='') (kv_ref k var) = Some (k, cDQ # ''${'' @ var @ CHR ''}'' # [cDQ, newline])"
    using assms(1) unfolding kv_ref_def by (intro split_once_first) (auto simp: key_plain_def key_valid_def)
  have "\<forall>c\<in>set (CHR ''{'' # var @ [CHR ''}'']). \<not> is_special c"
    using assms(3) by (auto simp: is_special_def)
  from split_inclusive_prefix [OF this, of cDQ "[newline]"]
  have blocks: "split_inclusive is_special (cDQ # ''${'' @ var @ CHR ''}'' # [cDQ, newline])
      = [[cDQ], ''$'', ?b, [newline]]" by simp
  have sub: "kv_var_sub ?b varmap = Inr (val @ [cDQ])"
    using assms by (intro kv_var_sub_braced) auto
  have "kv_blocks varmap [[cDQ], ''$'', ?b, [newline]] (quoting QNo False []) = Inr (quoting QNo False val)"
    using kv_block_quoting(4) [OF sub, of "[]"] by (simp only: kv_blocks.simps kv_block_quoting sum.case prod.case if_False append_Nil)
  moreover have "kv_scan_init = quoting QNo False []" by (simp add: kv_scan_init_def quoting_def)
  ultimately have "kv_blocks varmap (split_inclusive is_special (cDQ # ''${'' @ var @ CHR ''}'' # [cDQ, newline])) kv_scan_init
      = Inr (quoting QNo False val)" by (simp only: blocks)
  with t c sp assms(1) show ?thesis
    by (simp add: kv_process_def Let_def key_plain_def key_valid_def quoting_def) (simp add: kv_ref_def)
qed

theorem kv_process_variable_witness:
  "kv_process (kv_ref ''B'' ''A'') [''A'' \<mapsto> ''x y'' @ [cBS, cDQ]] = (Inr (Some (''B'', ''x y'' @ [cBS, cDQ])), [])"
  by (rule kv_process_variable)
    (simp_all add: key_plain_def key_valid_def is_key_bad_def byte_in_def byte_val_def is_special_def)

text \<open>
  C34. The text after a substituted variable is kept only up to the next brace: whatever
  follows it is dropped, although the source means to retain everything after the
  variable.
\<close>

theorem kv_var_sub_drops:
  assumes "CHR ''{'' \<notin> set var" and "CHR ''}'' \<notin> set var" and "m var = Some val"
    and "\<forall>c\<in>set mid. c \<noteq> CHR ''{'' \<and> c \<noteq> CHR ''}''" and "br = CHR ''{'' \<or> br = CHR ''}''"
  shows "kv_var_sub (CHR ''{'' # var @ CHR ''}'' # mid @ br # rest) m = Inr (val @ mid @ [br])"
proof -
  let ?P = "\<lambda>c. c = CHR ''{'' \<or> c = CHR ''}''"
  have "split_inclusive ?P (CHR ''{'' # var @ CHR ''}'' # mid @ br # rest)
      = ''{'' # (var @ ''}'') # (mid @ [br]) # split_inclusive ?P rest"
    using assms split_inclusive_prefix [of var ?P "CHR ''}''" "mid @ br # rest"]
      split_inclusive_prefix [of mid ?P br rest] by auto
  then show ?thesis
    using assms(3) by (simp add: kv_var_sub_def strip_suffix_def unwrap_str_def)
qed

theorem kv_var_sub_drops_witness: "kv_var_sub ''{a}/{b}'' [''a'' \<mapsto> ''v''] = Inr ''v/{''"
  using kv_var_sub_drops [of "''a''" "[''a'' \<mapsto> ''v'']" "''v''" "''/''" "CHR ''{''" "''b}''"] by simp

section \<open>The reader as a whole\<close>

text \<open>
  C25. Reading a configuration never panics, on any input, and every key it stores is
  non-empty and free of quotes, blanks, path and variable characters.
\<close>

theorem kv_conf_process_safe:
  "case kv_conf_process rdr of Inl e \<Rightarrow> (\<forall>m. e \<noteq> Panic m) | Inr conf \<Rightarrow> (\<forall>k. conf k \<noteq> None \<longrightarrow> key_valid k)"
proof -
  obtain r m where p: "kv_append_loop 1 rdr [] Map.empty = (r, m)" by fastforce
  with append_loop.keys_valid [OF _ p] append_loop.no_panic [of 1 rdr "[]" Map.empty] show ?thesis
    by (cases r) (auto simp: kv_conf_process_def kv_conf_process_append_def dom_def)
qed

theorem kv_conf_process_safe_witness:
  "\<exists>conf. kv_conf_process (concat (map kv_quote [(''A'', ''x'')]), None) = Inr conf \<and> conf ''A'' \<noteq> None \<and> key_valid ''A''"
proof -
  have "kv_conf_process (concat (map kv_quote [(''A'', ''x'')]), None) = Inr [''A'' \<mapsto> ''x'']"
    using append_loop.reads_quoted [of "[(''A'', ''x'')]" 1 Map.empty]
    by (simp add: kv_conf_process_def kv_conf_process_append_def kv_plain_def key_plain_def value_plain_def key_valid_def
        is_key_bad_def byte_in_def byte_val_def newline_def kv_quote_def CONF_LINE_MAX_def)
  with kv_conf_process_safe [of "(concat (map kv_quote [(''A'', ''x'')]), None)"] show ?thesis by simp
qed

end
