(* ===== verification/Host.thy ===== *)
theory Host
  imports Cpio KvConf
begin

text \<open>
  The host the tools run on, as the arguments of the functions that query it: a snapshot
  of the file system (nothing changes while an archive is cut), the environment and the
  ELF reader of the vendored \<^verbatim>\<open>rust-elf\<close> crate. Every query may fail with the error kind the
  operating system reports.
\<close>

text \<open>
  What \<^verbatim>\<open>ElfStream\<close> gives of an ELF file: the tags and values of the dynamic section and
  the strings of the dynamic symbol table, each of them absent (\<open>Some None\<close>) or malformed
  (\<^const>\<open>None\<close>); a string offset may be malformed too.
\<close>

record elf_view =
  ev_dynamic :: "(int \<times> u64) list option option"
  ev_strs :: "(nat \<Rightarrow> bytes option) option option"

datatype target_arch = X86_64 | Aarch64 | OtherArch \<comment> \<open>what the programs were compiled for\<close>

record host =
  h_lstat :: "bytes \<Rightarrow> error_kind + Metadata"
  h_open :: "bytes \<Rightarrow> error_kind + (Metadata \<times> reader)"
  h_readlink :: "bytes \<Rightarrow> error_kind + bytes"
  h_canon :: "bytes \<Rightarrow> error_kind + bytes"
  h_readdir :: "bytes \<Rightarrow> error_kind + (error_kind + bytes) list"
  h_stat :: "bytes \<Rightarrow> error_kind + Metadata"
  h_cwd :: "error_kind + bytes"
  h_env :: "bytes \<Rightarrow> bytes option"
  h_elf :: "bytes \<Rightarrow> elf_view option"
  h_target :: target_arch

definition os :: "error_kind + 'a \<Rightarrow> 'a res" where
  "os r = (case r of Inl k \<Rightarrow> err k | Inr x \<Rightarrow> Inr x)"

definition fs_read :: "host \<Rightarrow> bytes \<Rightarrow> bytes res" where
  \<comment> \<open>\<^verbatim>\<open>fs::read\<close>\<close>
  "fs_read h p =
    bindR (os (h_open h p)) (\<lambda>(_, rd). case snd rd of None \<Rightarrow> Inr (fst rd) | Some k \<Rightarrow> err k)"

definition fs_exists :: "host \<Rightarrow> bytes \<Rightarrow> bool" where
  \<comment> \<open>\<^verbatim>\<open>Path::exists\<close>\<close>
  "fs_exists h p = (case h_stat h p of Inr _ \<Rightarrow> True | Inl _ \<Rightarrow> False)"

definition is_file :: "host \<Rightarrow> bytes \<Rightarrow> bool" where
  "is_file h p = (case h_stat h p of Inr md \<Rightarrow> st_mode md AND S_IFMT = S_IFREG | Inl _ \<Rightarrow> False)"

definition read_to_string :: "host \<Rightarrow> bytes \<Rightarrow> bytes res" where
  \<comment> \<open>\<^verbatim>\<open>fs::read_to_string\<close>\<close>
  "read_to_string h p = bindR (fs_read h p) utf8_line"

definition absolute :: "host \<Rightarrow> bytes \<Rightarrow> bytes res" where
  \<comment> \<open>\<^verbatim>\<open>path::absolute\<close>: the current directory is only asked for by relative paths\<close>
  "absolute h p =
    (if is_absolute p \<or> p = [] then path_absolute [] p
     else bindR (os (h_cwd h)) (\<lambda>cwd. path_absolute cwd p))"

lemma os_simps [simp]: "os (Inl k) = err k" "os (Inr x) = Inr x"
  by (simp_all add: os_def)

lemma os_no_panic [simp]: "os r \<noteq> Inl (Panic m)"
  by (cases r) simp_all

section \<open>Lossy decoding\<close>

text \<open>
  \<^verbatim>\<open>String::from_utf8_lossy\<close>: the length of the first character, or of the longest
  malformed prefix, which is replaced by U+FFFD.
\<close>

definition char_len :: "byte \<Rightarrow> nat" where
  "char_len a =
    (if byte_in 0 127 a then 1 else if byte_in 194 223 a then 2
     else if byte_in 224 239 a then 3 else if byte_in 240 244 a then 4 else 0)"

definition second_ok :: "byte \<Rightarrow> byte \<Rightarrow> bool" where
  "second_ok a b =
    (if byte_val a = 224 then byte_in 160 191 b else if byte_val a = 237 then byte_in 128 159 b
     else if byte_val a = 240 then byte_in 144 191 b else if byte_val a = 244 then byte_in 128 143 b
     else cont_byte b)"

fun good_run :: "byte \<Rightarrow> bytes \<Rightarrow> nat" where
  \<comment> \<open>how many continuation bytes follow that fit, at most three\<close>
  "good_run a [] = 0"
| "good_run a (b # s) =
    (if second_ok a b then 1 + length (takeWhile cont_byte (take 2 s)) else 0)"

definition lossy_chunk :: "byte \<Rightarrow> bytes \<Rightarrow> nat \<times> bool" where
  "lossy_chunk a s =
    (let n = char_len a; k = 1 + good_run a s
     in if n = 0 then (1, False) else if n \<le> k then (n, True) else (k, False))"

function utf8_lossy :: "bytes \<Rightarrow> bytes" where
  "utf8_lossy [] = []"
| "utf8_lossy (a # s) =
    (case lossy_chunk a s of
       (n, ok) \<Rightarrow> (if ok then take n (a # s) else [CHR 0xEF, CHR 0xBF, CHR 0xBD])
                @ utf8_lossy (drop (n - 1) s))"
  by pat_completeness auto
termination
  by (relation "measure length") auto

section \<open>Naming errors\<close>

definition err_text :: "fault \<Rightarrow> string" where
  \<comment> \<open>\<^verbatim>\<open>Display\<close> of an error: its message, if it was made with one\<close>
  "err_text e = (case e of IoErr _ m \<Rightarrow> m | Panic m \<Rightarrow> m | OutOfFuel \<Rightarrow> [])"

definition debug_str :: "bytes \<Rightarrow> string" where
  \<comment> \<open>\<^verbatim>\<open>{:?}\<close> of a string or a path without characters that need an escape\<close>
  "debug_str s = cDQ # s @ [cDQ]"

fun debug_items :: "bytes list \<Rightarrow> string" where
  "debug_items [] = []"
| "debug_items [x] = debug_str x"
| "debug_items (x # xs) = debug_str x @ '', '' @ debug_items xs"

definition debug_list :: "bytes list \<Rightarrow> string" where
  "debug_list xs = ''['' @ debug_items xs @ '']''"

section \<open>A small host\<close>

text \<open>Regular files with the given contents and nothing else, for concrete runs.\<close>

definition file_meta :: "bytes \<Rightarrow> Metadata" where
  "file_meta s =
    \<lparr>st_mode = S_IFREG OR 0x1A4, st_nlink = 1, st_uid = 0, st_gid = 0, st_mtime = 0, st_rdev = 0,
     st_size = of_nat (length s)\<rparr>"

definition files_host :: "(bytes \<times> bytes) list \<Rightarrow> host" where
  "files_host fs =
    \<lparr>h_lstat = (\<lambda>p. case map_of fs p of Some s \<Rightarrow> Inr (file_meta s) | None \<Rightarrow> Inl NotFound),
     h_open = (\<lambda>p. case map_of fs p of Some s \<Rightarrow> Inr (file_meta s, s, None) | None \<Rightarrow> Inl NotFound),
     h_readlink = (\<lambda>_. Inl InvalidInput),
     h_canon = (\<lambda>p. if map_of fs p = None then Inl NotFound else Inr p),
     h_readdir = (\<lambda>_. Inl NotFound),
     h_stat = (\<lambda>p. case map_of fs p of Some s \<Rightarrow> Inr (file_meta s) | None \<Rightarrow> Inl NotFound),
     h_cwd = Inr ''/work'',
     h_env = Map.empty,
     h_elf = Map.empty,
     h_target = X86_64\<rparr>"

end
