(* ===== verification/Rapido_Lib.thy ===== *)
theory Rapido_Lib
  imports Host
begin

text \<open>
  The library \<^verbatim>\<open>src/lib.rs\<close> shared by the tools: default configuration, locating
  \<^verbatim>\<open>rapido.conf\<close>, the kernel version, and the kernel modules the QEMU settings need.
\<close>

definition RAPIDO_CONF_PATH :: bytes where "RAPIDO_CONF_PATH = ''rapido.conf''"
definition RAPIDO_NET_CONF_PATH :: bytes where "RAPIDO_NET_CONF_PATH = ''net-conf''"
definition RAPIDO_DRACUT_OUT :: bytes where "RAPIDO_DRACUT_OUT = ''initrds/myinitrd''"
definition RAPIDO_QEMU_PID_DIR :: bytes where "RAPIDO_QEMU_PID_DIR = ''initrds''"
definition RAPIDO_QEMU_EXTRA_ARGS :: bytes where
  "RAPIDO_QEMU_EXTRA_ARGS = ''-nographic -device virtio-rng-pci''"

definition host_kernel_vers_parse :: "bytes \<Rightarrow> bytes res" where
  "host_kernel_vers_parse kvers =
    (if \<not> utf8_valid kvers then err InvalidData
     else case strip_prefix ''Linux version '' kvers of
       None \<Rightarrow> err InvalidData
     | Some rel \<Rightarrow>
       (case split_once (\<lambda>c. c = CHR '' '') rel of
          Some (rel1, _) \<Rightarrow> Inr rel1
        | None \<Rightarrow> err InvalidData))"

definition host_kernel_vers :: "host \<Rightarrow> bytes res" where
  "host_kernel_vers h = bindR (fs_read h ''/proc/version'') host_kernel_vers_parse"

definition conf_src_or_host_kernel_vers :: "host \<Rightarrow> conf \<Rightarrow> bytes res" where
  "conf_src_or_host_kernel_vers h conf =
    (let fallback = (case conf ''KERNEL_RELEASE'' of Some krel \<Rightarrow> Inr krel | None \<Rightarrow> host_kernel_vers h)
     in case conf ''KERNEL_SRC'' of
          Some ksrc \<Rightarrow>
            (if ksrc \<noteq> [] then
               bindR (fs_read h (ksrc @ ''/include/config/kernel.release'')) (\<lambda>b.
               Inr (utf8_lossy (case strip_suffix [newline] b of Some bt \<Rightarrow> bt | None \<Rightarrow> b)))
             else fallback)
        | None \<Rightarrow> fallback)"

definition conf_kmod_deps :: "conf \<Rightarrow> bytes list" where
  "conf_kmod_deps conf =
    (case conf ''QEMU_EXTRA_ARGS'' of
       Some v \<Rightarrow> if str_contains ''virtio-rng-pci'' v then [''virtio_rng''] else []
     | None \<Rightarrow> [])
    @ (if conf ''VIRTFS_SHARE_PATH'' \<noteq> None then [''9pnet'', ''9pnet_virtio'', ''9p''] else [])"

definition host_rapido_conf_open :: "host \<Rightarrow> bytes \<Rightarrow> ((Metadata \<times> reader) \<times> bytes) res" where
  \<comment> \<open>\<^verbatim>\<open>env::var\<close> refuses a value that is not UTF-8\<close>
  "host_rapido_conf_open h rapido_conf_path =
    (case h_env h ''RAPIDO_CONF'' of
       Some c \<Rightarrow>
         (if \<not> utf8_valid c then err InvalidInput
          else case h_open h c of
            Inl k \<Rightarrow> if k = NotFound then err_msg InvalidInput (''RAPIDO_CONF missing at '' @ c) else err k
          | Inr f \<Rightarrow> Inr (f, c))
     | None \<Rightarrow> bindR (os (h_open h rapido_conf_path)) (\<lambda>f. Inr (f, rapido_conf_path)))"

definition conf_defaults :: conf where
  "conf_defaults =
    [''DRACUT_OUT'' \<mapsto> RAPIDO_DRACUT_OUT, ''QEMU_PID_DIR'' \<mapsto> RAPIDO_QEMU_PID_DIR,
     ''VM_NET_CONF'' \<mapsto> RAPIDO_NET_CONF_PATH, ''QEMU_EXTRA_ARGS'' \<mapsto> RAPIDO_QEMU_EXTRA_ARGS]"

section \<open>Laws\<close>

text \<open>A configured tool always has an output path, a pid directory, a network path and arguments.\<close>

lemma conf_defaults_kept:
  assumes "kv_conf_process_append rdr conf_defaults = (r, c)"
    and "k \<in> {''DRACUT_OUT'', ''QEMU_PID_DIR'', ''VM_NET_CONF'', ''QEMU_EXTRA_ARGS''}"
  shows "\<exists>v. c k = Some v"
proof -
  have "k \<in> dom conf_defaults" using assms(2) by (auto simp: conf_defaults_def)
  with append_loop.dom_grows [of 1 rdr "[]" conf_defaults r c] assms(1) show ?thesis
    by (auto simp: kv_conf_process_append_def)
qed

end
