(* ===== verification/Kmod.thy ===== *)
theory Kmod
  imports Rapido_Lib
begin

text \<open>
  The crate \<^verbatim>\<open>src/kmod-parser\<close>: the module database of a kernel, read from the
  \<^verbatim>\<open>modules.*\<close> files that depmod writes, and the lookup of modules by name or alias.
\<close>

definition MODULE_DB_FILES :: "bytes list" where
  "MODULE_DB_FILES =
    [''modules.dep'', ''modules.dep.bin'', ''modules.alias'', ''modules.alias.bin'', ''modules.softdep'',
     ''modules.weakdep'', ''modules.builtin'', ''modules.builtin.bin'', ''modules.builtin.alias.bin'',
     ''modules.builtin.modinfo'', ''modules.symbols'', ''modules.symbols.bin'', ''modules.order'',
     ''modules.fips'', ''modules.devname'']"

datatype ModuleStatus = Builtin | LoadableModule

record KmodModule =
  km_status :: ModuleStatus
  rel_path :: bytes
  hard_deps_paths :: "bytes list"
  soft_deps_pre :: "bytes list"
  soft_deps_post :: "bytes list"
  weak_deps :: "bytes list"

record KmodContext =
  modules_hash :: "bytes \<rightharpoonup> KmodModule"
  alias_map :: "bytes \<rightharpoonup> bytes"
  module_root :: bytes

definition read_lines :: "host \<Rightarrow> bytes \<Rightarrow> bytes res list res" where
  "read_lines h p = bindR (os (h_open h p)) (\<lambda>(_, rd). Inr (lines_of rd))"

definition normalise :: "bytes \<Rightarrow> bytes" where
  "normalise = replace_byte CHR ''-'' CHR ''_''"

definition extract_module_name :: "bytes \<Rightarrow> bytes" where
  "extract_module_name path_str =
    (let stem = (case file_stem path_str of
                   Some s \<Rightarrow> if utf8_valid s then s else path_str
                 | None \<Rightarrow> path_str);
         base_name = (case strip_suffix ''.ko'' stem of Some b \<Rightarrow> b | None \<Rightarrow> stem)
     in normalise base_name)"

section \<open>Loading\<close>

text \<open>\<^verbatim>\<open>for line in read_lines(&path)? { let line = line?; ... }\<close>\<close>

definition each_line :: "host \<Rightarrow> bytes \<Rightarrow> (bytes \<Rightarrow> (KmodContext, unit) eff) \<Rightarrow> (KmodContext, unit) eff" where
  "each_line h p body =
    bindE (lift_res (read_lines h p)) (\<lambda>ls. for_each ls (\<lambda>l. bindE (lift_res l) body))"

definition new_module :: "ModuleStatus \<Rightarrow> bytes \<Rightarrow> bytes list \<Rightarrow> KmodModule" where
  "new_module st path deps =
    \<lparr>km_status = st, rel_path = path, hard_deps_paths = deps,
     soft_deps_pre = [], soft_deps_post = [], weak_deps = []\<rparr>"

definition set_module :: "bytes \<Rightarrow> KmodModule \<Rightarrow> KmodContext \<Rightarrow> KmodContext" where
  "set_module name m ctx = ctx\<lparr>modules_hash := (modules_hash ctx)(name \<mapsto> m)\<rparr>"

definition hard_dep_line :: "bytes \<Rightarrow> (KmodContext, unit) eff" where
  "hard_dep_line line ctx =
    (case split_once (\<lambda>c. c = CHR '':'') line of
       None \<Rightarrow> (Inr (), ctx)
     | Some (p0, p1) \<Rightarrow>
       (let module_path_str = trim p0;
            module_name = extract_module_name module_path_str;
            dep_paths = split_whitespace (trim p1);
            ctx1 = set_module module_name (new_module LoadableModule module_path_str dep_paths) ctx
        in if modules_hash ctx module_name \<noteq> None
           then (err_msg InvalidData (''duplicate entry: '' @ debug_str module_path_str), ctx1)
           else (Inr (), ctx1)))"

definition load_hard_dependencies :: "host \<Rightarrow> (KmodContext, unit) eff" where
  "load_hard_dependencies h ctx = each_line h (path_join (module_root ctx) ''modules.dep'') hard_dep_line ctx"

fun soft_parts :: "bytes list \<Rightarrow> bool \<Rightarrow> KmodModule \<Rightarrow> KmodModule" where
  \<comment> \<open>the flag says whether \<^verbatim>\<open>current_list\<close> is the list of post dependencies\<close>
  "soft_parts [] post m = m"
| "soft_parts (p # ps) post m =
    (if p = ''pre:'' then soft_parts ps False m
     else if p = ''post:'' then soft_parts ps True m
     else if post then soft_parts ps post (m\<lparr>soft_deps_post := soft_deps_post m @ [p]\<rparr>)
     else soft_parts ps post (m\<lparr>soft_deps_pre := soft_deps_pre m @ [p]\<rparr>))"

definition soft_dep_line :: "bytes \<Rightarrow> (KmodContext, unit) eff" where
  "soft_dep_line line ctx =
    (case split_whitespace line of
       p0 # p1 # p2 # ps \<Rightarrow>
         (if p0 \<noteq> ''softdep'' then (Inr (), ctx)
          else case modules_hash ctx p1 of
            None \<Rightarrow> (Inr (), ctx)
          | Some m \<Rightarrow> (Inr (), set_module p1 (soft_parts (p2 # ps) False m) ctx))
     | _ \<Rightarrow> (Inr (), ctx))"

definition load_soft_dependencies :: "host \<Rightarrow> (KmodContext, unit) eff" where
  "load_soft_dependencies h ctx = each_line h (path_join (module_root ctx) ''modules.softdep'') soft_dep_line ctx"

definition weak_dep_line :: "bytes \<Rightarrow> (KmodContext, unit) eff" where
  "weak_dep_line line ctx =
    (case split_whitespace line of
       [p0, module_name, dep_name] \<Rightarrow>
         (if p0 \<noteq> ''weakdep'' then (Inr (), ctx)
          else case modules_hash ctx module_name of
            None \<Rightarrow> (Inr (), ctx)
          | Some m \<Rightarrow> (Inr (), set_module module_name (m\<lparr>weak_deps := weak_deps m @ [dep_name]\<rparr>) ctx))
     | _ \<Rightarrow> (Inr (), ctx))"

definition load_weak_dependencies :: "host \<Rightarrow> (KmodContext, unit) eff" where
  "load_weak_dependencies h ctx = each_line h (path_join (module_root ctx) ''modules.weakdep'') weak_dep_line ctx"

definition builtin_line :: "bytes \<Rightarrow> (KmodContext, unit) eff" where
  "builtin_line line ctx =
    (let path_str = trim line in
     if path_str = [] then (Inr (), ctx)
     else let module_name = extract_module_name path_str in
       if modules_hash ctx module_name \<noteq> None then (Inr (), ctx)
       else (Inr (), set_module module_name (new_module Builtin [] []) ctx))"

definition load_builtin_modules :: "host \<Rightarrow> (KmodContext, unit) eff" where
  "load_builtin_modules h ctx = each_line h (path_join (module_root ctx) ''modules.builtin'') builtin_line ctx"

definition alias_line :: "bytes \<Rightarrow> (KmodContext, unit) eff" where
  "alias_line line ctx =
    (case split_whitespace line of
       p0 # a # module_name # _ \<Rightarrow>
         (if p0 = ''alias'' then (Inr (), ctx\<lparr>alias_map := (alias_map ctx)(a \<mapsto> module_name)\<rparr>)
          else (Inr (), ctx))
     | _ \<Rightarrow> (Inr (), ctx))"

definition load_aliases :: "host \<Rightarrow> (KmodContext, unit) eff" where
  "load_aliases h ctx =
    (let path = path_join (module_root ctx) ''modules.alias'' in
     if \<not> fs_exists h path then (Inr (), ctx) else each_line h path alias_line ctx)"

text \<open>\<^verbatim>\<open>KmodContext::new\<close>: a missing file is ignored, but for \<^verbatim>\<open>modules.builtin\<close>.\<close>

definition squash_notfound :: "(KmodContext, unit) eff \<Rightarrow> string \<Rightarrow> (KmodContext, unit) eff" where
  "squash_notfound m fext =
    tryE m (\<lambda>r. case r of
       Inr _ \<Rightarrow> ret ()
     | Inl e \<Rightarrow> if err_kind e = Some NotFound then ret ()
               else throw (IoErr OtherKind (''Failed to load modules.'' @ fext @ '': '' @ err_text e)))"

definition load_all :: "host \<Rightarrow> (KmodContext, unit) eff" where
  "load_all h =
    seqE (squash_notfound (load_hard_dependencies h) ''dep'') (
    seqE (tryE (load_builtin_modules h) (\<lambda>r. case r of
            Inr _ \<Rightarrow> ret ()
          | Inl e \<Rightarrow> throw (IoErr OtherKind (''Failed to load modules.builtin: '' @ err_text e)))) (
    seqE (squash_notfound (load_soft_dependencies h) ''softdep'') (
    seqE (squash_notfound (load_weak_dependencies h) ''weakdep'')
    (squash_notfound (load_aliases h) ''alias''))))"

definition KmodContext_new :: "host \<Rightarrow> bytes \<Rightarrow> string + KmodContext" where
  "KmodContext_new h dirname =
    (case load_all h \<lparr>modules_hash = Map.empty, alias_map = Map.empty, module_root = dirname\<rparr> of
       (Inl e, _) \<Rightarrow> Inl (err_text e)
     | (Inr _, ctx) \<Rightarrow> Inr ctx)"

section \<open>Lookup\<close>

lemma normalise_id: "CHR ''-'' \<notin> set name \<Longrightarrow> normalise name = name"
  unfolding normalise_def replace_byte_def by (rule map_idI) auto

lemma normalise_dashes: "normalise name \<noteq> name \<Longrightarrow> CHR ''-'' \<in> set name"
  using normalise_id by blast

function find_kmod :: "KmodContext \<Rightarrow> bytes \<Rightarrow> KmodModule option" where
  "find_kmod ctx name =
    (case modules_hash ctx name of
       Some m \<Rightarrow> Some m
     | None \<Rightarrow>
       (case (case alias_map ctx name of Some actual_name \<Rightarrow> modules_hash ctx actual_name | None \<Rightarrow> None) of
          Some m \<Rightarrow> Some m
        | None \<Rightarrow>
          (let normname = normalise name
           in if normname \<noteq> name then find_kmod ctx normname else None)))"
  by pat_completeness auto
termination
proof (relation "measure (\<lambda>(_, name). if CHR ''-'' \<in> set name then 1 else 0)", simp)
  fix ctx :: KmodContext and name x
  assume "x = normalise name" and "x \<noteq> name"
  then show "((ctx, x), ctx, name) \<in> measure (\<lambda>(_, name). if CHR ''-'' \<in> set name then 1 else 0)"
    using normalise_dashes [of name] by (auto simp: normalise_def replace_byte_def)
qed

declare find_kmod.simps [simp del]

section \<open>The invariant of the module table\<close>

definition module_ok :: "bytes \<Rightarrow> KmodModule \<Rightarrow> bool" where
  "module_ok name m \<longleftrightarrow> CHR ''-'' \<notin> set name
    \<and> (case km_status m of
         LoadableModule \<Rightarrow> extract_module_name (rel_path m) = name
       | Builtin \<Rightarrow> rel_path m = [] \<and> hard_deps_paths m = [])"

definition kmod_inv :: "bytes \<Rightarrow> KmodContext \<Rightarrow> bool" where
  "kmod_inv root ctx \<longleftrightarrow> module_root ctx = root
    \<and> (\<forall>name m. modules_hash ctx name = Some m \<longrightarrow> module_ok name m)"

text \<open>The table has the entry that a line of \<^verbatim>\<open>modules.dep\<close> describes.\<close>

definition has_dep :: "bytes \<Rightarrow> bytes \<Rightarrow> KmodContext \<Rightarrow> bool" where
  "has_dep p0 p1 ctx \<longleftrightarrow>
    (\<exists>m. modules_hash ctx (extract_module_name (trim p0)) = Some m
       \<and> km_status m = LoadableModule \<and> rel_path m = trim p0 \<and> hard_deps_paths m = split_whitespace (trim p1))"

text \<open>
  The contract of a line handler of the optional files: it may only change the soft and
  weak dependencies of a module, or add a module that is not there yet.
\<close>

definition extends_table :: "KmodContext \<Rightarrow> KmodContext \<Rightarrow> bool" where
  "extends_table ctx ctx' \<longleftrightarrow>
    (\<forall>name m. modules_hash ctx name = Some m \<longrightarrow>
      (\<exists>m'. modules_hash ctx' name = Some m' \<and> km_status m' = km_status m
        \<and> rel_path m' = rel_path m \<and> hard_deps_paths m' = hard_deps_paths m))"

lemma extends_table_refl [simp]: "extends_table ctx ctx"
  by (simp add: extends_table_def)

lemma extends_table_trans: "extends_table a b \<Longrightarrow> extends_table b c \<Longrightarrow> extends_table a c"
  unfolding extends_table_def by metis

lemma has_dep_extends: "has_dep p0 p1 ctx \<Longrightarrow> extends_table ctx ctx' \<Longrightarrow> has_dep p0 p1 ctx'"
  unfolding has_dep_def extends_table_def by metis

locale line_handler =
  fixes body :: "bytes \<Rightarrow> (KmodContext, unit) eff"
  assumes body_inv: "kmod_inv root ctx \<Longrightarrow> body line ctx = (Inr (), ctx') \<Longrightarrow> kmod_inv root ctx'"
    and body_extends: "body line ctx = (Inr (), ctx') \<Longrightarrow> extends_table ctx ctx'"
    and body_fails: "body line ctx = (Inl e, ctx') \<Longrightarrow> err_kind e = Some InvalidData"
begin

lemma body_recoverable: "body line ctx = (r, ctx') \<Longrightarrow> recoverable r \<Longrightarrow> r = Inr ()"
  using body_fails by (cases r) auto

lemma body_keeps_inv [keeps_intro]: "keeps (kmod_inv root) (body line)"
  by (rule keepsI) (metis body_recoverable body_inv)

lemma body_keeps_dep [keeps_intro]: "keeps (has_dep p0 p1) (body line)"
  by (rule keepsI) (metis body_recoverable body_extends has_dep_extends)

lemma each_line_keeps_inv [keeps_intro]: "keeps (kmod_inv root) (each_line h p body)"
  unfolding each_line_def by (intro keeps_intro)

lemma each_line_keeps_dep [keeps_intro]: "keeps (has_dep p0 p1) (each_line h p body)"
  unfolding each_line_def by (intro keeps_intro)

end

lemma normalise_no_dash: "CHR ''-'' \<notin> set (normalise s)"
  by (auto simp: normalise_def replace_byte_def)

lemma extract_no_dash: "CHR ''-'' \<notin> set (extract_module_name p)"
  by (simp add: extract_module_name_def Let_def normalise_no_dash)

lemma kmod_inv_set: "kmod_inv root ctx \<Longrightarrow> module_ok name m \<Longrightarrow> kmod_inv root (set_module name m ctx)"
  by (simp add: kmod_inv_def set_module_def)

lemma soft_parts_fields:
  "km_status (soft_parts ps post m) = km_status m" "rel_path (soft_parts ps post m) = rel_path m"
  "hard_deps_paths (soft_parts ps post m) = hard_deps_paths m"
  by (induction ps post m rule: soft_parts.induct) simp_all

lemma extends_table_set:
  assumes "\<And>m. modules_hash ctx name = Some m \<Longrightarrow>
    km_status m' = km_status m \<and> rel_path m' = rel_path m \<and> hard_deps_paths m' = hard_deps_paths m"
  shows "extends_table ctx (set_module name m' ctx)"
  using assms by (simp add: extends_table_def set_module_def)

lemma module_ok_update:
  "module_ok name m \<Longrightarrow> km_status m' = km_status m \<Longrightarrow> rel_path m' = rel_path m \<Longrightarrow>
    hard_deps_paths m' = hard_deps_paths m \<Longrightarrow> module_ok name m'"
  by (simp add: module_ok_def split: ModuleStatus.splits)

lemma kmod_inv_update:
  "kmod_inv root ctx \<Longrightarrow> modules_hash ctx name = Some m \<Longrightarrow> km_status m' = km_status m \<Longrightarrow>
    rel_path m' = rel_path m \<Longrightarrow> hard_deps_paths m' = hard_deps_paths m \<Longrightarrow> kmod_inv root (set_module name m' ctx)"
  by (intro kmod_inv_set) (auto simp: kmod_inv_def intro: module_ok_update)

interpretation hard: line_handler hard_dep_line
proof
  show "kmod_inv root ctx'" if "kmod_inv root ctx" "hard_dep_line line ctx = (Inr (), ctx')" for root ctx line ctx'
    using that by (auto simp: hard_dep_line_def Let_def module_ok_def new_module_def extract_no_dash
        split: option.splits if_splits intro!: kmod_inv_set)
  show "extends_table ctx ctx'" if "hard_dep_line line ctx = (Inr (), ctx')" for line ctx ctx'
    using that by (auto simp: hard_dep_line_def Let_def split: option.splits if_splits intro!: extends_table_set)
  show "err_kind e = Some InvalidData" if "hard_dep_line line ctx = (Inl e, ctx')" for line ctx e ctx'
    using that by (auto simp: hard_dep_line_def Let_def err_kind_def split: option.splits if_splits)
qed

interpretation builtin: line_handler builtin_line
  by unfold_locales
    (auto simp: builtin_line_def Let_def module_ok_def new_module_def extract_no_dash
      split: if_splits intro!: kmod_inv_set extends_table_set)

interpretation soft: line_handler soft_dep_line
proof
  show "kmod_inv root ctx'" if "kmod_inv root ctx" "soft_dep_line line ctx = (Inr (), ctx')" for root ctx line ctx'
    using that by (auto simp: soft_dep_line_def soft_parts_fields simp del: soft_parts.simps
        split: list.splits option.splits if_splits elim!: kmod_inv_update)
qed (auto simp: soft_dep_line_def soft_parts_fields simp del: soft_parts.simps
    split: list.splits option.splits if_splits intro!: extends_table_set)

interpretation weak: line_handler weak_dep_line
proof
  show "kmod_inv root ctx'" if "kmod_inv root ctx" "weak_dep_line line ctx = (Inr (), ctx')" for root ctx line ctx'
    using that by (auto simp: weak_dep_line_def split: list.splits option.splits if_splits elim!: kmod_inv_update)
qed (auto simp: weak_dep_line_def split: list.splits option.splits if_splits intro!: extends_table_set)

interpretation aliases: line_handler alias_line
  by unfold_locales
    (auto simp: alias_line_def kmod_inv_def extends_table_def split: list.splits if_splits)

section \<open>Loading all files\<close>

lemma keeps_squash [keeps_intro]: "keeps P m \<Longrightarrow> keeps P (squash_notfound m fext)"
proof (rule keepsI)
  fix s r t
  assume m: "keeps P m" "P s" and "squash_notfound m fext s = (r, t)" and "recoverable r"
  moreover obtain x u where x: "m s = (x, u)" by fastforce
  ultimately have "recoverable x \<and> t = u"
    by (cases x) (auto simp: squash_notfound_def tryE_def err_kind_def split: if_splits)
  with keepsD_recoverable [OF m x] show "P t" by blast
qed

lemma keeps_load_builtin:
  assumes "keeps P (load_builtin_modules h)"
  shows "keeps P (tryE (load_builtin_modules h) (\<lambda>r. case r of Inr _ \<Rightarrow> ret ()
    | Inl e \<Rightarrow> throw (IoErr OtherKind (f e))))"
  using assms unfolding keeps_def tryE_def
  by (fastforce simp: err_kind_def split: prod.splits sum.splits if_splits)

lemma keeps_at_root:
  assumes "\<And>p. keeps P (each_line h p body)"
  shows "keeps P (\<lambda>ctx. each_line h (f ctx) body ctx)"
  using assms unfolding keeps_def by blast

lemma load_keeps_inv [keeps_intro]:
  "keeps (kmod_inv root) (load_hard_dependencies h)" "keeps (kmod_inv root) (load_soft_dependencies h)"
  "keeps (kmod_inv root) (load_weak_dependencies h)" "keeps (kmod_inv root) (load_builtin_modules h)"
  "keeps (kmod_inv root) (load_aliases h)"
  unfolding load_hard_dependencies_def [abs_def] load_soft_dependencies_def [abs_def]
    load_weak_dependencies_def [abs_def] load_builtin_modules_def [abs_def]
  by (rule keeps_at_root, intro keeps_intro)+
    (use aliases.each_line_keeps_inv in \<open>auto simp: load_aliases_def keeps_def Let_def split: if_splits\<close>)

lemma load_keeps_dep [keeps_intro]:
  "keeps (has_dep p0 p1) (load_soft_dependencies h)"
  "keeps (has_dep p0 p1) (load_weak_dependencies h)" "keeps (has_dep p0 p1) (load_builtin_modules h)"
  "keeps (has_dep p0 p1) (load_aliases h)"
  unfolding load_soft_dependencies_def [abs_def]
    load_weak_dependencies_def [abs_def] load_builtin_modules_def [abs_def]
  by (rule keeps_at_root, intro keeps_intro)+
    (use aliases.each_line_keeps_dep in \<open>auto simp: load_aliases_def keeps_def Let_def split: if_splits\<close>)

lemma load_all_inv: "keeps (kmod_inv root) (load_all h)"
  unfolding load_all_def by (intro keeps_seqE keeps_squash load_keeps_inv keeps_load_builtin)

lemma KmodContext_new_inv:
  assumes "KmodContext_new h root = Inr ctx"
  shows "kmod_inv root ctx"
proof -
  let ?c = "\<lparr>modules_hash = Map.empty, alias_map = Map.empty, module_root = root\<rparr>"
  have "load_all h ?c = (Inr (), ctx)"
    using assms by (auto simp: KmodContext_new_def split: prod.splits sum.splits)
  moreover have "kmod_inv root ?c" by (simp add: kmod_inv_def)
  ultimately show ?thesis by (rule keepsD [OF load_all_inv, rotated])
qed

lemma for_each_establish:
  assumes "for_each xs f s = (Inr (), t)" and "x \<in> set xs"
    and "\<And>s t. f x s = (Inr (), t) \<Longrightarrow> Q t" and "\<And>y. keeps Q (f y)"
  shows "Q t"
  using assms(1,2)
proof (induction xs arbitrary: s)
  case (Cons y xs)
  from Cons.prems(1) obtain u where y: "f y s = (Inr (), u)" and xs: "for_each xs f u = (Inr (), t)"
    by (auto simp: bindE_Inr_iff)
  show ?case
  proof (cases "x \<in> set xs")
    case True
    with Cons.IH [OF xs] show ?thesis .
  next
    case False
    with Cons.prems(2) y assms(3) have "Q u" by auto
    have "keeps Q (for_each xs f)" using assms(4) by (rule keeps_for_each)
    from keepsD [OF this \<open>Q u\<close> xs] show ?thesis .
  qed
qed simp

lemma hard_dep_line_adds:
  assumes "hard_dep_line line ctx = (Inr (), ctx')" and "split_once (\<lambda>c. c = CHR '':'') line = Some (p0, p1)"
  shows "has_dep p0 p1 ctx'"
  using assms by (auto simp: hard_dep_line_def has_dep_def Let_def set_module_def new_module_def split: if_splits)

lemma lines_of_errors:
  "Inl e \<in> set (lines_of rd) \<Longrightarrow> snd rd = None \<Longrightarrow> err_kind e = Some InvalidData"
proof (induction rd rule: lines_of.induct)
  case (1 rd)
  then show ?case
    by (subst (asm) lines_of.simps [of rd])
      (auto simp: line_error_def utf8_line_def err_kind_def split: prod.splits option.splits if_splits)
qed

lemma for_each_error:
  "for_each xs f s = (Inl e, t) \<Longrightarrow> \<exists>x\<in>set xs. \<exists>s t. f x s = (Inl e, t)"
proof (induction xs arbitrary: s)
  case (Cons y xs)
  from Cons.prems have "bindE (f y) (\<lambda>_. for_each xs f) s = (Inl e, t)" by simp
  then show ?case
  proof (cases rule: bindE_cases)
    case (step x u)
    from Cons.IH [OF step(2)] show ?thesis by simp
  qed auto
qed simp

lemma load_hard_complete:
  assumes "load_hard_dependencies h ctx = (r, ctx')"
    and "h_open h (path_join (module_root ctx) ''modules.dep'') = Inr (md, content, None)"
    and "recoverable r"
    and "Inr line \<in> set (lines_of (content, None))" and "split_once (\<lambda>c. c = CHR '':'') line = Some (p0, p1)"
  shows "has_dep p0 p1 ctx'"
proof -
  let ?f = "\<lambda>l. bindE (lift_res l) hard_dep_line"
  have run: "for_each (lines_of (content, None)) ?f ctx = (r, ctx')"
    using assms(1,2) by (simp add: load_hard_dependencies_def each_line_def read_lines_def)
  have "r = Inr ()"
  proof (rule ccontr)
    assume "r \<noteq> Inr ()"
    with assms(3) obtain e where e: "r = Inl e" "err_kind e = Some NotFound" by (cases r) auto
    from for_each_error [OF run [unfolded e(1)]]
    obtain l s t where l: "l \<in> set (lines_of (content, None))" "?f l s = (Inl e, t)" by auto
    from l(2) have "err_kind e = Some InvalidData"
    proof (cases rule: bindE_cases)
      case (fail e')
      with l(1) lines_of_errors [of e "(content, None)"] show ?thesis by simp
    next
      case (step x u)
      then show ?thesis using hard.body_fails by simp
    qed
    with e show False by simp
  qed
  with run have run': "for_each (lines_of (content, None)) ?f ctx = (Inr (), ctx')" by simp
  show ?thesis
    by (rule for_each_establish [OF run' assms(4)])
      (use hard_dep_line_adds [OF _ assms(5)] in simp, intro keeps_bindE keeps_lift_res hard.body_keeps_dep)
qed

text \<open>
  C23. Every entry of \<^verbatim>\<open>modules.dep\<close> is found: when the module database of a kernel loads,
  looking up the name of a module listed in \<^verbatim>\<open>modules.dep\<close> gives a loadable module with the
  path and the hard dependencies of its line, whatever the other files say (in particular
  when \<^verbatim>\<open>modules.builtin\<close> names it too).
\<close>

theorem kmod_dep_found:
  assumes "KmodContext_new h root = Inr ctx"
    and "h_open h (path_join root ''modules.dep'') = Inr (md, content, None)"
    and "Inr line \<in> set (lines_of (content, None))"
    and "split_once (\<lambda>c. c = CHR '':'') line = Some (p0, p1)"
  shows "\<exists>m. find_kmod ctx (extract_module_name (trim p0)) = Some m \<and> km_status m = LoadableModule
    \<and> rel_path m = trim p0 \<and> hard_deps_paths m = split_whitespace (trim p1)"
proof -
  let ?c = "\<lparr>modules_hash = Map.empty, alias_map = Map.empty, module_root = root\<rparr>"
  let ?rest = "seqE (tryE (load_builtin_modules h) (\<lambda>r. case r of
            Inr _ \<Rightarrow> ret ()
          | Inl e \<Rightarrow> throw (IoErr OtherKind (''Failed to load modules.builtin: '' @ err_text e)))) (
    seqE (squash_notfound (load_soft_dependencies h) ''softdep'') (
    seqE (squash_notfound (load_weak_dependencies h) ''weakdep'')
    (squash_notfound (load_aliases h) ''alias'')))"
  have "load_all h ?c = (Inr (), ctx)"
    using assms(1) by (auto simp: KmodContext_new_def split: prod.splits sum.splits)
  then obtain u where u: "squash_notfound (load_hard_dependencies h) ''dep'' ?c = (Inr (), u)"
    and rest: "?rest u = (Inr (), ctx)" unfolding load_all_def by (auto simp: seqE_Inr_iff [of "squash_notfound (load_hard_dependencies h) _"])
  obtain r v where "load_hard_dependencies h ?c = (r, v)" by fastforce
  moreover from this u have "recoverable r" "v = u"
    by (cases r; auto simp: squash_notfound_def tryE_def split: if_splits)+
  ultimately have dep: "has_dep p0 p1 u" using load_hard_complete assms(2-4) by fastforce
  have "keeps (has_dep p0 p1) ?rest"
    by (intro keeps_seqE keeps_squash load_keeps_dep keeps_load_builtin)
  from keepsD [OF this dep rest] have "has_dep p0 p1 ctx" .
  then show ?thesis by (auto simp: has_dep_def find_kmod.simps)
qed

text \<open>
  The loaded database is well formed, and lookups ignore the spelling of dashes: module
  names are normalised, a loadable module is listed under the name of its file, a builtin
  one has no path; and a name that is no alias is found exactly when its normalised form is.
\<close>

theorem kmod_find_normalised:
  assumes "KmodContext_new h root = Inr ctx" and "alias_map ctx name = None"
  shows "kmod_inv root ctx \<and> find_kmod ctx name = find_kmod ctx (normalise name)"
proof -
  have inv: "kmod_inv root ctx" using assms(1) by (rule KmodContext_new_inv)
  show ?thesis
  proof (cases "normalise name = name")
    case False
    then have "modules_hash ctx name = None"
      using inv normalise_dashes [OF False] by (cases "modules_hash ctx name") (auto simp: kmod_inv_def module_ok_def)
    with False assms(2) inv show ?thesis by (simp add: find_kmod.simps [of ctx name])
  qed (use inv in simp)
qed

section \<open>A concrete database\<close>

definition sample_modules :: host where
  "sample_modules = files_host
    [(''/m/modules.dep'', ''k/m-x.ko: k/d.ko'' @ [newline] @ ''k/d.ko:'' @ [newline]),
     (''/m/modules.builtin'', ''k/m_x.ko'' @ [newline])]"

lemma sample_modules_load: "\<not> isl (KmodContext_new sample_modules ''/m'')"
  by code_simp

lemma sample_lines: "lines_of (''k/m-x.ko: k/d.ko'' @ [newline] @ ''k/d.ko:'' @ [newline], None) = [Inr ''k/m-x.ko: k/d.ko'', Inr ''k/d.ko:'']"
  by code_simp
theorem kmod_dep_found_witness:
  "\<exists>ctx m. KmodContext_new sample_modules ''/m'' = Inr ctx \<and> find_kmod ctx ''m_x'' = Some m
    \<and> km_status m = LoadableModule \<and> rel_path m = ''k/m-x.ko'' \<and> hard_deps_paths m = [''k/d.ko'']"
proof -
  obtain ctx where ctx: "KmodContext_new sample_modules ''/m'' = Inr ctx"
    using sample_modules_load by (cases "KmodContext_new sample_modules ''/m''") simp_all
  let ?c = "''k/m-x.ko: k/d.ko'' @ [newline] @ ''k/d.ko:'' @ [newline]"
  have o: "h_open sample_modules (path_join ''/m'' ''modules.dep'') = Inr (file_meta ?c, ?c, None)"
    by (simp add: sample_modules_def files_host_def path_join_def)
  have sp: "split_once (\<lambda>c. c = CHR '':'') ''k/m-x.ko: k/d.ko'' = Some (''k/m-x.ko'', '' k/d.ko'')" by code_simp
  have l: "Inr ''k/m-x.ko: k/d.ko'' \<in> set (lines_of (?c, None))" unfolding sample_lines by simp
  have ev: "extract_module_name ''k/m-x.ko'' = ''m_x''" "trim ''k/m-x.ko'' = ''k/m-x.ko''"
    "split_whitespace (trim '' k/d.ko'') = [''k/d.ko'']" by code_simp+
  from kmod_dep_found [OF ctx o l sp] ctx show ?thesis by (simp only: ev) blast
qed

theorem kmod_find_normalised_witness:
  "\<exists>ctx. KmodContext_new sample_modules ''/m'' = Inr ctx \<and> kmod_inv ''/m'' ctx
    \<and> find_kmod ctx ''m-x'' = find_kmod ctx ''m_x''"
proof -
  obtain ctx where ctx: "KmodContext_new sample_modules ''/m'' = Inr ctx"
    using sample_modules_load by (cases "KmodContext_new sample_modules ''/m''") simp_all
  have "case KmodContext_new sample_modules ''/m'' of Inr c \<Rightarrow> alias_map c ''m-x'' = None | Inl _ \<Rightarrow> True"
    by code_simp
  then have "alias_map ctx ''m-x'' = None" by (simp add: ctx)
  moreover have "normalise ''m-x'' = ''m_x''" by code_simp
  ultimately show ?thesis using kmod_find_normalised [OF ctx] ctx by fastforce
qed

end
