(* ===== verification/Cut_Gather.thy ===== *)
theory Cut_Gather
  imports Kmod "HOL-Library.List_Lexorder" "HOL-Library.Char_ord"
begin

text \<open>
  The first half of \<^verbatim>\<open>src/bin/rapido-cut.rs\<close>: gathering binaries with the libraries they
  need, kernel modules with their dependencies and plain data trees from the host, and
  archiving each of them with its parent directories. Functions that take the archive
  state, the writer and the sets of seen paths as \<^verbatim>\<open>&mut\<close> arguments are effects on one
  record that holds them all.
\<close>

definition BIN_PATHS :: "bytes list" where
  "BIN_PATHS = [''/usr/bin'', ''/usr/sbin'', ''/usr/lib/systemd'', ''/bin'', ''/sbin'']"

fun LIB_PATHS :: "target_arch \<Rightarrow> bytes list" where
  "LIB_PATHS X86_64 = [''/usr/lib64'', ''/usr/lib'', ''/lib64'', ''/lib'', ''/usr/lib/x86_64-linux-gnu'']"
| "LIB_PATHS Aarch64 = [''/usr/lib64'', ''/usr/lib'', ''/lib64'', ''/lib'', ''/usr/lib/aarch64-linux-gnu'']"
| "LIB_PATHS OtherArch = [''/usr/lib64'', ''/usr/lib'', ''/lib64'', ''/lib'']"

definition MANIFEST_PATHS :: "bytes list" where "MANIFEST_PATHS = [''manifest'']"
definition RAPIDO_INIT_PATH :: bytes where "RAPIDO_INIT_PATH = ''target/release/rapido-init''"
definition RAPIDO_BASH_RC_PATH :: bytes where "RAPIDO_BASH_RC_PATH = ''vm_autorun.env''"
definition GATHER_ITEM_IGNORE_PARENT :: u32 where "GATHER_ITEM_IGNORE_PARENT = 1"

definition CPIO_AMD_DEFAULT :: ArchiveMd where
  "CPIO_AMD_DEFAULT =
    \<lparr>md_nlink = 1, md_mode = S_IFREG OR 0x1ED, md_uid = 0, md_gid = 0, md_mtime = 0,
     md_rmajor = 0, md_rminor = 0, md_len = 0\<rparr>"

record Fsent =
  fe_path :: bytes
  fe_md :: Metadata

record GatherItem =
  gi_src :: bytes
  gi_dst :: bytes
  gi_flags :: u32

datatype GatherEnt =
    GName bytes | GNameStatic bytes | GNameDst bytes bytes | GNameTry bytes
  | GPath bytes | GLib bytes | GLibRunPath bytes "bytes list" | GManifest bytes

record GatherKmods =
  kmod_dst_root :: bytes
  kmod_ctx :: KmodContext

text \<open>The mutable state of a run of \<^verbatim>\<open>rapido-cut\<close>; sets of paths hold component lists.\<close>

record cut =
  cu_cpio :: cpio
  libs_seen :: "bytes set"
  paths_seen :: "path_key set"
  cu_gk :: "GatherKmods option"
  autorun_idx :: u32
  cu_fests :: "reader list"

definition on_cpio :: "(cpio, 'a) eff \<Rightarrow> (cut, 'a) eff" where
  "on_cpio m s = (case m (cu_cpio s) of (r, c) \<Rightarrow> (r, s\<lparr>cu_cpio := c\<rparr>))"

definition seen :: "bytes \<Rightarrow> cut \<Rightarrow> bool" where
  "seen p s \<longleftrightarrow> components p \<in> paths_seen s"

definition see :: "bytes \<Rightarrow> (cut, bool) eff" where
  \<comment> \<open>\<^verbatim>\<open>paths_seen.insert(p)\<close>: whether the path is new\<close>
  "see p s = (Inr (\<not> seen p s), s\<lparr>paths_seen := insert (components p) (paths_seen s)\<rparr>)"

definition archive_md :: "Metadata \<Rightarrow> (cut, ArchiveMd) eff" where
  "archive_md md = bindE (getE (\<lambda>s. ArchiveMd_from (c_state (cu_cpio s)) md)) lift_res"

section \<open>Resolving names\<close>

fun first_stat :: "host \<Rightarrow> bytes list \<Rightarrow> bytes \<Rightarrow> Fsent option" where
  "first_stat h [] name = None"
| "first_stat h (dir # dirs) name =
    (case h_lstat h (path_join dir name) of
       Inr md \<Rightarrow> Some \<lparr>fe_path = path_join dir name, fe_md = md\<rparr>
     | Inl _ \<Rightarrow> first_stat h dirs name)"

definition search_paths :: "host \<Rightarrow> GatherEnt \<Rightarrow> bytes list" where
  "search_paths h ent =
    (case ent of GLibRunPath _ _ \<Rightarrow> LIB_PATHS (h_target h) | GLib _ \<Rightarrow> LIB_PATHS (h_target h) | GManifest _ \<Rightarrow> MANIFEST_PATHS
     | _ \<Rightarrow> BIN_PATHS)"

definition missing_msg :: "host \<Rightarrow> GatherEnt \<Rightarrow> bytes \<Rightarrow> string" where
  "missing_msg h ent name =
    (case ent of
       GLibRunPath _ p \<Rightarrow> name @ '' missing from: '' @ debug_list p @ '' & '' @ debug_list (search_paths h ent)
     | _ \<Rightarrow> name @ '' missing from: '' @ debug_list (search_paths h ent))"

definition stat_name :: "host \<Rightarrow> GatherEnt \<Rightarrow> bytes \<Rightarrow> Fsent res" where
  \<comment> \<open>a name with a separator is a path as it is; any other name is searched for\<close>
  "stat_name h ent name =
    (if sep \<in> set name then
       (case h_lstat h name of
          Inr md \<Rightarrow>
            (case absolute h name of
               Inr p \<Rightarrow> Inr \<lparr>fe_path = p, fe_md = md\<rparr>
             | Inl _ \<Rightarrow> Inl (Panic ''absolute failed for good path''))
        | Inl _ \<Rightarrow> err_msg NotFound (name @ '' missing''))
     else (case first_stat h (search_paths h ent) name of
             Some f \<Rightarrow> Inr f
           | None \<Rightarrow> err_msg NotFound (missing_msg h ent name)))"

definition path_stat :: "host \<Rightarrow> GatherEnt \<Rightarrow> Fsent res" where
  "path_stat h ent =
    (case ent of
       GPath p \<Rightarrow> bindR (os (h_lstat h p)) (\<lambda>md. Inr \<lparr>fe_path = p, fe_md = md\<rparr>)
     | GName n \<Rightarrow> stat_name h ent n
     | GNameDst n _ \<Rightarrow> stat_name h ent n
     | GNameStatic n \<Rightarrow> stat_name h ent n
     | GNameTry n \<Rightarrow> stat_name h ent n
     | GLib n \<Rightarrow> stat_name h ent n
     | GLibRunPath n paths \<Rightarrow>
         (if sep \<in> set n then stat_name h ent n
          else case first_stat h paths n of Some f \<Rightarrow> Inr f | None \<Rightarrow> stat_name h ent n)
     | GManifest n \<Rightarrow> stat_name h ent n)"

section \<open>ELF dependencies\<close>

definition DT_NEEDED :: int where "DT_NEEDED = 1"
definition DT_RUNPATH :: int where "DT_RUNPATH = 29"

definition dyn_offs :: "int \<Rightarrow> (int \<times> u64) list \<Rightarrow> nat list" where
  "dyn_offs tag dynamics = map (\<lambda>(_, v). unat v) (filter (\<lambda>(t, _). t = tag) dynamics)"

fun needed_libs :: "(nat \<Rightarrow> bytes option) \<Rightarrow> bytes list \<Rightarrow> nat list \<Rightarrow> GatherEnt list \<Rightarrow> (bytes set, GatherEnt list) eff" where
  "needed_libs strs runpaths [] acc filt = (Inr acc, filt)"
| "needed_libs strs runpaths (off # offs) acc filt =
    (case strs off of
       None \<Rightarrow> (err InvalidData, filt)
     | Some s \<Rightarrow>
       if s \<in> filt then needed_libs strs runpaths offs acc filt
       else needed_libs strs runpaths offs
              (acc @ [if runpaths \<noteq> [] then GLibRunPath s runpaths else GLib s]) (insert s filt))"

definition elf_deps :: "host \<Rightarrow> bytes \<Rightarrow> (bytes set, GatherEnt list) eff" where
  \<comment> \<open>offsets are 64 bit on every target the tool is built for\<close>
  "elf_deps h content =
    (case h_elf h content of
       None \<Rightarrow> throw (IoErr InvalidInput [])
     | Some f \<Rightarrow>
       (case ev_dynamic f of
          None \<Rightarrow> throw (IoErr InvalidData [])
        | Some None \<Rightarrow> ret []
        | Some (Some dynamics) \<Rightarrow>
          (case ev_strs f of
             None \<Rightarrow> throw (IoErr InvalidData [])
           | Some None \<Rightarrow> ret []
           | Some (Some strs) \<Rightarrow>
             needed_libs strs (List.map_filter strs (dyn_offs DT_RUNPATH dynamics))
               (dyn_offs DT_NEEDED dynamics) [])))"

definition on_libs :: "(bytes set, 'a) eff \<Rightarrow> (cut, 'a) eff" where
  "on_libs m s = (case m (libs_seen s) of (r, l) \<Rightarrow> (r, s\<lparr>libs_seen := l\<rparr>))"

section \<open>Parent directories\<close>

definition parent_dirs_amd :: "ArchiveMd \<Rightarrow> ArchiveMd" where
  \<comment> \<open>the source writes the traversal bits as the decimal literal \<^verbatim>\<open>0111\<close>\<close>
  "parent_dirs_amd child_amd =
    child_amd
      \<lparr>md_mode := (if md_mode child_amd AND S_IFMT = S_IFDIR then md_mode child_amd
                  else (md_mode child_amd AND NOT S_IFMT) OR S_IFDIR OR 111),
       md_nlink := 2, md_rmajor := 0, md_rminor := 0, md_len := 0\<rparr>"

fun dirs_loop :: "ArchiveMd \<Rightarrow> component list \<Rightarrow> bytes \<Rightarrow> (cut, unit) eff" where
  "dirs_loop amd [] here = ret ()"
| "dirs_loop amd (RootDir # cs) here = dirs_loop amd cs here"
| "dirs_loop amd (CurDir # cs) here = dirs_loop amd cs here"
| "dirs_loop amd (ParentDir # cs) here =
    (case path_pop here of
       (here1, True) \<Rightarrow> dirs_loop amd cs here1
     | (_, False) \<Rightarrow> throw (IoErr InvalidInput []))"
| "dirs_loop amd (Normal c # cs) here =
    (let here1 = path_join here c in
     bindE (see here1) (\<lambda>new.
     if new then seqE (on_cpio (archive_path here1 amd)) (dirs_loop amd cs here1)
     else dirs_loop amd cs here1))"

definition gather_archive_dirs :: "bytes option \<Rightarrow> ArchiveMd \<Rightarrow> (cut, unit) eff" where
  "gather_archive_dirs path child_amd =
    (case path of
       None \<Rightarrow> ret ()
     | Some p \<Rightarrow>
       if \<not> is_absolute p then throw (Panic ''non-absolute path, check path_stat and dst paths'')
       else bindE (getE (seen p)) (\<lambda>b.
         if b then ret () else dirs_loop (parent_dirs_amd child_amd) (components p) ''/''))"

section \<open>Binaries and libraries\<close>

definition is_lib_ent :: "GatherEnt \<Rightarrow> bool" where
  "is_lib_ent ent = (case ent of GLibRunPath _ _ \<Rightarrow> True | GLib _ \<Rightarrow> True | _ \<Rightarrow> False)"

definition is_name_dst :: "GatherEnt \<Rightarrow> bool" where
  "is_name_dst ent = (case ent of GNameDst _ _ \<Rightarrow> True | _ \<Rightarrow> False)"

fun collect_res :: "(error_kind + 'a) list \<Rightarrow> 'a list res" where
  \<comment> \<open>\<^verbatim>\<open>collect::<Result<Vec<_>, _>>\<close>\<close>
  "collect_res [] = Inr []"
| "collect_res (x # xs) = bindR (os x) (\<lambda>y. bindR (collect_res xs) (\<lambda>ys. Inr (y # ys)))"

definition read_dir :: "host \<Rightarrow> bytes \<Rightarrow> bytes list res" where
  \<comment> \<open>the names of a directory in byte order\<close>
  "read_dir h p = bindR (os (h_readdir h p)) (\<lambda>es. bindR (collect_res es) (\<lambda>ns. Inr (sort ns)))"

definition archive_elf :: "host \<Rightarrow> GatherEnt \<Rightarrow> bytes \<Rightarrow> bytes \<Rightarrow> ArchiveMd \<Rightarrow> (cut, GatherEnt list option) eff" where
  \<comment> \<open>the entries to push, or \<^const>\<open>None\<close> to leave this one unarchived\<close>
  "archive_elf h ent src dst amd =
    (let fmt = md_mode amd AND S_IFMT in
     if fmt = S_IFLNK then
       (case ent of
          GNameDst _ _ \<Rightarrow> throw (IoErr InvalidInput [])
        | _ \<Rightarrow>
          (case h_canon h src of
             Inl _ \<Rightarrow> ret None
           | Inr canon_tgt \<Rightarrow>
             seqE (on_cpio (archive_symlink dst amd canon_tgt))
               (if utf8_valid canon_tgt
                then ret (Some [if is_lib_ent ent then GLib canon_tgt else GName canon_tgt])
                else throw (IoErr InvalidInput []))))
     else if fmt = S_IFREG \<and> md_len amd > 0 then
       bindE (lift_res (os (h_open h src))) (\<lambda>(_, f).
       bindE (if md_mode amd AND 0x49 \<noteq> 0 \<or> is_lib_ent ent
              then tryE (on_libs (elf_deps h (fst f))) (\<lambda>r. case r of Inr d \<Rightarrow> ret d | Inl _ \<Rightarrow> ret [])
              else ret []) (\<lambda>deps.
       seqE (on_cpio (archive_file dst amd f)) (ret (Some deps))))
     else if fmt = S_IFDIR then
       seqE (on_cpio (archive_path dst amd)) (
       bindE (lift_res (read_dir h src)) (\<lambda>names.
       ret (Some (map (\<lambda>n. GPath (path_join src n)) names))))
     else seqE (on_cpio (archive_path dst amd)) (ret (Some [])))"

definition elf_step :: "host \<Rightarrow> GatherEnt \<Rightarrow> (cut, GatherEnt list) eff" where
  \<comment> \<open>one round of the loop: the entries it pushes\<close>
  "elf_step h ent =
    (case path_stat h ent of
       Inl e \<Rightarrow> (case ent of GNameTry _ \<Rightarrow> if err_kind e \<noteq> None then ret [] else throw e | _ \<Rightarrow> throw e)
     | Inr got \<Rightarrow>
       (let src = fe_path got;
            dst = (case ent of GNameDst _ d \<Rightarrow> d | _ \<Rightarrow> src)
        in if is_name_dst ent \<and> \<not> is_absolute dst then throw (Panic ''assertion failed: dst.is_absolute()'')
           else
             bindE (getE (seen dst)) (\<lambda>b.
             if b then ret []
             else
               bindE (archive_md (fe_md got)) (\<lambda>amd.
               seqE (gather_archive_dirs (parent dst) amd) (
               bindE (archive_elf h ent src dst amd) (\<lambda>pushed.
               case pushed of
                 None \<Rightarrow> ret []
               | Some ents \<Rightarrow> bindE (see dst) (\<lambda>_. ret ents)))))))"

text \<open>The work list is a stack: its last element is the head of the list here.\<close>

fun gather_elfs_loop :: "nat \<Rightarrow> host \<Rightarrow> GatherEnt list \<Rightarrow> (cut, unit) eff" where
  "gather_elfs_loop 0 h elfs = throw OutOfFuel"
| "gather_elfs_loop (Suc n) h [] = ret ()"
| "gather_elfs_loop (Suc n) h (ent # elfs) =
    bindE (elf_step h ent) (\<lambda>new. gather_elfs_loop n h (rev new @ elfs))"

definition gather_archive_elfs :: "nat \<Rightarrow> host \<Rightarrow> GatherEnt list \<Rightarrow> (cut, unit) eff" where
  "gather_archive_elfs fuel h elfs = gather_elfs_loop fuel h (rev elfs)"

section \<open>Kernel modules\<close>

definition archive_kmod_path :: "host \<Rightarrow> bytes \<Rightarrow> bytes \<Rightarrow> (cut, unit) eff" where
  "archive_kmod_path h src dst =
    bindE (lift_res (os (h_lstat h src))) (\<lambda>md.
    bindE (archive_md md) (\<lambda>amd.
    seqE (gather_archive_dirs (parent dst) amd) (
    bindE (lift_res (os (h_open h src))) (\<lambda>(_, kmod_f).
    on_cpio (archive_file dst amd kmod_f)))))"

definition symlink_amd :: ArchiveMd where
  "symlink_amd =
    \<lparr>md_nlink = 1, md_mode = S_IFLNK OR 0x1FF, md_uid = 0, md_gid = 0, md_mtime = 0,
     md_rmajor = 0, md_rminor = 0, md_len = 0\<rparr>"

definition archive_kmods_symlink :: "(cut, unit) eff" where
  "archive_kmods_symlink =
    bindE (getE (seen ''/lib'')) (\<lambda>b.
    let (p, tgt) = (if b then (''/lib/modules'', ''/usr/lib/modules'') else (''/lib'', ''/usr/lib''))
    in on_cpio (archive_symlink p symlink_amd tgt))"

definition archive_kmod_once :: "host \<Rightarrow> GatherKmods \<Rightarrow> bytes \<Rightarrow> (cut, bool) eff" where
  \<comment> \<open>archive a module unless its destination was seen; whether it was new\<close>
  "archive_kmod_once h gk path =
    (let kmod_dst = path_join (kmod_dst_root gk) path in
     bindE (see kmod_dst) (\<lambda>new.
     if new then
       bindE (archive_kmod_path h (path_join (module_root (kmod_ctx gk)) path) kmod_dst) (\<lambda>_. ret True)
     else ret False))"

definition archive_kmod_dep :: "host \<Rightarrow> GatherKmods \<Rightarrow> bytes \<Rightarrow> (cut, unit) eff" where
  "archive_kmod_dep h gk path = bindE (archive_kmod_once h gk path) (\<lambda>_. ret ())"

definition ignore_missing :: "(cut, unit) eff \<Rightarrow> (cut, unit) eff" where
  "ignore_missing m =
    tryE m (\<lambda>r. case r of
      Inr _ \<Rightarrow> ret ()
    | Inl e \<Rightarrow> if err_kind e = Some NotFound then ret () else throw e)"

definition archive_soft_mod :: "host \<Rightarrow> GatherKmods \<Rightarrow> bytes \<Rightarrow> (cut, unit) eff" where
  "archive_soft_mod h gk soft_mod =
    (case find_kmod (kmod_ctx gk) soft_mod of
       None \<Rightarrow> ret ()
     | Some m \<Rightarrow>
       if km_status m = Builtin then ret ()
       else ignore_missing (archive_kmod_dep h gk (rel_path m)))"

definition gather_archive_kmod_and_deps :: "host \<Rightarrow> bytes \<Rightarrow> GatherKmods \<Rightarrow> (cut, unit) eff" where
  "gather_archive_kmod_and_deps h name gk =
    (case find_kmod (kmod_ctx gk) name of
       None \<Rightarrow> throw (IoErr NotFound [])
     | Some root_mod \<Rightarrow>
       if km_status root_mod = Builtin then ret ()
       else
         bindE (archive_kmod_once h gk (rel_path root_mod)) (\<lambda>new.
         if \<not> new then ret ()
         else
           seqE (for_each (hard_deps_paths root_mod) (archive_kmod_dep h gk))
             (for_each (soft_deps_pre root_mod @ soft_deps_post root_mod @ weak_deps root_mod)
               (archive_soft_mod h gk))))"

definition GatherKmods_init :: "host \<Rightarrow> conf \<Rightarrow> (cut, GatherKmods) eff" where
  "GatherKmods_init h conf =
    bindE (lift_res (conf_src_or_host_kernel_vers h conf)) (\<lambda>krel.
    let dst_root = path_join ''/usr/lib/modules/'' krel;
        root = (case conf ''KERNEL_INSTALL_MOD_PATH'' of
                  Some kmp \<Rightarrow>
                    if kmp \<noteq> [] then path_join kmp (''lib/modules/'' @ krel)
                    else if fs_exists h dst_root then dst_root else path_join ''/lib/modules/'' krel
                | None \<Rightarrow> if fs_exists h dst_root then dst_root else path_join ''/lib/modules/'' krel)
    in case KmodContext_new h root of
         Inl e \<Rightarrow> throw (IoErr InvalidInput e)
       | Inr ctx \<Rightarrow>
         (let gk = \<lparr>kmod_dst_root = dst_root, kmod_ctx = ctx\<rparr>
          in seqE (for_each MODULE_DB_FILES (\<lambda>file_name. ignore_missing (archive_kmod_dep h gk file_name)))
               (ret gk)))"

definition archive_kmod_named :: "host \<Rightarrow> GatherKmods \<Rightarrow> bool \<Rightarrow> bytes \<Rightarrow> (cut, unit) eff" where
  "archive_kmod_named h gk ignore name =
    tryE (gather_archive_kmod_and_deps h name gk) (\<lambda>r. case r of
      Inr _ \<Rightarrow> ret ()
    | Inl e \<Rightarrow>
      if err_kind e = Some NotFound then
        (if ignore then ret ()
         else throw (IoErr NotFound (name @ '' missing from: '' @ debug_str (module_root (kmod_ctx gk)))))
      else throw e)"

definition ensure_gk :: "host \<Rightarrow> conf \<Rightarrow> (cut, GatherKmods) eff" where
  "ensure_gk h conf =
    bindE (getE cu_gk) (\<lambda>g. case g of
      Some gk \<Rightarrow> ret gk
    | None \<Rightarrow>
      bindE (GatherKmods_init h conf) (\<lambda>gk.
      seqE (modifyE (\<lambda>s. s\<lparr>cu_gk := Some gk\<rparr>)) (ret gk)))"

definition gather_archive_kmods :: "host \<Rightarrow> conf \<Rightarrow> bytes list \<Rightarrow> bool \<Rightarrow> (cut, unit) eff" where
  "gather_archive_kmods h conf kmods ignore =
    bindE (ensure_gk h conf) (\<lambda>gk. for_each kmods (archive_kmod_named h gk ignore))"

section \<open>Data trees\<close>

definition child_item :: "GatherItem \<Rightarrow> bytes \<Rightarrow> GatherItem" where
  "child_item item entry =
    \<lparr>gi_src = path_join (gi_src item) entry, gi_dst = path_join (gi_dst item) entry,
     gi_flags = GATHER_ITEM_IGNORE_PARENT\<rparr>"

definition archive_data :: "host \<Rightarrow> GatherItem \<Rightarrow> ArchiveMd \<Rightarrow> (cut, GatherItem list) eff" where
  \<comment> \<open>the entries of a directory are pushed in byte order\<close>
  "archive_data h item src_amd =
    (let fmt = md_mode src_amd AND S_IFMT in
     if fmt = S_IFDIR then
       seqE (on_cpio (archive_path (gi_dst item) src_amd)) (
       bindE (lift_res (read_dir h (gi_src item))) (\<lambda>entries.
       ret (map (child_item item) entries)))
     else if fmt = S_IFREG \<and> md_len src_amd > 0 then
       bindE (lift_res (os (h_open h (gi_src item)))) (\<lambda>(_, f).
       seqE (on_cpio (archive_file (gi_dst item) src_amd f)) (ret []))
     else if fmt = S_IFLNK then
       bindE (lift_res (os (h_readlink h (gi_src item)))) (\<lambda>tgt.
       seqE (on_cpio (archive_symlink (gi_dst item) src_amd tgt)) (ret []))
     else seqE (on_cpio (archive_path (gi_dst item) src_amd)) (ret []))"

definition data_step :: "host \<Rightarrow> GatherItem \<Rightarrow> (cut, GatherItem list) eff" where
  "data_step h item =
    (case h_lstat h (gi_src item) of
       Inl k \<Rightarrow> if k = NotFound then throw (IoErr NotFound (debug_str (gi_src item) @ '' missing''))
               else throw (IoErr k [])
     | Inr src_md \<Rightarrow>
       bindE (archive_md src_md) (\<lambda>src_amd.
       bindE (see (gi_dst item)) (\<lambda>new.
       if \<not> new then ret []
       else
         seqE (if gi_flags item AND GATHER_ITEM_IGNORE_PARENT = 0
               then gather_archive_dirs (parent (gi_dst item)) src_amd else ret ())
           (archive_data h item src_amd))))"

fun gather_data_loop :: "nat \<Rightarrow> host \<Rightarrow> GatherItem list \<Rightarrow> (cut, unit) eff" where
  "gather_data_loop 0 h items = throw OutOfFuel"
| "gather_data_loop (Suc n) h [] = ret ()"
| "gather_data_loop (Suc n) h (item # items) =
    bindE (data_step h item) (\<lambda>new. gather_data_loop n h (rev new @ items))"

definition gather_archive_data :: "nat \<Rightarrow> host \<Rightarrow> GatherItem list \<Rightarrow> (cut, unit) eff" where
  "gather_archive_data fuel h items = gather_data_loop fuel h (rev items)"

definition populate_default_symlinks :: "(cut, unit) eff" where
  "populate_default_symlinks =
    (let link = (\<lambda>p tgt. on_cpio (archive_symlink p symlink_amd tgt)) in
     seqE (bindE (getE (seen ''/lib64'')) (\<lambda>b. if b then ret () else link ''/lib64'' ''/usr/lib64'')) (
     seqE (bindE (getE (seen ''/bin'')) (\<lambda>b. if b then ret () else link ''/bin'' ''/usr/bin'')) (
     seqE (bindE (getE (\<lambda>s. (seen ''/sbin'' s, seen ''/sbin/modprobe'' s, seen ''/usr/sbin/modprobe'' s)) ) (\<lambda>(a, b, c).
             if \<not> a then link ''/sbin'' ''/usr/sbin''
             else if \<not> b \<and> c then link ''/sbin/modprobe'' ''/usr/sbin/modprobe''
             else ret ()))
     archive_kmods_symlink)))"

end
