(* ===== verification/Cut_Manifest.thy ===== *)
theory Cut_Manifest
  imports Cut_Gather
begin

text \<open>
  The manifest language of \<^verbatim>\<open>src/bin/rapido-cut.rs\<close>: one directive per line, with
  \<^verbatim>\<open>${}\<close> variables from the configuration, and \<^verbatim>\<open>include\<close> as a stack of open files.
\<close>

section \<open>Variables in paths\<close>

definition var_block :: "conf \<Rightarrow> bytes \<Rightarrow> string + bytes \<times> bytes option" where
  \<comment> \<open>the value of the variable a block starts with, and the next piece of the block\<close>
  "var_block conf block =
    (case split_inclusive (\<lambda>c. c = CHR ''{'' \<or> c = CHR ''}'') block of
       [] \<Rightarrow> Inl ''variables must be wrapped in {} braces''
     | b0 # rest \<Rightarrow>
       if b0 \<noteq> ''{'' then Inl ''variables must be wrapped in {} braces''
       else (case rest of
           [] \<Rightarrow> Inl ''no closing brace for variable''
         | var # after \<Rightarrow>
           if \<not> ends_with ''}'' var then Inl ''no closing brace for variable''
           else (case conf (butlast var) of
               None \<Rightarrow> Inl ''invalid variable substitution: not seen''
             | Some val \<Rightarrow> Inr (val, case after of [] \<Rightarrow> None | t # _ \<Rightarrow> Some t))))"

fun sub_blocks :: "conf \<Rightarrow> bytes list \<Rightarrow> bool \<Rightarrow> bytes \<Rightarrow> string + bytes" where
  "sub_blocks conf [] vnext acc = Inr acc"
| "sub_blocks conf (block # bs) vnext acc =
    (let tail = (\<lambda>b a. if ends_with ''$'' b then sub_blocks conf bs True (a @ butlast b)
                      else sub_blocks conf bs False (a @ b))
     in if vnext then
          (case var_block conf block of
             Inl e \<Rightarrow> Inl e
           | Inr (val, None) \<Rightarrow> sub_blocks conf bs False (acc @ val)
           | Inr (val, Some t) \<Rightarrow> tail t (acc @ val))
        else tail block acc)"

definition sub_path_vars :: "conf \<Rightarrow> bytes \<Rightarrow> string + bytes" where
  "sub_path_vars conf p = sub_blocks conf (split_inclusive (\<lambda>c. c = CHR ''$'') p) False []"

definition manifest_name_sub :: "conf \<Rightarrow> bytes option \<Rightarrow> bytes res" where
  "manifest_name_sub conf name =
    (case name of
       None \<Rightarrow> err InvalidData
     | Some p \<Rightarrow> (case sub_path_vars conf p of Inl _ \<Rightarrow> err InvalidData | Inr q \<Rightarrow> Inr q))"

definition manifest_name_sub_abs_path :: "host \<Rightarrow> conf \<Rightarrow> bytes option \<Rightarrow> bytes res" where
  "manifest_name_sub_abs_path h conf name =
    bindR (manifest_name_sub conf name) (\<lambda>p.
    case absolute h p of Inl _ \<Rightarrow> err InvalidData | Inr q \<Rightarrow> Inr q)"

section \<open>Directives\<close>

definition see_quietly :: "bytes \<Rightarrow> (cut, unit) eff" where
  "see_quietly p = bindE (see p) (\<lambda>_. ret ())"

definition dir_amd :: ArchiveMd where
  "dir_amd = CPIO_AMD_DEFAULT\<lparr>md_mode := S_IFDIR OR 0x1ED\<rparr>"

definition slink_amd :: ArchiveMd where
  "slink_amd = CPIO_AMD_DEFAULT\<lparr>md_mode := S_IFLNK OR 0x1FF\<rparr>"

definition manifest_dir :: "host \<Rightarrow> conf \<Rightarrow> bytes option \<Rightarrow> (cut, unit) eff" where
  "manifest_dir h conf name =
    bindE (lift_res (manifest_name_sub_abs_path h conf name)) (\<lambda>p.
    bindE (getE (seen p)) (\<lambda>b.
    if b then ret ()
    else
      seqE (gather_archive_dirs (parent p) dir_amd) (
      seqE (on_cpio (archive_path p dir_amd))
      (see_quietly p))))"

definition manifest_slink :: "host \<Rightarrow> conf \<Rightarrow> bytes option \<Rightarrow> bytes option \<Rightarrow> (cut, unit) eff" where
  "manifest_slink h conf name slink_tgt =
    bindE (lift_res (manifest_name_sub_abs_path h conf name)) (\<lambda>p.
    bindE (getE (seen p)) (\<lambda>b.
    if b then ret ()
    else
      bindE (lift_res (manifest_name_sub conf slink_tgt)) (\<lambda>tgt.
      seqE (gather_archive_dirs (parent p) slink_amd) (
      seqE (on_cpio (archive_symlink p slink_amd tgt))
      (see_quietly p)))))"

definition manifest_file :: "host \<Rightarrow> conf \<Rightarrow> bytes option \<Rightarrow> bytes option \<Rightarrow> (cut, unit) eff" where
  "manifest_file h conf name src =
    bindE (lift_res (manifest_name_sub_abs_path h conf name)) (\<lambda>p.
    bindE (getE (seen p)) (\<lambda>b.
    if b then ret ()
    else
      seqE (if src \<noteq> None then
              bindE (lift_res (manifest_name_sub conf src)) (\<lambda>src1.
              bindE (lift_res (os (h_open h src1))) (\<lambda>(src_md, f).
              bindE (archive_md src_md) (\<lambda>amd.
              seqE (gather_archive_dirs (parent p) amd)
              (on_cpio (archive_file p amd f)))))
            else
              seqE (gather_archive_dirs (parent p) CPIO_AMD_DEFAULT)
              (on_cpio (archive_path p CPIO_AMD_DEFAULT)))
        (see_quietly p)))"

definition autorun_dst :: "u32 \<Rightarrow> bytes \<Rightarrow> bytes" where
  "autorun_dst idx n = ''/rapido_autorun/'' @ pad0 3 (fmt_dec (unat idx)) @ ''-'' @ n"

definition manifest_autorun :: "host \<Rightarrow> conf \<Rightarrow> bytes option \<Rightarrow> (cut, unit) eff" where
  "manifest_autorun h conf name =
    bindE (lift_res (manifest_name_sub_abs_path h conf name)) (\<lambda>src.
    case file_name src of
      None \<Rightarrow> throw (IoErr InvalidInput [])
    | Some n \<Rightarrow>
      if \<not> utf8_valid n then throw (IoErr InvalidInput [])
      else
        bindE (getE autorun_idx) (\<lambda>idx.
        seqE (if idx = 0 then
                seqE (on_cpio (archive_path ''/rapido_autorun'' dir_amd)) (see_quietly ''/rapido_autorun'')
              else ret ()) (
        bindE (lift_res (os (h_open h src))) (\<lambda>(src_md, f).
        bindE (archive_md src_md) (\<lambda>src_amd.
        seqE (on_cpio (archive_file (autorun_dst idx n) src_amd f))
        (modifyE (\<lambda>s. s\<lparr>autorun_idx := autorun_idx s + 1\<rparr>)))))))"

definition manifest_tree :: "nat \<Rightarrow> host \<Rightarrow> conf \<Rightarrow> bytes option \<Rightarrow> bytes option \<Rightarrow> (cut, unit) eff" where
  "manifest_tree fuel h conf name src =
    bindE (lift_res (manifest_name_sub_abs_path h conf name)) (\<lambda>dst.
    if \<not> is_absolute dst then throw (IoErr InvalidInput [])
    else
      bindE (lift_res (manifest_name_sub conf src)) (\<lambda>src1.
      gather_archive_data fuel h [\<lparr>gi_src = src1, gi_dst = dst, gi_flags = 0\<rparr>]))"

definition manifest_include :: "host \<Rightarrow> conf \<Rightarrow> bytes option \<Rightarrow> (cut, unit) eff" where
  "manifest_include h conf name =
    bindE (lift_res (manifest_name_sub conf name)) (\<lambda>p.
    bindE (lift_res (path_stat h (GManifest p))) (\<lambda>f.
    bindE (lift_res (os (h_open h (fe_path f)))) (\<lambda>(_, rd).
    modifyE (\<lambda>s. s\<lparr>cu_fests := rd # cu_fests s\<rparr>))))"

definition manifest_autoruns :: "host \<Rightarrow> conf \<Rightarrow> bytes list \<Rightarrow> (cut, unit) eff" where
  "manifest_autoruns h conf locs =
    bindE (getE autorun_idx) (\<lambda>idx0.
    seqE (for_each locs (\<lambda>l. manifest_autorun h conf (Some l))) (
    bindE (getE autorun_idx) (\<lambda>idx1.
    if idx0 = idx1 then throw (IoErr InvalidData []) else ret ())))"

section \<open>A line\<close>

definition arg :: "bytes list \<Rightarrow> nat \<Rightarrow> bytes option" where
  "arg ws i = (if i < length ws then Some (ws ! i) else None)"

definition directive :: "nat \<Rightarrow> host \<Rightarrow> conf \<Rightarrow> bytes \<Rightarrow> bytes list \<Rightarrow> nat \<times> (cut, unit) eff" where
  \<comment> \<open>how many words a directive takes, and what it does\<close>
  "directive fuel h conf etype ws =
    (if etype = ''dir'' then (1, manifest_dir h conf (arg ws 0))
     else if etype = ''slink'' then (2, manifest_slink h conf (arg ws 0) (arg ws 1))
     else if etype = ''include'' then (1, manifest_include h conf (arg ws 0))
     else if etype = ''file'' then (2, manifest_file h conf (arg ws 0) (arg ws 1))
     else if etype = ''bin'' then
       (1, bindE (lift_res (manifest_name_sub conf (arg ws 0))) (\<lambda>src. gather_archive_elfs fuel h [GName src]))
     else if etype = ''try-bin'' then
       (1, bindE (lift_res (manifest_name_sub conf (arg ws 0))) (\<lambda>src. gather_archive_elfs fuel h [GNameTry src]))
     else if etype = ''kmod'' then
       (1, case arg ws 0 of None \<Rightarrow> throw (IoErr InvalidData [])
           | Some kmod \<Rightarrow> gather_archive_kmods h conf [kmod] False)
     else if etype = ''try-kmod'' then
       (1, case arg ws 0 of None \<Rightarrow> throw (IoErr InvalidData [])
           | Some kmod \<Rightarrow> gather_archive_kmods h conf [kmod] True)
     else if etype = ''autorun'' then (length ws, manifest_autoruns h conf ws)
     else if etype = ''tree'' then (2, manifest_tree fuel h conf (arg ws 0) (arg ws 1))
     else if etype = ''filter'' then
       (1, bindE (lift_res (manifest_name_sub_abs_path h conf (arg ws 0))) see_quietly)
     else (0, throw (IoErr Unsupported [])))"

definition manifest_parse_one :: "nat \<Rightarrow> host \<Rightarrow> conf \<Rightarrow> bytes \<Rightarrow> (cut, unit) eff" where
  "manifest_parse_one fuel h conf line =
    (case split_whitespace line of
       [] \<Rightarrow> ret ()
     | etype # ws \<Rightarrow>
       if starts_with ''#'' etype then ret ()
       else (case directive fuel h conf etype ws of
           (n, act) \<Rightarrow>
             seqE act (if n < length ws then throw (IoErr InvalidInput []) else ret ())))"

section \<open>A manifest\<close>

definition manifest_read :: "(cut, bytes option) eff" where
  \<comment> \<open>the next line of the manifest read last, or \<^const>\<open>None\<close> when it has ended and is closed\<close>
  "manifest_read s =
    (case cu_fests s of
       [] \<Rightarrow> (Inr None, s)
     | fest # fests \<Rightarrow>
       (case read_line fest of
          (Inl _, fest1) \<Rightarrow> (err BrokenPipe, s\<lparr>cu_fests := fest1 # fests\<rparr>)
        | (Inr l, fest1) \<Rightarrow>
          if length l > 16 * 1024 then (err InvalidInput, s\<lparr>cu_fests := fest1 # fests\<rparr>)
          else if l = [] then (Inr None, s\<lparr>cu_fests := fests\<rparr>)
          else (Inr (Some l), s\<lparr>cu_fests := fest1 # fests\<rparr>)))"

fun manifest_loop :: "nat \<Rightarrow> nat \<Rightarrow> host \<Rightarrow> conf \<Rightarrow> (cut, unit) eff" where
  "manifest_loop 0 fuel h conf = throw OutOfFuel"
| "manifest_loop (Suc n) fuel h conf =
    bindE (getE cu_fests) (\<lambda>fests.
    if fests = [] then ret ()
    else
      bindE manifest_read (\<lambda>l. case l of
        None \<Rightarrow> manifest_loop n fuel h conf
      | Some line \<Rightarrow>
        seqE (manifest_parse_one fuel h conf line) (manifest_loop n fuel h conf)))"

definition manifest_parse :: "nat \<Rightarrow> host \<Rightarrow> conf \<Rightarrow> (cut, unit) eff" where
  "manifest_parse fuel h conf =
    seqE (modifyE (\<lambda>s. s\<lparr>autorun_idx := 0\<rparr>)) (manifest_loop fuel fuel h conf)"

end
