(* ===== verification/Argument.thy ===== *)
theory Argument
  imports KvConf
begin

text \<open>
  The command line parser \<^verbatim>\<open>src/third_party/crosvm/argument.rs\<close> that every tool uses. The
  callback is an effect on the caller's state. Arguments are UTF-8 strings, as
  \<^verbatim>\<open>env::args\<close> yields them.
\<close>

section \<open>Data\<close>

datatype arg_error =
    Syntax string | UnknownArgument string | ExpectedArgument string | InvalidValue string string
  | TooManyArguments string | ExpectedValue string | UnexpectedValue string | PrintHelp
  | ArgPanic string \<comment> \<open>no constructor of the source: the parser or a callback panicked\<close>

fun arg_error_text :: "arg_error \<Rightarrow> string" where
  "arg_error_text (Syntax s) = ''syntax error: '' @ s"
| "arg_error_text (UnknownArgument s) = ''unknown argument: '' @ s"
| "arg_error_text (ExpectedArgument s) = ''expected argument: '' @ s"
| "arg_error_text (InvalidValue v e) = ''invalid value '' @ (cDQ # v @ [cDQ]) @ '': '' @ e"
| "arg_error_text (TooManyArguments s) = ''too many arguments: '' @ s"
| "arg_error_text (ExpectedValue s) = ''expected parameter value: '' @ s"
| "arg_error_text (UnexpectedValue s) = ''unexpected parameter value: '' @ s"
| "arg_error_text PrintHelp = ''help was requested''"
| "arg_error_text (ArgPanic s) = s"

definition is_arg_panic :: "arg_error \<Rightarrow> bool" where
  "is_arg_panic e = (case e of ArgPanic _ \<Rightarrow> True | _ \<Rightarrow> False)"

datatype ArgumentValueMode = ModeRequired | ModeDisallowed | ModeOptional

record Argument =
  ar_value :: "string option"
  ar_value_mode :: ArgumentValueMode
  ar_short :: "byte option"
  ar_long :: string
  ar_help :: string

definition Argument_positional :: "string \<Rightarrow> string \<Rightarrow> Argument" where
  "Argument_positional v hlp =
    \<lparr>ar_value = Some v, ar_value_mode = ModeRequired, ar_short = None, ar_long = '''', ar_help = hlp\<rparr>"

definition Argument_value :: "string \<Rightarrow> string \<Rightarrow> string \<Rightarrow> Argument" where
  "Argument_value long v hlp =
    \<lparr>ar_value = Some v, ar_value_mode = ModeRequired, ar_short = None, ar_long = long, ar_help = hlp\<rparr>"

definition Argument_short_value :: "byte \<Rightarrow> string \<Rightarrow> string \<Rightarrow> string \<Rightarrow> Argument" where
  "Argument_short_value short long v hlp =
    \<lparr>ar_value = Some v, ar_value_mode = ModeRequired, ar_short = Some short, ar_long = long, ar_help = hlp\<rparr>"

definition Argument_flag :: "string \<Rightarrow> string \<Rightarrow> Argument" where
  "Argument_flag long hlp =
    \<lparr>ar_value = None, ar_value_mode = ModeDisallowed, ar_short = None, ar_long = long, ar_help = hlp\<rparr>"

definition Argument_short_flag :: "byte \<Rightarrow> string \<Rightarrow> string \<Rightarrow> Argument" where
  "Argument_short_flag short long hlp =
    \<lparr>ar_value = None, ar_value_mode = ModeDisallowed, ar_short = Some short, ar_long = long, ar_help = hlp\<rparr>"

definition Argument_flag_or_value :: "string \<Rightarrow> string \<Rightarrow> string \<Rightarrow> Argument" where
  "Argument_flag_or_value long v hlp =
    \<lparr>ar_value = Some v, ar_value_mode = ModeOptional, ar_short = None, ar_long = long, ar_help = hlp\<rparr>"

section \<open>The parser\<close>

type_synonym ('s, 'a) aeff = "'s \<Rightarrow> (arg_error + 'a) \<times> 's"
type_synonym 's callback = "bytes \<Rightarrow> bytes option \<Rightarrow> ('s, unit) aeff"

datatype parse_state = Top | Positional | Value bytes

definition after_call :: "'s callback \<Rightarrow> bytes \<Rightarrow> bytes option \<Rightarrow> parse_state \<Rightarrow> ('s, parse_state) aeff" where
  \<comment> \<open>\<^verbatim>\<open>f(name, value)?; state\<close>\<close>
  "after_call f name val st s = (case f name val s of (Inl e, t) \<Rightarrow> (Inl e, t) | (Inr _, t) \<Rightarrow> (Inr st, t))"

definition top_step :: "'s callback \<Rightarrow> bytes \<Rightarrow> ('s, parse_state) aeff" where
  "top_step f arg s =
    (if arg = ''--'' then (Inr Positional, s)
     else if starts_with ''--'' arg then
       (let param = dropWhile (\<lambda>c. c = CHR ''-'') arg in
        case split_once (\<lambda>c. c = CHR ''='') param of
          Some (name, val) \<Rightarrow>
            (if name = [] then (Inl (Syntax ''expected parameter name before `=`''), s)
             else if val = [] then (Inl (Syntax ''expected parameter value after `=`''), s)
             else after_call f name (Some val) Top s)
        | None \<Rightarrow> (Inr (Value param), s))
     else if starts_with ''-'' arg then
       (if length arg = 1 then (Inl (Syntax ''expected argument short name after `-`''), s)
        else if length arg > 2 \<and> cont_byte (arg ! 2)
        then (Inl (ArgPanic ''byte index 2 is not a char boundary''), s)
        else
          (let name = take 1 (drop 1 arg);
               val = (if length arg > 2 then Some (drop 2 arg) else None)
           in case f name val s of
                (Inl (ExpectedValue _), t) \<Rightarrow> (Inr (Value name), t)
              | (Inl e, t) \<Rightarrow> (Inl e, t)
              | (Inr _, t) \<Rightarrow> (Inr Top, t)))
     else after_call f [] (Some arg) Positional s)"

definition arg_step :: "'s callback \<Rightarrow> bytes \<Rightarrow> parse_state \<Rightarrow> ('s, parse_state) aeff" where
  \<comment> \<open>the inner loop: an argument that a pending parameter does not take is parsed again from the top\<close>
  "arg_step f arg st s =
    (case st of
       Top \<Rightarrow> top_step f arg s
     | Positional \<Rightarrow> after_call f [] (Some arg) Positional s
     | Value name \<Rightarrow>
       (if starts_with ''-'' arg then
          (case f name None s of (Inl e, t) \<Rightarrow> (Inl e, t) | (Inr _, t) \<Rightarrow> top_step f arg t)
        else
          (case f name (Some arg) s of
             (Inr _, t) \<Rightarrow> (Inr Top, t)
           | (Inl e, t) \<Rightarrow>
             if is_arg_panic e then (Inl e, t)
             else (case f name None t of
                 (Inl e', u) \<Rightarrow> (Inl (if is_arg_panic e' then e' else e), u)
               | (Inr _, u) \<Rightarrow> top_step f arg u))))"

fun parse_loop :: "'s callback \<Rightarrow> bytes list \<Rightarrow> parse_state \<Rightarrow> ('s, unit) aeff" where
  "parse_loop f [] st s = (case st of Value name \<Rightarrow> f name None s | _ \<Rightarrow> (Inr (), s))"
| "parse_loop f (arg # args) st s =
    (case arg_step f arg st s of (Inl e, t) \<Rightarrow> (Inl e, t) | (Inr st1, t) \<Rightarrow> parse_loop f args st1 t)"

definition parse_arguments :: "bytes list \<Rightarrow> 's callback \<Rightarrow> ('s, unit) aeff" where
  "parse_arguments args f = parse_loop f args Top"

fun match_args :: "Argument list \<Rightarrow> bytes \<Rightarrow> bytes option \<Rightarrow> string option \<Rightarrow> arg_error + string option" where
  "match_args [] name val matches = Inr matches"
| "match_args (a # as) name val matches =
    (let by_short = (case ar_short a of Some c \<Rightarrow> name = [c] | None \<Rightarrow> False)
     in if by_short \<and> (val \<noteq> None) \<noteq> (ar_value a \<noteq> None) then Inl (ExpectedValue name)
        else
          (let m1 = (if by_short then Some (ar_long a) else matches)
           in if m1 = None \<and> ar_long a = name then
                (if val = None \<and> ar_value_mode a = ModeRequired then Inl (ExpectedValue (ar_long a))
                 else if val \<noteq> None \<and> ar_value_mode a = ModeDisallowed then Inl (UnexpectedValue (ar_long a))
                 else match_args as name val (Some (ar_long a)))
              else match_args as name val m1))"

definition checked_call :: "Argument list \<Rightarrow> 's callback \<Rightarrow> 's callback" where
  \<comment> \<open>the closure that \<^verbatim>\<open>set_arguments\<close> parses with\<close>
  "checked_call arg_list f name val s =
    (case match_args arg_list name val None of
       Inl e \<Rightarrow> (Inl e, s)
     | Inr (Some long) \<Rightarrow> f long val s
     | Inr None \<Rightarrow> (Inl (UnknownArgument name), s))"

definition set_arguments :: "bytes list \<Rightarrow> Argument list \<Rightarrow> 's callback \<Rightarrow> ('s, unit) aeff" where
  "set_arguments args arg_list f = parse_arguments args (checked_call arg_list f)"

definition pad_right :: "nat \<Rightarrow> string \<Rightarrow> string" where
  "pad_right w s = s @ replicate (w - length s) CHR '' ''"

definition help_line :: "Argument \<Rightarrow> string" where
  "help_line a =
    (case ar_short a of Some c \<Rightarrow> '' -'' @ [c] @ '', '' | None \<Rightarrow> ''     '')
    @ (if ar_long a = [] then ''  '' else ''--'')
    @ pad_right 12 (ar_long a)
    @ (case ar_value a of
         Some v \<Rightarrow> (if ar_long a = [] then '' '' else ''='') @ pad_right 10 v
       | None \<Rightarrow> pad_right 11 [])
    @ ar_help a @ [newline]"

definition print_help :: "string \<Rightarrow> string \<Rightarrow> Argument list \<Rightarrow> string" where
  "print_help program_name required_arg args =
    ''Usage: '' @ program_name @ '' '' @ (if args = [] then [] else ''[ARGUMENTS] '') @ required_arg @ [newline, newline]
    @ (if args = [] then []
       else ''Argument'' @ (if length args > 1 then ''s'' else []) @ '':'' @ [newline] @ concat (map help_line args))"

section \<open>What a callback is called with\<close>

text \<open>An argument as the constructors make it: flags take no value, values name theirs.\<close>

definition arg_wf :: "Argument \<Rightarrow> bool" where
  "arg_wf a \<longleftrightarrow> (ar_value_mode a = ModeDisallowed \<longleftrightarrow> ar_value a = None)"

lemma arg_wf_constructors:
  "arg_wf (Argument_positional v hlp)" "arg_wf (Argument_value l v hlp)" "arg_wf (Argument_short_value c l v hlp)"
  "arg_wf (Argument_flag l hlp)" "arg_wf (Argument_short_flag c l hlp)" "arg_wf (Argument_flag_or_value l v hlp)"
  by (simp_all add: arg_wf_def Argument_positional_def Argument_value_def Argument_short_value_def Argument_flag_def
      Argument_short_flag_def Argument_flag_or_value_def)

definition valid_call :: "Argument list \<Rightarrow> bytes \<Rightarrow> bytes option \<Rightarrow> bool" where
  "valid_call arg_list name val \<longleftrightarrow> (\<exists>a\<in>set arg_list. ar_long a = name
    \<and> (ar_value_mode a = ModeRequired \<longrightarrow> val \<noteq> None) \<and> (ar_value_mode a = ModeDisallowed \<longrightarrow> val = None))"

lemma match_args_valid:
  assumes "match_args as name val matches = Inr (Some long)" and "\<forall>a\<in>set as. arg_wf a"
    and "set as \<subseteq> set al" and "\<And>l. matches = Some l \<Longrightarrow> valid_call al l val"
  shows "valid_call al long val"
  using assms
proof (induction as arbitrary: matches)
  case (Cons a as)
  let ?by_short = "case ar_short a of Some c \<Rightarrow> name = [c] | None \<Rightarrow> False"
  have wf: "arg_wf a" and al: "a \<in> set al" using Cons.prems by auto
  have step: "match_args as name val m = Inr (Some long) \<Longrightarrow> (\<And>l. m = Some l \<Longrightarrow> valid_call al l val) \<Longrightarrow> valid_call al long val" for m
    using Cons.IH [of m] Cons.prems by auto
  show ?case
  proof (cases ?by_short)
    case True
    with Cons.prems(1) have v: "(val \<noteq> None) = (ar_value a \<noteq> None)"
      and m: "match_args as name val (Some (ar_long a)) = Inr (Some long)"
      by (auto simp: Let_def split: if_splits option.splits)
    have "valid_call al (ar_long a) val"
      using wf al v unfolding valid_call_def arg_wf_def by (cases "ar_value_mode a") auto
    with step [OF m] show ?thesis by simp
  next
    case False
    then show ?thesis
    proof (cases "matches = None \<and> ar_long a = name")
      case True
      with False Cons.prems(1) have m: "match_args as name val (Some (ar_long a)) = Inr (Some long)"
        and v: "val = None \<longrightarrow> ar_value_mode a \<noteq> ModeRequired" "val \<noteq> None \<longrightarrow> ar_value_mode a \<noteq> ModeDisallowed"
        by (auto simp: Let_def split: if_splits option.splits)
      have "valid_call al (ar_long a) val" using al v by (auto simp: valid_call_def)
      with step [OF m] show ?thesis by simp
    next
      case no: False
      with False Cons.prems(1) have "match_args as name val matches = Inr (Some long)"
        by (auto simp: Let_def split: if_splits option.splits)
      with step Cons.prems(4) show ?thesis by blast
    qed
  qed
qed (simp split: option.splits)

text \<open>
  The contract between the parser and a callback: on the calls the parser promises to make,
  the callback keeps an invariant of the caller's state and fails only in expected ways.
\<close>

locale callback =
  fixes f :: "'s callback" and arg_list :: "Argument list" and P :: "'s \<Rightarrow> bool" and E :: "arg_error \<Rightarrow> bool"
  assumes declared: "\<forall>a\<in>set arg_list. arg_wf a"
    and call: "valid_call arg_list name val \<Longrightarrow> P s \<Longrightarrow> f name val s = (r, t) \<Longrightarrow> P t \<and> (\<forall>e. r = Inl e \<longrightarrow> E e)"
    and parser: "E (Syntax m)" "E (UnknownArgument m)" "E (ExpectedValue m)" "E (UnexpectedValue m)"
begin

lemma checked_ok: "checked_call arg_list f name val s = (r, t) \<Longrightarrow> P s \<Longrightarrow> P t \<and> (\<forall>e. r = Inl e \<longrightarrow> E e)"
proof (cases "match_args arg_list name val None")
  case (Inl e)
  assume c: "checked_call arg_list f name val s = (r, t)" and p: "P s"
  have "match_args as name val m = Inl e \<Longrightarrow> E e" for as m
    by (induction as arbitrary: m) (auto simp: Let_def parser split: if_splits option.splits)
  with Inl c p show ?thesis by (auto simp: checked_call_def)
next
  case (Inr z)
  assume c: "checked_call arg_list f name val s = (r, t)" and p: "P s"
  show ?thesis
  proof (cases z)
    case None
    with Inr c p show ?thesis by (auto simp: checked_call_def parser)
  next
    case (Some long)
    with Inr have "valid_call arg_list long val"
      using match_args_valid [of arg_list name val None long arg_list] declared by simp
    with c p Inr Some show ?thesis by (auto simp: checked_call_def dest: call)
  qed
qed

lemma top_step_ok:
  assumes "top_step (checked_call arg_list f) a s = (r, t)" and "P s" and "\<forall>c\<in>set a. \<not> cont_byte c"
  shows "P t \<and> (\<forall>e. r = Inl e \<longrightarrow> E e)"
proof -
  have "length a > 2 \<Longrightarrow> \<not> cont_byte (a ! 2)" using assms(3) by simp
  with assms(1,2) show ?thesis
    by (auto simp: top_step_def after_call_def Let_def parser split: if_splits option.splits prod.splits sum.splits
        arg_error.splits dest!: checked_ok)
qed

lemma arg_step_ok:
  assumes "arg_step (checked_call arg_list f) a st s = (r, t)" and "P s" and "\<forall>c\<in>set a. \<not> cont_byte c"
  shows "P t \<and> (\<forall>e. r = Inl e \<longrightarrow> E e)"
proof (cases st)
  case Top
  with assms show ?thesis by (auto simp: arg_step_def dest: top_step_ok)
next
  case Positional
  with assms show ?thesis
    by (auto simp: arg_step_def after_call_def split: prod.splits sum.splits dest!: checked_ok)
next
  case (Value name)
  obtain r1 t1 where c1: "checked_call arg_list f name None s = (r1, t1)" by fastforce
  obtain r2 t2 where c2: "checked_call arg_list f name (Some a) s = (r2, t2)" by fastforce
  obtain r3 t3 where c3: "checked_call arg_list f name None t2 = (r3, t3)" by fastforce
  have ok: "P t1" "\<And>e. r1 = Inl e \<Longrightarrow> E e" "P t2" "\<And>e. r2 = Inl e \<Longrightarrow> E e" "P t3" "\<And>e. r3 = Inl e \<Longrightarrow> E e"
    using checked_ok [OF c1 assms(2)] checked_ok [OF c2 assms(2)] checked_ok [OF c3] by auto
  from assms(1) Value c1 c2 c3 ok show ?thesis
    by (auto simp: arg_step_def split: if_splits sum.splits dest: top_step_ok [OF _ _ assms(3)])
qed

lemma parse_ok:
  "parse_loop (checked_call arg_list f) args st s = (r, t) \<Longrightarrow> P s \<Longrightarrow> \<forall>a\<in>set args. \<forall>c\<in>set a. \<not> cont_byte c \<Longrightarrow>
    P t \<and> (\<forall>e. r = Inl e \<longrightarrow> E e)"
proof (induction args arbitrary: st s)
  case Nil
  then show ?case by (auto split: parse_state.splits dest: checked_ok)
next
  case (Cons a args)
  obtain r1 t1 where st: "arg_step (checked_call arg_list f) a st s = (r1, t1)" by fastforce
  with Cons.prems have ok: "P t1" "\<And>e. r1 = Inl e \<Longrightarrow> E e" using arg_step_ok [OF st] by auto
  show ?case
  proof (cases r1)
    case (Inl e)
    with Cons.prems(1) st ok show ?thesis by auto
  next
    case (Inr st1)
    with Cons.prems st ok Cons.IH [of st1 t1] show ?thesis by simp
  qed
qed

lemma set_arguments_ok:
  "set_arguments args arg_list f s = (r, t) \<Longrightarrow> P s \<Longrightarrow> \<forall>a\<in>set args. \<forall>c\<in>set a. \<not> cont_byte c \<Longrightarrow>
    P t \<and> (\<forall>e. r = Inl e \<longrightarrow> E e)"
  unfolding set_arguments_def parse_arguments_def by (rule parse_ok)

end

end
