(* ===== verification/Cut_Main.thy ===== *)
theory Cut_Main
  imports Cut_Manifest Argument
begin

text \<open>
  The command line and \<^verbatim>\<open>main\<close> of \<^verbatim>\<open>src/bin/rapido-cut.rs\<close>. Opening the output file and
  the \<^verbatim>\<open>{:?}\<close> text of an I/O error are arguments of the model.
\<close>

section \<open>Arguments\<close>

record ArgsState =
  cpio_output_arg :: "bytes option"
  manifests :: "reader list"

definition MANIFEST_FORMAT :: "bytes list" where
  \<comment> \<open>the lines of the help text\<close>
  "MANIFEST_FORMAT =
    [[], ''Manifest format:'', [], ''# a comment'', ''bin ELF'', ''try-bin ELF'', ''kmod MODULE'', ''try-kmod MODULE'',
     ''dir NAME'', ''file NAME [LOCATION]'', ''autorun LOCATION [LOCATION ...]'', ''tree NAME LOCATION'',
     ''slink NAME TARGET'', ''filter FILTER'', ''include MANIFEST'', [],
     ''ELF:      ELF executable, archived with all needed dependencies.'',
     ''          Directory paths are traversed, with child paths handled as ELFs.'',
     ''MODULE:   Kernel module, archived with dependencies'',
     ''NAME:     Name of the file or directory in the archive'',
     ''LOCATION: Local path to obtain data, user, group, mode etc. for this item'',
     ''FILTER:   Archive path to treat as already processed. Directory traversals'',
     ''          will not go beneath this path.'',
     ''MANIFEST: File containing entries described above. Entries are processed in'',
     ''          order.'']"

definition args_usage :: "Argument list \<Rightarrow> bytes" where
  "args_usage params = print_help ''rapido-cut'' [] params @ concat (map (\<lambda>l. l @ [newline]) MANIFEST_FORMAT)"

definition args_process_one :: "host \<Rightarrow> (fault \<Rightarrow> string) \<Rightarrow> ArgsState callback" where
  "args_process_one h dbg name val st =
    (let v = (case val of Some x \<Rightarrow> x | None \<Rightarrow> []);
         no_value = (Inl (ArgPanic ''called unwrap on a None value''), st)
     in if name = ''output'' then
          (if val = None then no_value else (Inr (), st\<lparr>cpio_output_arg := Some v\<rparr>))
        else if name = ''manifest'' then
          (if val = None then no_value
           else case path_stat h (GManifest v) of
             Inl (Panic m) \<Rightarrow> (Inl (ArgPanic m), st)
           | Inl e \<Rightarrow> (Inl (InvalidValue v (''failed to stat: '' @ dbg e)), st)
           | Inr fs \<Rightarrow>
             (case h_open h (fe_path fs) of
                Inl k \<Rightarrow> (Inl (InvalidValue v (''failed to open: '' @ dbg (IoErr k []))), st)
              | Inr (_, f) \<Rightarrow> (Inr (), st\<lparr>manifests := manifests st @ [f]\<rparr>)))
        else if name = ''help'' then (Inl PrintHelp, st)
        else (Inl (ArgPanic ''internal error: entered unreachable code''), st))"

definition cut_params :: "Argument list" where
  "cut_params =
    [Argument_value ''output'' ''INITRAMFS'' ''Write initramfs archive to this file path.'',
     Argument_value ''manifest'' ''FILE'' ''Manifest file describing initramfs contents'',
     Argument_short_flag CHR ''h'' ''help'' ''Print help message.'']"

definition args_process :: "host \<Rightarrow> (fault \<Rightarrow> string) \<Rightarrow> bytes list \<Rightarrow> arg_error + ArgsState" where
  \<comment> \<open>the arguments after the program name\<close>
  "args_process h dbg args =
    (case set_arguments args cut_params (args_process_one h dbg) \<lparr>cpio_output_arg = None, manifests = []\<rparr> of
       (Inl e, _) \<Rightarrow> Inl e
     | (Inr _, st) \<Rightarrow> Inr st)"

section \<open>Output\<close>

type_synonym out_opener = "bytes \<Rightarrow> error_kind + writer"

definition cpio_out_open :: "out_opener \<Rightarrow> bytes option \<Rightarrow> conf \<Rightarrow> (bytes \<times> writer) res" where
  \<comment> \<open>the path written to, which the source stashes for its last message, and the writer\<close>
  "cpio_out_open out_open args_out conf =
    (case args_out of
       Some p \<Rightarrow> bindR (os (out_open p)) (\<lambda>w. Inr (p, w))
     | None \<Rightarrow>
       (case conf ''DRACUT_OUT'' of
          None \<Rightarrow> Inl (Panic ''called unwrap on a None value'')
        | Some p \<Rightarrow> bindR (os (out_open p)) (\<lambda>w. Inr (p, w))))"

section \<open>Main\<close>

definition cut_props :: ArchiveProperties where
  "cut_props = default_props\<lparr>data_align := 4096\<rparr>"

definition cut_start :: "writer \<Rightarrow> reader list \<Rightarrow> cut" where
  \<comment> \<open>the manifest given last is read first\<close>
  "cut_start w fests =
    \<lparr>cu_cpio = \<lparr>c_state = new_state cut_props, c_out = w\<rparr>, libs_seen = {}, paths_seen = {}, cu_gk = None,
     autorun_idx = 0, cu_fests = rev fests\<rparr>"

definition cut_conf :: "host \<Rightarrow> (conf \<times> (ArchiveMd \<times> reader) option) res" where
  \<comment> \<open>the configuration, and the file it was read from, to be archived\<close>
  "cut_conf h =
    (case host_rapido_conf_open h RAPIDO_CONF_PATH of
       Inl e \<Rightarrow> if err_kind e = Some NotFound then Inr (conf_defaults, None) else Inl e
     | Inr ((cf_md, f), _) \<Rightarrow>
       bindR (ArchiveMd_from (new_state cut_props) cf_md) (\<lambda>cf_amd.
       case kv_conf_process_append f conf_defaults of
         (Inl e, _) \<Rightarrow> Inl e
       | (Inr _, c) \<Rightarrow> Inr (c, Some (cf_amd, f))))"

definition archive_conf :: "(ArchiveMd \<times> reader) option \<Rightarrow> (cut, unit) eff" where
  "archive_conf cf =
    (case cf of
       None \<Rightarrow> on_cpio (archive_path ''/rapido.conf'' CPIO_AMD_DEFAULT)
     | Some (cf_amd, f) \<Rightarrow> on_cpio (archive_file ''/rapido.conf'' cf_amd f))"

definition archive_rc :: "host \<Rightarrow> (cut, unit) eff" where
  "archive_rc h =
    bindE (lift_res (os (h_open h RAPIDO_BASH_RC_PATH))) (\<lambda>(f_md, f).
    bindE (archive_md f_md) (\<lambda>f_amd.
    on_cpio (archive_file ''/rapido.rc'' f_amd f)))"

definition core_elfs :: "GatherEnt list" where
  "core_elfs =
    [GNameDst RAPIDO_INIT_PATH ''/rdinit'', GNameStatic ''mount'', GNameStatic ''setsid'', GNameStatic ''bash'',
     GNameStatic ''stty'', GNameStatic ''modprobe'']"

definition cut_body :: "nat \<Rightarrow> host \<Rightarrow> conf \<Rightarrow> (ArchiveMd \<times> reader) option \<Rightarrow> (cut, u64) eff" where
  \<comment> \<open>everything between opening the output and flushing it\<close>
  "cut_body fuel h conf cf =
    seqE (archive_conf cf) (
    seqE (manifest_parse fuel h conf) (
    seqE (archive_rc h) (
    seqE (gather_archive_elfs fuel h core_elfs) (
    seqE (gather_archive_kmods h conf (conf_kmod_deps conf) False) (
    seqE populate_default_symlinks
    (on_cpio archive_trailer))))))"

definition cut_main :: "nat \<Rightarrow> host \<Rightarrow> (fault \<Rightarrow> string) \<Rightarrow> out_opener \<Rightarrow> bytes list \<Rightarrow> u64 res \<times> (bytes \<times> cut) option" where
  \<comment> \<open>the archive length, and the output path with the final state once it was opened\<close>
  "cut_main fuel h dbg out_open args =
    (case args_process h dbg args of
       Inl PrintHelp \<Rightarrow> (Inr 0, None)
     | Inl (ArgPanic m) \<Rightarrow> (Inl (Panic m), None)
     | Inl e \<Rightarrow> (err_msg InvalidInput (arg_error_text e), None)
     | Inr st \<Rightarrow>
       (case cut_conf h of
          Inl e \<Rightarrow> (Inl e, None)
        | Inr (conf, cf) \<Rightarrow>
          (case cpio_out_open out_open (cpio_output_arg st) conf of
             Inl e \<Rightarrow> (Inl e, None)
           | Inr (out_path, w) \<Rightarrow>
             (case cut_body fuel h conf cf (cut_start (w\<lparr>w_buf := []\<rparr>) (manifests st)) of
                (r, s) \<Rightarrow> (r, Some (out_path, s))))))"

section \<open>The arguments of a run\<close>

definition opened :: "host \<Rightarrow> reader \<Rightarrow> bool" where
  "opened h f \<longleftrightarrow> (\<exists>p md. h_open h p = Inr (md, f))"

lemma path_stat_manifest_panic:
  "path_stat h (GManifest n) = Inl (Panic m) \<Longrightarrow> m = ''absolute failed for good path'' \<and> (\<exists>k. h_cwd h = Inl k)"
  by (auto simp: path_stat_def stat_name_def absolute_def path_absolute_def Let_def bindR_def os_def
      split: if_splits sum.splits option.splits)

interpretation cut_args: callback "args_process_one h dbg" cut_params
  "\<lambda>st. \<forall>f\<in>set (manifests st). opened h f"
  "\<lambda>e. is_arg_panic e \<longrightarrow> e = ArgPanic ''absolute failed for good path'' \<and> (\<exists>k. h_cwd h = Inl k)" for h dbg
proof unfold_locales
  show "\<forall>a\<in>set cut_params. arg_wf a" by (simp add: cut_params_def arg_wf_constructors)
  fix name val s r t
  assume v: "valid_call cut_params name val" and p: "\<forall>f\<in>set (manifests s). opened h f"
    and c: "args_process_one h dbg name val s = (r, t)"
  from v have n: "name = ''output'' \<and> val \<noteq> None \<or> name = ''manifest'' \<and> val \<noteq> None \<or> name = ''help''"
    by (auto simp: valid_call_def cut_params_def Argument_value_def Argument_short_flag_def)
  with c p path_stat_manifest_panic show "(\<forall>f\<in>set (manifests t). opened h f)
      \<and> (\<forall>e. r = Inl e \<longrightarrow> is_arg_panic e \<longrightarrow> e = ArgPanic ''absolute failed for good path'' \<and> (\<exists>k. h_cwd h = Inl k))"
    by (fastforce simp: args_process_one_def Let_def is_arg_panic_def opened_def
        split: sum.splits fault.splits prod.splits option.splits)
qed (simp_all add: is_arg_panic_def)

text \<open>
  C28. Parsing the command line of \<^verbatim>\<open>rapido-cut\<close> never panics on arguments without multi-byte
  characters, except when a relative manifest path exists but the current directory cannot be
  determined: the values the callback unwraps are there, as its comment claims, and no name
  outside the declared ones reaches it. When it succeeds, every manifest is an open file.
\<close>

theorem args_process_safe:
  assumes "\<forall>a\<in>set args. \<forall>c\<in>set a. \<not> cont_byte c"
  shows "case args_process h dbg args of
      Inl e \<Rightarrow> is_arg_panic e \<longrightarrow> e = ArgPanic ''absolute failed for good path'' \<and> (\<exists>k. h_cwd h = Inl k)
    | Inr st \<Rightarrow> \<forall>f\<in>set (manifests st). opened h f"
proof -
  obtain r t where s: "set_arguments args cut_params (args_process_one h dbg) \<lparr>cpio_output_arg = None, manifests = []\<rparr> = (r, t)"
    by fastforce
  from cut_args.set_arguments_ok [OF s] assms s show ?thesis
    by (cases r) (simp_all add: args_process_def)
qed

theorem args_process_safe_witness:
  "case args_process (files_host [(''/m'', ''x'')]) (\<lambda>_. []) [''--manifest'', ''/m''] of
      Inl e \<Rightarrow> False | Inr st \<Rightarrow> manifests st = [(''x'', None)] \<and> (\<forall>f\<in>set (manifests st). opened (files_host [(''/m'', ''x'')]) f)"
proof -
  have r: "args_process (files_host [(''/m'', ''x'')]) (\<lambda>_. []) [''--manifest'', ''/m'']
      = Inr \<lparr>cpio_output_arg = None, manifests = [(''x'', None)]\<rparr>"
    by code_simp
  have "\<forall>a\<in>set [''--manifest'', ''/m'']. \<forall>c\<in>set a. \<not> cont_byte c" by code_simp
  from args_process_safe [OF this, of "files_host [(''/m'', ''x'')]" "\<lambda>_. []"] r show ?thesis by simp
qed

end
