(* ===== verification/Cpio_Archive.thy ===== *)
theory Cpio_Archive
  imports Cpio
begin

text \<open>
  The writing half of the cpio crate is correct: every archiving function appends one
  well-formed newc entry to the output, keeps the running offset equal to the bytes it
  wrote and 4-byte aligned, and hands out consecutive inode numbers. The entry layout
  \<open>entry_bytes\<close> is the abstract specification that the functions refine.
\<close>

section \<open>The abstract archive entry\<close>

record cpio_entry =
  e_ino :: u32
  e_md :: ArchiveMd
  e_name :: bytes
  e_zeros :: nat \<comment> \<open>zeros after the terminator that the name field counts\<close>
  e_data :: bytes

definition zpad4 :: "nat \<Rightarrow> nat" where
  "zpad4 n = (4 - n mod 4) mod 4"

definition e_namesize :: "cpio_entry \<Rightarrow> nat" where
  "e_namesize e = length (e_name e) + 1 + e_zeros e"

definition entry_bytes :: "cpio_entry \<Rightarrow> bytes" where
  "entry_bytes e =
    newc_hdr_fmt (hdr_fields (e_ino e) (e_md e) (length (e_data e)) (e_namesize e))
    @ e_name e @ replicate (1 + e_zeros e) NUL
    @ replicate (zpad4 (NEWC_HDR_LEN + e_namesize e)) NUL
    @ e_data e @ replicate (zpad4 (length (e_data e))) NUL"

definition entry_wf :: "cpio_entry \<Rightarrow> bool" where
  "entry_wf e \<longleftrightarrow> length (e_data e) = unat (md_len (e_md e)) \<and> e_namesize e \<le> PATH_MAX"

section \<open>Fixed-width fields\<close>

text \<open>
  What the header relies on: an encoder of fixed width and a decoder that inverts it.
  Then every field of a sequence is read back from its own chunk.
\<close>

locale field_codec =
  fixes enc :: "nat \<Rightarrow> bytes" and dec :: "bytes \<Rightarrow> 'v res" and val :: "nat \<Rightarrow> 'v"
    and width :: nat and bound :: nat
  assumes enc_length: "n < bound \<Longrightarrow> length (enc n) = width"
    and dec_enc: "n < bound \<Longrightarrow> dec (enc n) = Inr (val n)"
begin

lemma concat_length: "\<forall>n\<in>set ns. n < bound \<Longrightarrow> length (concat (map enc ns)) = width * length ns"
  by (induction ns) (auto simp: enc_length)

lemma chunks:
  assumes "0 < width" and "\<forall>n\<in>set ns. n < bound"
  shows "chunks_exact width (concat (map enc ns)) = map enc ns"
  using assms(2)
proof (induction ns)
  case Nil
  then show ?case using assms(1) by (simp add: chunks_exact.simps)
next
  case (Cons n ns)
  then show ?case using assms(1) by (simp add: chunks_exact.simps [of _ "enc n @ _"] enc_length)
qed

end

lemma fmt_HEX_length:
  assumes "n < 2 ^ 32"
  shows "length (fmt_HEX 8 n) = 8"
proof -
  from assms have "n < 16 ^ Suc 7" by simp
  then have "length (nat_digits 16 n) \<le> Suc 7" by (intro nat_digits_length) simp_all
  then show ?thesis by (simp add: fmt_HEX_def pad0_def)
qed

lemma digit_char_upper_ascii: "d < 16 \<Longrightarrow> byte_in 0 127 (digit_char_upper d)"
  by (simp add: byte_in_def digit_char_upper_def byte_val_char_of)

lemma fmt_HEX_ascii: "c \<in> set (fmt_HEX w n) \<Longrightarrow> byte_in 0 127 c"
  using nat_digits_less [of 16 _ n]
  by (auto simp: fmt_HEX_def pad0_def byte_in_def [of _ _ "CHR ''0''"] byte_val_def [of "CHR ''0''"]
      intro!: digit_char_upper_ascii)

lemma digit_char_upper_not_plus: "d < 16 \<Longrightarrow> digit_char_upper d \<noteq> CHR ''+''"
proof
  assume "d < 16" and "digit_char_upper d = CHR ''+''"
  then have "byte_val (digit_char_upper d) = 43" by (simp add: byte_val_def)
  with \<open>d < 16\<close> show False
    by (simp add: digit_char_upper_def byte_val_char_of split: if_splits)
qed

lemma fmt_HEX_no_plus: "c \<in> set (fmt_HEX w n) \<Longrightarrow> c \<noteq> CHR ''+''"
  using nat_digits_less [of 16 _ n]
  by (auto simp: fmt_HEX_def pad0_def) (metis digit_char_upper_not_plus)

lemma strip_plus_id: "CHR ''+'' \<notin> set s \<Longrightarrow> strip_plus s = s"
  by (auto simp: strip_plus_def split: list.splits)

lemma digit_of_zero: "0 < r \<Longrightarrow> digit_of r CHR ''0'' = Some 0"
  by (simp add: digit_of_def byte_val_def Let_def)

lemma from_str_radix_fmt_HEX:
  assumes "n < 2 ^ bits"
  shows "from_str_radix bits 16 (fmt_HEX w n) = Some n"
proof -
  have "parse_digits 16 0 (fmt_HEX w n) = Some n"
    by (simp add: fmt_HEX_def pad0_def parse_digits_zeros digit_of_zero
        parse_digits_nat_digits digit_of_digit_char_upper)
  moreover have "strip_plus (fmt_HEX w n) = fmt_HEX w n"
    by (rule strip_plus_id) (use fmt_HEX_no_plus in blast)
  ultimately show ?thesis
    using assms by (simp add: from_str_radix_def) (simp add: fmt_HEX_def pad0_def)
qed

lemma hdr_field_fmt_HEX:
  assumes "n < 2 ^ 32"
  shows "hdr_field (fmt_HEX 8 n) = Inr (of_nat n)"
  using assms fmt_HEX_ascii [of _ 8 n]
  by (simp add: hdr_field_def utf8_valid_ascii from_str_radix_fmt_HEX)

interpretation newc: field_codec "fmt_HEX 8" hdr_field of_nat 8 "2 ^ 32"
  by unfold_locales (simp_all add: fmt_HEX_length hdr_field_fmt_HEX)

lemma u32_less: "unat (x :: u32) < 2 ^ 32"
  using unsigned_less [of x] by simp

lemma hdr_fields_bound:
  "filesize < 2 ^ 32 \<Longrightarrow> namesize < 2 ^ 32 \<Longrightarrow> \<forall>n\<in>set (hdr_fields ino md filesize namesize). n < 2 ^ 32"
  using u32_less by (auto simp: hdr_fields_def)

lemma newc_hdr_fmt_length:
  "filesize < 2 ^ 32 \<Longrightarrow> namesize < 2 ^ 32 \<Longrightarrow>
    length (newc_hdr_fmt (hdr_fields ino md filesize namesize)) = NEWC_HDR_LEN"
  using newc.concat_length [OF hdr_fields_bound]
  by (simp add: newc_hdr_fmt_def NEWC_HDR_LEN_def hdr_fields_def)

section \<open>Padding\<close>

lemma unat_and_pow2:
  fixes x :: u64
  shows "unat (x AND (2 ^ k - 1)) = unat x mod 2 ^ k"
proof -
  have "x AND (2 ^ k - 1) = take_bit k x"
    by (simp only: take_bit_eq_mask mask_eq_exp_minus_1)
  then have "unat (x AND (2 ^ k - 1)) = take_bit k (unat x)" by (simp only: unsigned_take_bit_eq)
  then show ?thesis by (simp only: take_bit_eq_mod)
qed
lemma pow2_less: "k < n \<Longrightarrow> (2 :: nat) ^ k < 2 ^ n"
  by (rule power_strict_increasing) simp_all
lemma unat_pow2: "k < 64 \<Longrightarrow> unat (2 ^ k :: u64) = 2 ^ k"
  using unat_of_nat_small [where 'a=64, of "2 ^ k"] pow2_less [of k 64] by simp

text \<open>For a power of two the bit trick computes the distance to the next multiple.\<close>

lemma archive_padlen_pow2:
  assumes "k < 64"
  shows "unat (archive_padlen off (2 ^ k)) = (2 ^ k - unat off mod 2 ^ k) mod 2 ^ k"
proof -
  have le: "off AND (2 ^ k - 1) \<le> 2 ^ k"
    using assms unat_and_pow2 [of off k] unat_pow2 [of k]
    by (simp add: word_le_nat_alt less_imp_le)
  have "unat (archive_padlen off (2 ^ k)) = unat (2 ^ k - (off AND (2 ^ k - 1))) mod unat (2 ^ k :: u64)"
    by (simp only: archive_padlen_def unat_mod)
  also have "\<dots> = (2 ^ k - unat off mod 2 ^ k) mod 2 ^ k"
    by (simp only: unat_sub [OF le] unat_and_pow2 unat_pow2 [OF assms])
  finally show ?thesis .
qed

lemma archive_padlen_4: "unat (archive_padlen off 4) = zpad4 (unat off)"
  using archive_padlen_pow2 [of 2 off] by (simp add: zpad4_def)

lemma zpad4_mod4: "zpad4 (n mod 4) = zpad4 n"
  by (simp add: zpad4_def)

lemma zpad4_less: "zpad4 n < 4"
  by (simp add: zpad4_def)

lemma add_zpad4: "(n + zpad4 n) mod 4 = 0"
proof (cases "n mod 4 = 0")
  case True
  then show ?thesis by (simp add: zpad4_def)
next
  case False
  then have z: "zpad4 n = 4 - n mod 4" by (simp add: zpad4_def)
  have "q * 4 + r + (4 - r) = 4 * (q + 1)" if "r < 4" for q r :: nat
    using that by simp
  from this [of "n mod 4" "n div 4"] have "n + zpad4 n = 4 * (n div 4 + 1)"
    unfolding z by (simp add: div_mult_mod_eq)
  then show ?thesis by simp
qed

lemma unat_add_mod:
  fixes a b :: u64
  assumes "k \<le> 64"
  shows "unat (a + b) mod 2 ^ k = (unat a + unat b) mod 2 ^ k"
proof -
  have "(2 :: nat) ^ k dvd 2 ^ LENGTH(64)" using assms by (intro le_imp_power_dvd) simp
  then show ?thesis by (simp only: unat_word_ariths mod_mod_cancel)
qed

lemma unat_of_nat_mod:
  assumes "k \<le> 64"
  shows "unat (of_nat n :: u64) mod 2 ^ k = n mod 2 ^ k"
proof -
  have "(2 :: nat) ^ k dvd 2 ^ LENGTH(64)" using assms by (intro le_imp_power_dvd) simp
  then show ?thesis by (simp only: unat_of_nat take_bit_eq_mod mod_mod_cancel)
qed

lemma unat_add_of_nat_mod:
  assumes "k \<le> 64"
  shows "unat (a + of_nat n :: u64) mod 2 ^ k = (unat a + n) mod 2 ^ k"
  using unat_add_mod [OF assms, of a "of_nat n"] unat_of_nat_mod [OF assms, of n]
  by (metis mod_add_right_eq)

lemma archive_padlen_4_add:
  assumes "unat a mod 4 = 0"
  shows "archive_padlen (a + of_nat n) 4 = of_nat (zpad4 n)"
proof -
  have "unat (a + of_nat n) mod 4 = n mod 4"
    using assms unat_add_of_nat_mod [of 2 a n] by (simp add: mod_add_eq [symmetric])
  then have "unat (archive_padlen (a + of_nat n) 4) = zpad4 n"
    by (metis archive_padlen_4 zpad4_mod4)
  then show ?thesis by (metis of_nat_unat ucast_id)
qed
section \<open>What the primitive steps write\<close>

text \<open>
  \<open>wrote z k i c c'\<close>: from \<open>c\<close> to \<open>c'\<close> the bytes \<open>z\<close> were appended, the offset
  advanced by \<open>k\<close> and \<open>i\<close> inode numbers were used.
\<close>

definition wrote :: "bytes \<Rightarrow> nat \<Rightarrow> nat \<Rightarrow> cpio \<Rightarrow> cpio \<Rightarrow> bool" where
  "wrote z k i c c' \<longleftrightarrow>
    w_buf (c_out c') = w_buf (c_out c) @ z
    \<and> as_off (c_state c') = as_off (c_state c) + of_nat k
    \<and> as_ino (c_state c') = as_ino (c_state c) + of_nat i
    \<and> as_props (c_state c') = as_props (c_state c)"

lemma wrote_trans:
  "wrote z k i c u \<Longrightarrow> wrote z' k' i' u c' \<Longrightarrow> wrote (z @ z') (k + k') (i + i') c c'"
  by (simp add: wrote_def add.assoc)

lemma wrote_emit: "emit z c = (Inr x, c') \<Longrightarrow> wrote z 0 0 c c'"
  by (auto simp: emit_def write_all_def wrote_def split: option.splits if_splits prod.splits)

lemma wrote_add_off: "add_off (of_nat k) c = (Inr x, c') \<Longrightarrow> wrote [] k 0 c c'"
  by (auto simp: add_off_def wrote_def)

lemma wrote_next_ino: "next_ino c = (Inr n, c') \<Longrightarrow> wrote [] 0 1 c c' \<and> n = as_ino (c_state c)"
  by (auto simp: next_ino_def wrote_def)

lemma emit_add_off:
  "seqE (emit z) (seqE (add_off (of_nat k)) m) c = (Inr x, c') \<Longrightarrow>
    \<exists>u. wrote z k 0 c u \<and> m u = (Inr x, c')"
  using wrote_trans [OF wrote_emit wrote_add_off, of z c _ _ k] by (fastforce simp: seqE_Inr_iff)

lemma emit_add_off_last:
  "seqE (emit z) (add_off (of_nat k)) c = (Inr x, c') \<Longrightarrow> wrote z k 0 c c'"
  using wrote_trans [OF wrote_emit wrote_add_off, of z c _ _ k] by (fastforce simp: seqE_Inr_iff)

lemma wrote_name_pad:
  assumes "emit_name_pad c = (Inr x, c')" and "as_off (c_state c) = a + of_nat n" and "unat a mod 4 = 0"
  shows "wrote (replicate (1 + zpad4 (n + 1)) NUL) (1 + zpad4 (n + 1)) 0 c c'"
proof -
  have pad: "1 + archive_padlen (as_off (c_state c) + 1) 4 = (of_nat (1 + zpad4 (n + 1)) :: u64)"
    using assms(2) archive_padlen_4_add [OF assms(3), of "n + 1"] by (simp add: ac_simps)
  have "unat (of_nat (1 + zpad4 (n + 1)) :: u64) = 1 + zpad4 (n + 1)"
    using zpad4_less [of "n + 1"] by (intro unat_of_nat_small) simp
  with assms(1) pad show ?thesis
    by (auto simp: emit_name_pad_def intro: emit_add_off_last)
qed

lemma take_NULs: "n < 4 \<Longrightarrow> take n [NUL, NUL, NUL] = replicate n NUL"
  by (auto simp: less_Suc_eq numeral_eq_Suc)

lemma wrote_data_pad:
  assumes "emit_data_pad c = (Inr x, c')" and "as_off (c_state c) = a + of_nat n" and "unat a mod 4 = 0"
  shows "wrote (replicate (zpad4 n) NUL) (zpad4 n) 0 c c'"
proof -
  have pad: "archive_padlen (as_off (c_state c)) 4 = (of_nat (zpad4 n) :: u64)"
    using assms(2) archive_padlen_4_add [OF assms(3), of n] by simp
  have u: "unat (of_nat (zpad4 n) :: u64) = zpad4 n"
    using zpad4_less [of n] by (intro unat_of_nat_small) simp
  from assms(1) show ?thesis
    unfolding emit_data_pad_def
    by (auto simp: pad u take_NULs [OF zpad4_less] intro: emit_add_off_last)
qed

section \<open>Every archiving function appends one entry\<close>

definition arch_name :: "bytes \<Rightarrow> bytes" where
  "arch_name path = (case path_trim_prefixes path of Inr f \<Rightarrow> f | Inl _ \<Rightarrow> [])"

definition path_entry :: "bytes \<Rightarrow> ArchiveMd \<Rightarrow> ArchiveState \<Rightarrow> cpio_entry" where
  "path_entry path md st =
    \<lparr>e_ino = as_ino st, e_md = md\<lparr>md_len := 0\<rparr>, e_name = arch_name path, e_zeros = 0, e_data = []\<rparr>"

definition symlink_entry :: "bytes \<Rightarrow> ArchiveMd \<Rightarrow> bytes \<Rightarrow> ArchiveState \<Rightarrow> cpio_entry" where
  "symlink_entry path md tgt st =
    \<lparr>e_ino = as_ino st, e_md = md\<lparr>md_len := of_nat (length tgt)\<rparr>, e_name = arch_name path,
     e_zeros = 0, e_data = tgt\<rparr>"

definition file_entry :: "bytes \<Rightarrow> ArchiveMd \<Rightarrow> reader \<Rightarrow> ArchiveState \<Rightarrow> cpio_entry" where
  "file_entry path md rd st =
    \<lparr>e_ino = as_ino st, e_md = md, e_name = arch_name path,
     e_zeros = unat (data_align_seek st (arch_name path) md),
     e_data = (if md_len md > 0 then fst rd else [])\<rparr>"

lemma path_trim_prefixes_length: "path_trim_prefixes p = Inr f \<Longrightarrow> length f + 1 < PATH_MAX"
  by (auto simp: path_trim_prefixes_def Let_def split: if_splits)

lemma entry_bytes_length:
  assumes "entry_wf e"
  shows "length (entry_bytes e) =
    NEWC_HDR_LEN + e_namesize e + zpad4 (NEWC_HDR_LEN + e_namesize e)
      + (length (e_data e) + zpad4 (length (e_data e)))"
proof -
  have "length (e_data e) < 2 ^ 32" and "e_namesize e < 2 ^ 32"
    using assms u32_less [of "md_len (e_md e)"] by (auto simp: entry_wf_def PATH_MAX_def)
  then show ?thesis by (simp add: entry_bytes_def newc_hdr_fmt_length e_namesize_def)
qed

lemma mod4_add: "m mod 4 = 0 \<Longrightarrow> n mod 4 = 0 \<Longrightarrow> (m + n) mod 4 = (0 :: nat)"
  by (simp add: mod_eq_0_iff_dvd)

lemma entry_bytes_aligned: "entry_wf e \<Longrightarrow> length (entry_bytes e) mod 4 = 0"
  by (simp only: entry_bytes_length mod4_add add_zpad4)

text \<open>
  The contract every archiving function offers its callers: on success, from an aligned
  offset, exactly one well-formed entry is appended, the offset counts its bytes and
  one inode number is used. The offset stays aligned.
\<close>

definition ready :: "cpio \<Rightarrow> bool" where
  "ready c \<longleftrightarrow> unat (as_off (c_state c)) mod 4 = 0
    \<and> unat (namesize_max (as_props (c_state c))) \<le> PATH_MAX"

lemma wrote_ready:
  assumes "wrote z k i c c'" and "ready c" and "k mod 4 = 0"
  shows "ready c'"
  using assms unat_add_of_nat_mod [of 2 "as_off (c_state c)" k]
  by (simp add: wrote_def ready_def mod_add_eq [symmetric])

text \<open>The output holds \<open>base\<close>, then exactly the entries \<open>es\<close>, and the offset counts them.\<close>

definition holds :: "bytes \<Rightarrow> cpio_entry list \<Rightarrow> cpio \<Rightarrow> bool" where
  "holds base es c \<longleftrightarrow> ready c
    \<and> w_buf (c_out c) = base @ concat (map entry_bytes es)
    \<and> as_off (c_state c) = of_nat (length (concat (map entry_bytes es)))
    \<and> list_all entry_wf es"

locale archiver =
  fixes op :: "(cpio, unit) eff" and ent :: "ArchiveState \<Rightarrow> cpio_entry"
  assumes appends: "op c = (Inr (), c') \<Longrightarrow> ready c \<Longrightarrow>
      wrote (entry_bytes (ent (c_state c))) (length (entry_bytes (ent (c_state c)))) 1 c c'"
    and writes_wf: "op c = (Inr (), c') \<Longrightarrow> ready c \<Longrightarrow> entry_wf (ent (c_state c))"
begin

lemma stays_ready:
  assumes "op c = (Inr (), c')" and "ready c"
  shows "ready c'"
  using wrote_ready [OF appends [OF assms] assms(2)] entry_bytes_aligned [OF writes_wf [OF assms]]
  by blast

lemma extends_archive:
  assumes "op c = (Inr (), c')" and "holds base es c"
  shows "holds base (es @ [ent (c_state c)]) c'"
proof -
  have "ready c" using assms(2) by (simp add: holds_def)
  with assms show ?thesis
    using appends [of c c'] writes_wf [of c c'] stays_ready [of c c']
    by (simp add: holds_def wrote_def)
qed

lemma props_kept:
  "op c = (Inr (), c') \<Longrightarrow> ready c \<Longrightarrow> as_props (c_state c') = as_props (c_state c)"
  using appends by (simp add: wrote_def)

lemma ino_next:
  "op c = (Inr (), c') \<Longrightarrow> ready c \<Longrightarrow> as_ino (c_state c') = as_ino (c_state c) + 1"
  using appends by (simp add: wrote_def)

end

lemma wrote_head:
  assumes "bindE next_ino (\<lambda>ino. seqE (emit (hdr ino)) (seqE (add_off (of_nat NEWC_HDR_LEN))
     (seqE (emit fname) (seqE (add_off (of_nat (length fname))) m)))) c = (Inr x, c')"
  obtains u where "wrote (hdr (as_ino (c_state c)) @ fname) (NEWC_HDR_LEN + length fname) 1 c u"
    and "m u = (Inr x, c')"
proof -
  from assms obtain ino u0 u1 u2 where ino: "next_ino c = (Inr ino, u0)"
    and hdr: "wrote (hdr ino) NEWC_HDR_LEN 0 u0 u1" and nm: "wrote fname (length fname) 0 u1 u2"
    and m: "m u2 = (Inr x, c')"
    by (fastforce simp: bindE_Inr_iff dest!: emit_add_off)
  from wrote_trans [OF wrote_trans [OF wrote_next_ino [OF ino, THEN conjunct1] hdr] nm]
  show ?thesis using wrote_next_ino [OF ino] m by (intro that) simp_all
qed

lemma wrote_data:
  assumes "seqE (emit d) (seqE (add_off (of_nat (length d))) emit_data_pad) c = (Inr x, c')"
    and "unat (as_off (c_state c)) mod 4 = 0"
  shows "wrote (d @ replicate (zpad4 (length d)) NUL) (length d + zpad4 (length d)) 0 c c'"
proof -
  from emit_add_off [OF assms(1)] obtain u where w: "wrote d (length d) 0 c u"
    and pad: "emit_data_pad u = (Inr x, c')" by blast
  from w have "as_off (c_state u) = as_off (c_state c) + of_nat (length d)"
    by (simp add: wrote_def)
  from wrote_trans [OF w wrote_data_pad [OF pad this assms(2)]] show ?thesis by simp
qed

lemma wrote_offset_mod4:
  assumes "wrote z k i c u" and "ready c" and "k mod 4 = 0"
  shows "unat (as_off (c_state u)) mod 4 = 0"
  using wrote_ready [OF assms] by (simp add: ready_def)

lemma wrote_name_field:
  assumes "emit_name_pad u = (Inr x, u')" and "wrote z (NEWC_HDR_LEN + n) i c u" and "ready c"
  shows "wrote (replicate (1 + zpad4 (NEWC_HDR_LEN + (n + 1))) NUL)
    (1 + zpad4 (NEWC_HDR_LEN + (n + 1))) 0 u u'"
proof -
  have "as_off (c_state u) = as_off (c_state c) + of_nat (NEWC_HDR_LEN + n)"
    using assms(2) by (simp add: wrote_def)
  from wrote_name_pad [OF assms(1) this] assms(3) show ?thesis by (simp add: ready_def add.assoc)
qed

lemma archive_path_appends:
  assumes "archive_path path md c = (Inr (), c')" and "ready c"
  shows "entry_wf (path_entry path md (c_state c)) \<and>
    wrote (entry_bytes (path_entry path md (c_state c)))
      (length (entry_bytes (path_entry path md (c_state c)))) 1 c c'"
proof -
  let ?e = "path_entry path md (c_state c)"
  from assms(1) obtain fname u where f: "path_trim_prefixes path = Inr fname"
    and hd: "wrote (newc_hdr_fmt (hdr_fields (as_ino (c_state c)) md 0 (length fname + 1)) @ fname)
               (NEWC_HDR_LEN + length fname) 1 c u"
    and pad: "emit_name_pad u = (Inr (), c')"
    by (auto simp: archive_path_def bindE_Inr_iff [of "lift_res _"] split: if_splits elim!: wrote_head)
  have name: "arch_name path = fname" using f by (simp add: arch_name_def)
  have wf: "entry_wf ?e"
    using path_trim_prefixes_length [OF f] by (simp add: path_entry_def entry_wf_def e_namesize_def name)
  from wrote_trans [OF hd wrote_name_field [OF pad hd assms(2)]] wf show ?thesis
    by (simp add: entry_bytes_length [OF wf])
      (simp add: entry_bytes_def path_entry_def e_namesize_def name hdr_fields_def zpad4_def add.assoc)
qed

lemma archive_symlink_appends:
  assumes "archive_symlink path md tgt c = (Inr (), c')" and "ready c"
  shows "entry_wf (symlink_entry path md tgt (c_state c)) \<and>
    wrote (entry_bytes (symlink_entry path md tgt (c_state c)))
      (length (entry_bytes (symlink_entry path md tgt (c_state c)))) 1 c c'"
proof -
  let ?e = "symlink_entry path md tgt (c_state c)"
  from assms(1) obtain fname u u' where f: "path_trim_prefixes path = Inr fname"
    and len: "length tgt < PATH_MAX"
    and hd: "wrote (newc_hdr_fmt (hdr_fields (as_ino (c_state c)) md (length tgt) (length fname + 1)) @ fname)
               (NEWC_HDR_LEN + length fname) 1 c u"
    and pad: "emit_name_pad u = (Inr (), u')"
    and dat: "seqE (emit tgt) (seqE (add_off (of_nat (length tgt))) emit_data_pad) u' = (Inr (), c')"
    by (auto simp: archive_symlink_def bindE_Inr_iff [of "lift_res _"] seqE_Inr_iff [of emit_name_pad]
        not_le split: if_splits elim!: wrote_head)
  have name: "arch_name path = fname" using f by (simp add: arch_name_def)
  have wf: "entry_wf ?e"
    using path_trim_prefixes_length [OF f] len
    by (simp add: symlink_entry_def entry_wf_def e_namesize_def name PATH_MAX_def unat_of_nat_small)
  note w = wrote_trans [OF hd wrote_name_field [OF pad hd assms(2)]]
  have "unat (as_off (c_state u')) mod 4 = 0"
    using add_zpad4 [of "NEWC_HDR_LEN + (length fname + 1)"]
    by (intro wrote_offset_mod4 [OF w assms(2)]) (simp add: add.assoc)
  from wrote_trans [OF w wrote_data [OF dat this]] wf show ?thesis
    by (simp add: entry_bytes_length [OF wf])
      (simp add: entry_bytes_def symlink_entry_def e_namesize_def name hdr_fields_def zpad4_def add.assoc)
qed


lemma unat_ucast_u32: "unat (ucast (x :: u32) :: u64) = unat x"
  using u32_less [of x] by (simp add: unsigned_ucast_eq take_bit_eq_mod)

lemma unat_ucast_u64: "unat (x :: u64) < 2 ^ 32 \<Longrightarrow> unat (ucast x :: u32) = unat x"
  by (simp add: unsigned_ucast_eq take_bit_eq_mod)

lemma archive_padlen_less: "0 < a \<Longrightarrow> archive_padlen off a < a"
  by (simp add: archive_padlen_def word_mod_less_divisor)

lemma data_align_seek_bound:
  assumes "length fname + 1 < PATH_MAX" and "unat (namesize_max (as_props st)) \<le> PATH_MAX"
  shows "length fname + 1 + unat (data_align_seek st fname md) \<le> PATH_MAX"
proof (cases "data_align_seek st fname md = 0")
  case True
  with assms show ?thesis by simp
next
  case False
  define da where "da = data_align (as_props st)"
  define len where "len = archive_padlen
      (initial_data_off (as_props st) + as_off st + of_nat NEWC_HDR_LEN + of_nat (length fname) + 1) (ucast da)"
  from False have das: "data_align_seek st fname md = ucast len" and "0 < da"
    and le: "len + of_nat (length fname) + 1 \<le> ucast (namesize_max (as_props st))"
    by (auto simp: data_align_seek_def Let_def len_def da_def not_less split: if_splits)
  from \<open>0 < da\<close> have "len < ucast da"
    unfolding len_def by (intro archive_padlen_less) (simp add: word_less_nat_alt unat_ucast_u32)
  then have small: "unat len < 2 ^ 32"
    using u32_less [of da] by (simp add: word_less_nat_alt unat_ucast_u32)
  have "unat (len + of_nat (length fname) + 1) = unat len + length fname + 1"
  proof -
    have "unat (of_nat (length fname) :: u64) = length fname"
      using assms(1) by (intro unat_of_nat_small) (simp add: PATH_MAX_def)
    then show ?thesis
      using small assms(1) by (simp add: unat_word_ariths PATH_MAX_def)
  qed
  with le assms(2) have "unat len + length fname + 1 \<le> PATH_MAX"
    by (simp add: word_le_nat_alt unat_ucast_u32)
  moreover have "unat (ucast len :: u32) = unat len"
    using small by (rule unat_ucast_u64)
  ultimately show ?thesis by (simp add: das)
qed

lemma wrote_name_zeros:
  assumes "name_zeros das u = (Inr (), u')" and w: "wrote z (NEWC_HDR_LEN + n) i c u" and "ready c"
  shows "wrote (replicate (1 + unat das) NUL @ replicate (zpad4 (NEWC_HDR_LEN + (n + 1 + unat das))) NUL)
    (1 + unat das + zpad4 (NEWC_HDR_LEN + (n + 1 + unat das))) 0 u u'"
proof (cases "das > 0")
  case False
  then have "das = 0" by (simp add: word_gt_0)
  with assms show ?thesis
    using wrote_name_field [of u "()" u' z n i c] by (simp add: name_zeros_def)
next
  case True
  let ?k = "NEWC_HDR_LEN + (n + 1 + unat das)"
  have u: "(1 + ucast das :: u64) = of_nat (1 + unat das)" by simp
  have o1: "as_off (c_state u) + (1 + ucast das) = as_off (c_state c) + of_nat ?k"
    using w by (simp add: wrote_def ac_simps)
  from assms(1) True have pad: "archive_padlen (as_off (c_state c) + of_nat ?k) 4 = 0"
    and e: "seqE (emit (replicate (1 + unat das) NUL)) (add_off (1 + ucast das)) u = (Inr (), u')"
    unfolding o1 [symmetric] by (auto simp: name_zeros_def bindE_def split: if_splits)
  have "archive_padlen (as_off (c_state c) + of_nat ?k) 4 = of_nat (zpad4 ?k)"
    using assms(3) by (intro archive_padlen_4_add) (simp add: ready_def)
  then have "unat (of_nat (zpad4 ?k) :: u64) = 0" using pad by simp
  then have "zpad4 ?k = 0" using zpad4_less [of ?k] by (simp add: unat_of_nat_small)
  with emit_add_off_last [OF e [unfolded u]] show ?thesis by simp
qed

lemma io_copy_data:
  assumes "bindE (io_copy rd) (\<lambda>copied. if copied \<noteq> unat len then throw e
      else seqE (add_off (ucast len)) emit_data_pad) c = (Inr x, c')"
  shows "length (fst rd) = unat len \<and>
    seqE (emit (fst rd)) (seqE (add_off (of_nat (length (fst rd)))) emit_data_pad) c = (Inr x, c')"
proof -
  have "(ucast len :: u64) = of_nat (unat len)" by simp
  with assms show ?thesis
    by (auto simp: io_copy_def bindE_Inr_iff seqE_Inr_iff split: option.splits if_splits)
qed

lemma archive_file_appends:
  assumes "archive_file path md rd c = (Inr (), c')" and "ready c"
  shows "entry_wf (file_entry path md rd (c_state c)) \<and>
    wrote (entry_bytes (file_entry path md rd (c_state c)))
      (length (entry_bytes (file_entry path md rd (c_state c)))) 1 c c'"
proof -
  let ?e = "file_entry path md rd (c_state c)"
  let ?das = "data_align_seek (c_state c) (arch_name path) md"
  let ?data = "if md_len md > 0 then fst rd else []"
  from assms(1) obtain fname u u' where f: "path_trim_prefixes path = Inr fname"
    and hd: "wrote (newc_hdr_fmt (hdr_fields (as_ino (c_state c)) md (unat (md_len md))
                 (length fname + 1 + unat (data_align_seek (c_state c) fname md))) @ fname)
               (NEWC_HDR_LEN + length fname) 1 c u"
    and nz: "name_zeros (data_align_seek (c_state c) fname md) u = (Inr (), u')"
    and dat: "(if md_len md > 0 then bindE (io_copy rd) (\<lambda>copied.
        if copied \<noteq> unat (md_len md) then throw (IoErr UnexpectedEof ''copy returned unexpected length'')
        else seqE (add_off (ucast (md_len md))) emit_data_pad) else ret ()) u' = (Inr (), c')"
    by (auto simp: archive_file_def bindE_Inr_iff [of "lift_res _"] bindE_Inr_iff [of "getE _"]
        seqE_Inr_iff [of "name_zeros _"] simp del: split_paired_Ex split: if_splits elim!: wrote_head)
  have name: "arch_name path = fname" using f by (simp add: arch_name_def)
  note w = wrote_trans [OF hd wrote_name_zeros [OF nz hd assms(2)]]
  have "unat (as_off (c_state u')) mod 4 = 0"
    using add_zpad4 [of "NEWC_HDR_LEN + (length fname + 1 + unat ?das)"]
    by (intro wrote_offset_mod4 [OF w assms(2)]) (simp add: add.assoc name)
  note dw = wrote_data [OF _ this]
  have d: "length ?data = unat (md_len md) \<and>
    wrote (?data @ replicate (zpad4 (length ?data)) NUL) (length ?data + zpad4 (length ?data)) 0 u' c'"
  proof (cases "md_len md > 0")
    case True
    with dat have cp: "length (fst rd) = unat (md_len md) \<and>
      seqE (emit (fst rd)) (seqE (add_off (of_nat (length (fst rd)))) emit_data_pad) u' = (Inr (), c')"
      by (intro io_copy_data) simp
    from dw [OF cp [THEN conjunct2]] True cp show ?thesis by simp
  next
    case False
    with dat show ?thesis by (simp add: word_gt_0 zpad4_def wrote_def)
  qed
  have wf: "entry_wf ?e"
    using d data_align_seek_bound [OF path_trim_prefixes_length [OF f], of "c_state c" md] assms(2)
    by (simp add: file_entry_def entry_wf_def e_namesize_def name ready_def)
  from wrote_trans [OF w d [THEN conjunct2]] wf d [THEN conjunct1] show ?thesis
    by (simp add: entry_bytes_length [OF wf])
      (simp add: entry_bytes_def file_entry_def e_namesize_def name hdr_fields_def add.assoc)
qed

interpretation path_archiver: archiver "archive_path path md" "path_entry path md" for path md
  by unfold_locales (use archive_path_appends in blast)+

interpretation symlink_archiver: archiver "archive_symlink path md tgt" "symlink_entry path md tgt"
  for path md tgt
  by unfold_locales (use archive_symlink_appends in blast)+

interpretation file_archiver: archiver "archive_file path md rd" "file_entry path md rd"
  for path md rd
  by unfold_locales (use archive_file_appends in blast)+

section \<open>Sequences of archiving operations\<close>

datatype archive_op =
    ArchivePath bytes ArchiveMd
  | ArchiveSymlink bytes ArchiveMd bytes
  | ArchiveFile bytes ArchiveMd reader

fun run_op :: "archive_op \<Rightarrow> (cpio, unit) eff" where
  "run_op (ArchivePath p md) = archive_path p md"
| "run_op (ArchiveSymlink p md tgt) = archive_symlink p md tgt"
| "run_op (ArchiveFile p md rd) = archive_file p md rd"

fun op_entry :: "archive_op \<Rightarrow> ArchiveState \<Rightarrow> cpio_entry" where
  "op_entry (ArchivePath p md) = path_entry p md"
| "op_entry (ArchiveSymlink p md tgt) = symlink_entry p md tgt"
| "op_entry (ArchiveFile p md rd) = file_entry p md rd"

text \<open>The part of an entry that does not depend on the archive written before it.\<close>

fun op_path :: "archive_op \<Rightarrow> bytes" where
  "op_path (ArchivePath p md) = p"
| "op_path (ArchiveSymlink p md tgt) = p"
| "op_path (ArchiveFile p md rd) = p"

fun op_md :: "archive_op \<Rightarrow> ArchiveMd" where
  "op_md (ArchivePath p md) = md\<lparr>md_len := 0\<rparr>"
| "op_md (ArchiveSymlink p md tgt) = md\<lparr>md_len := of_nat (length tgt)\<rparr>"
| "op_md (ArchiveFile p md rd) = md"

fun op_data :: "archive_op \<Rightarrow> bytes" where
  "op_data (ArchivePath p md) = []"
| "op_data (ArchiveSymlink p md tgt) = tgt"
| "op_data (ArchiveFile p md rd) = (if md_len md > 0 then fst rd else [])"

lemma op_entry_fields:
  "e_md (op_entry x st) = op_md x"
  "e_name (op_entry x st) = arch_name (op_path x)"
  "e_data (op_entry x st) = op_data x"
  "e_ino (op_entry x st) = as_ino st"
  by (cases x; simp add: path_entry_def symlink_entry_def file_entry_def)+

interpretation op_archiver: archiver "run_op x" "op_entry x" for x
proof unfold_locales
  show "wrote (entry_bytes (op_entry x (c_state c))) (length (entry_bytes (op_entry x (c_state c)))) 1 c c'"
    if "run_op x c = (Inr (), c')" and "ready c" for c c'
    using that path_archiver.appends symlink_archiver.appends file_archiver.appends
    by (cases x) simp_all
  show "entry_wf (op_entry x (c_state c))" if "run_op x c = (Inr (), c')" and "ready c" for c c'
    using that by (cases x) (simp_all add: path_archiver.writes_wf symlink_archiver.writes_wf file_archiver.writes_wf)
qed

end
