(* ===== verification/Cpio_Total.thy ===== *)
theory Cpio_Total
  imports Cpio_Archive
begin

text \<open>
  What the archiving functions do on every outcome: on a device with room they succeed
  for every valid request and never trip the alignment assertion; a request they refuse
  changes nothing; file data is placed on the requested alignment; and the metadata of a
  device node carries its device number.
\<close>

section \<open>Archiving succeeds\<close>

lemma and_pred_mod4:
  fixes off a :: u64
  assumes "unat a mod 4 = 0" and "0 < unat a"
  shows "unat (off AND (a - 1)) mod 4 = unat off mod 4"
proof -
  have "unat (a - 1) = unat a - 1" using assms(2) by (simp add: unat_sub_if_size)
  moreover have "(n - 1) mod 4 = 3" if "n mod 4 = 0" "0 < n" for n :: nat
  proof -
    from that obtain k where "n = 4 * k" "0 < k" by (auto simp: mod_eq_0_iff_dvd elim!: dvdE)
    then have "n - 1 = 3 + (k - 1) * 4" by simp
    then show ?thesis by (simp only: mod_mult_self1)  simp
  qed
  ultimately have "unat (a - 1) mod 4 = 3" using assms by simp
  then have "take_bit 2 (unat (a - 1)) = mask 2"
    by (simp add: take_bit_eq_mod mask_eq_exp_minus_1)
  then have "take_bit 2 (unat (off AND (a - 1))) = take_bit 2 (unat off)"
    by (simp add: unsigned_and_eq) (simp add: take_bit_eq_mask)
  then show ?thesis by (simp add: take_bit_eq_mod)
qed

text \<open>
  The alignment computed for a multiple of 4 always ends on a multiple of 4, even where
  the bit trick does not reach the alignment asked for.
\<close>

lemma archive_padlen_mod4:
  assumes "unat a mod 4 = 0" and "0 < a"
  shows "(unat off + unat (archive_padlen off a)) mod 4 = 0"
proof -
  let ?x = "off AND (a - 1)"
  have "0 < unat a" using assms(2) by (simp add: word_less_nat_alt)
  then have "a - 1 \<le> a" by (simp add: word_le_nat_alt unat_sub_if_size word_size)
  with word_and_le1 have "?x \<le> a" by (rule order_trans)
  then have "unat (archive_padlen off a) = (unat a - unat ?x) mod unat a"
    by (simp only: archive_padlen_def unat_mod unat_sub)
  then have "unat (archive_padlen off a) mod 4 = (unat a - unat ?x) mod 4"
    using assms(1) by (simp add: mod_mod_cancel mod_eq_0_iff_dvd)
  moreover have "unat ?x \<le> unat a" using \<open>?x \<le> a\<close> by (simp add: word_le_nat_alt)
  moreover have "unat ?x mod 4 = unat off mod 4"
    using assms(1) \<open>0 < unat a\<close> by (rule and_pred_mod4)
  then have "(unat off + (unat a - unat ?x)) mod 4 = (unat ?x + (unat a - unat ?x)) mod 4"
    by (intro mod_add_cong) simp_all
  ultimately show ?thesis using assms(1) by (metis le_add_diff_inverse mod_add_right_eq)
qed

lemma data_align_seek_aligned:
  assumes "unat (as_off st) mod 4 = 0" and "unat (initial_data_off (as_props st)) mod 4 = 0"
    and "unat (data_align (as_props st)) mod 4 = 0"
    and das: "data_align_seek st fname md = das" "0 < das"
  shows "archive_padlen (as_off st + of_nat NEWC_HDR_LEN + of_nat (length fname) + (1 + ucast das)) 4 = 0"
proof -
  define da where "da = data_align (as_props st)"
  define o0 where "o0 = as_off st + of_nat NEWC_HDR_LEN + of_nat (length fname) + 1"
  define len where "len = archive_padlen (initial_data_off (as_props st) + o0) (ucast da)"
  from das have "das = ucast len" and "0 < da"
    by (auto simp: data_align_seek_def Let_def len_def da_def o0_def add.assoc split: if_splits)
  moreover have da: "unat (ucast da :: u64) mod 4 = 0" "0 < (ucast da :: u64)"
    using assms(3) \<open>0 < da\<close> by (simp_all add: da_def unat_ucast_u32 word_less_nat_alt)
  moreover have "unat len < 2 ^ 32"
    using archive_padlen_less [OF da(2), of "initial_data_off (as_props st) + o0"] u32_less [of da]
    by (simp add: len_def word_less_nat_alt unat_ucast_u32)
  ultimately have len_eq: "unat (ucast das :: u64) = unat len"
    by (simp add: unat_ucast_u32 unat_ucast_u64)
  have "(unat (initial_data_off (as_props st) + o0) + unat len) mod 4 = 0"
    using archive_padlen_mod4 [OF da] by (simp add: len_def)
  moreover have "unat (initial_data_off (as_props st) + o0) mod 4 = unat o0 mod 4"
    using unat_add_mod [of 2 "initial_data_off (as_props st)" o0] assms(2)
    by (simp add: mod_add_eq [symmetric, of "unat (initial_data_off (as_props st))"])
  moreover have "unat (o0 + ucast das) mod 4 = (unat o0 + unat len) mod 4"
    using unat_add_mod [of 2 o0 "ucast das"] len_eq by simp
  ultimately have "unat (o0 + ucast das) mod 4 = 0" by (metis mod_add_left_eq)
  then have "unat (archive_padlen (o0 + ucast das) 4) = 0"
    by (simp add: archive_padlen_4 zpad4_def)
  then have "archive_padlen (o0 + ucast das) 4 = 0" by (simp only: unsigned_eq_0_iff)
  then show ?thesis by (simp add: o0_def add.assoc)
qed

text \<open>A device with room for everything.\<close>

abbreviation free :: "cpio \<Rightarrow> bool" where
  "free c \<equiv> w_room (c_out c) = None"

lemma emit_free [simp]:
  "free c \<Longrightarrow> emit z c = (Inr (), c\<lparr>c_out := (c_out c)\<lparr>w_buf := w_buf (c_out c) @ z\<rparr>\<rparr>)"
  by (simp add: emit_def write_all_def)

fun op_ok :: "archive_op \<Rightarrow> bool" where
  "op_ok (ArchivePath p md) \<longleftrightarrow> md_mode md AND S_IFMT \<noteq> S_IFLNK
    \<and> (md_mode md AND S_IFMT = S_IFREG \<longrightarrow> md_len md = 0)"
| "op_ok (ArchiveSymlink p md tgt) \<longleftrightarrow> md_mode md AND S_IFMT = S_IFLNK \<and> length tgt < PATH_MAX"
| "op_ok (ArchiveFile p md rd) \<longleftrightarrow> md_mode md AND S_IFMT = S_IFREG
    \<and> (md_len md > 0 \<longrightarrow> snd rd = None \<and> length (fst rd) = unat (md_len md))"

definition props_aligned :: "ArchiveProperties \<Rightarrow> bool" where
  "props_aligned props \<longleftrightarrow> unat (initial_data_off props) mod 4 = 0 \<and> unat (data_align props) mod 4 = 0
    \<and> unat (namesize_max props) \<le> PATH_MAX"

lemmas step_simps = add_off_def next_ino_def emit_name_pad_def emit_data_pad_def

lemma name_zeros_free:
  assumes "free c" and "0 < das \<Longrightarrow> archive_padlen (as_off (c_state c) + (1 + ucast das)) 4 = 0"
  shows "\<exists>c'. name_zeros das c = (Inr (), c') \<and> free c'"
  using assms by (simp add: name_zeros_def step_simps)

lemma archive_file_free:
  assumes "free c" and "ready c" and "props_aligned (as_props (c_state c))" and "op_ok (ArchiveFile p md rd)"
    and "path_trim_prefixes p = Inr f"
  shows "\<exists>c'. archive_file p md rd c = (Inr (), c') \<and> free c'"
proof -
  let ?das = "data_align_seek (c_state c) f md"
  define u where "u = c\<lparr>c_out := (c_out c)\<lparr>w_buf := w_buf (c_out c)
      @ newc_hdr_fmt (hdr_fields (as_ino (c_state c)) md (unat (md_len md)) (length f + 1 + unat ?das)) @ f\<rparr>,
    c_state := (c_state c)\<lparr>as_ino := as_ino (c_state c) + 1,
      as_off := as_off (c_state c) + of_nat NEWC_HDR_LEN + of_nat (length f)\<rparr>\<rparr>"
  have "\<exists>c'. name_zeros ?das u = (Inr (), c') \<and> free c'"
    using assms data_align_seek_aligned [of "c_state c" f md ?das]
    by (intro name_zeros_free) (simp_all add: u_def ready_def props_aligned_def)
  then obtain u' where u': "name_zeros ?das u = (Inr (), u')" "free u'" by blast
  let ?rest = "if md_len md > 0 then
        bindE (io_copy rd) (\<lambda>copied.
        if copied \<noteq> unat (md_len md)
        then throw (IoErr UnexpectedEof ''copy returned unexpected length'')
        else seqE (add_off (ucast (md_len md))) emit_data_pad)
      else ret ()"
  have "archive_file p md rd c = ?rest u'"
    using assms u' by (simp add: archive_file_def step_simps u_def)
  moreover have "\<exists>c'. ?rest u' = (Inr (), c') \<and> free c'"
    using assms(4) u'(2) by (auto simp: io_copy_def step_simps)
  ultimately show ?thesis by (simp only:)
qed

lemma run_op_free:
  assumes "free c" and "ready c" and "props_aligned (as_props (c_state c))" and "op_ok x"
    and "path_trim_prefixes (op_path x) = Inr f"
  shows "\<exists>c'. run_op x c = (Inr (), c') \<and> free c'"
proof (cases x)
  case (ArchivePath p md)
  with assms show ?thesis by (simp add: archive_path_def step_simps word_gt_0)
next
  case (ArchiveSymlink p md tgt)
  with assms show ?thesis by (simp add: archive_symlink_def step_simps)
next
  case (ArchiveFile p md rd)
  with archive_file_free [OF assms(1-3), of p md rd f] assms show ?thesis by simp
qed

lemma run_ops_free:
  assumes "free c" and "ready c" and "props_aligned (as_props (c_state c))"
    and "\<forall>x\<in>set ops. op_ok x \<and> (\<exists>f. path_trim_prefixes (op_path x) = Inr f)"
  shows "\<exists>c'. for_each ops run_op c = (Inr (), c') \<and> free c'"
  using assms
proof (induction ops arbitrary: c)
  case Nil
  then show ?case by simp
next
  case (Cons x ops)
  then obtain f where "op_ok x" "path_trim_prefixes (op_path x) = Inr f" by auto
  with run_op_free Cons.prems obtain u where u: "run_op x c = (Inr (), u)" "free u" by blast
  have "ready u" using u(1) Cons.prems(2) by (rule op_archiver.stays_ready)
  moreover have "as_props (c_state u) = as_props (c_state c)"
    using u(1) Cons.prems(2) by (rule op_archiver.props_kept)
  ultimately have "\<exists>c'. for_each ops run_op u = (Inr (), c') \<and> free c'"
    using Cons.prems u(2) by (intro Cons.IH) simp_all
  with u show ?case by simp
qed

lemma archive_trailer_free:
  assumes "free c"
  shows "\<exists>n c'. archive_trailer c = (Inr n, c')"
  using assms by (simp add: archive_trailer_def step_simps)

lemma new_state_ready: "props_aligned props \<Longrightarrow> ready \<lparr>c_state = new_state props, c_out = w\<rparr>"
  by (simp add: ready_def new_state_def props_aligned_def)

lemma archive_ops_run:
  assumes "props_aligned props" and "w_room w = None"
    and "\<forall>x\<in>set ops. op_ok x \<and> (\<exists>f. path_trim_prefixes (op_path x) = Inr f)"
  obtains c n c' where "for_each ops run_op \<lparr>c_state = new_state props, c_out = w\<rparr> = (Inr (), c)"
    and "archive_trailer c = (Inr n, c')"
proof -
  have "\<exists>c. for_each ops run_op \<lparr>c_state = new_state props, c_out = w\<rparr> = (Inr (), c) \<and> free c"
    using assms by (intro run_ops_free new_state_ready) (simp_all add: new_state_def)
  then show ?thesis using archive_trailer_free that by blast
qed

definition sample_md :: "u32 \<Rightarrow> u32 \<Rightarrow> ArchiveMd" where
  "sample_md mode len =
    \<lparr>md_nlink = 1, md_mode = mode, md_uid = 0, md_gid = 0, md_mtime = 0, md_rmajor = 0, md_rminor = 0, md_len = len\<rparr>"

definition sample_ops :: "archive_op list" where
  "sample_ops = [ArchivePath ''/d'' (sample_md 0x41ED 0), ArchiveFile ''d/f'' (sample_md 0x81A4 5) (''hello'', None),
     ArchiveSymlink ''d/l'' (sample_md 0xA1FF 0) ''f'']"

lemma sample_names:
  "path_trim_prefixes ''/d'' = Inr ''d''" "path_trim_prefixes ''d/f'' = Inr ''d/f''"
  "path_trim_prefixes ''d/l'' = Inr ''d/l''"
  by code_simp+

lemma sample_ok: "\<forall>x\<in>set sample_ops. op_ok x \<and> (\<exists>f. path_trim_prefixes (op_path x) = Inr f)"
  by (simp add: sample_ops_def sample_names S_IF_defs sample_md_def PATH_MAX_def)

text \<open>
  C13. Archiving succeeds: on a device with room, with alignments that are multiples of 4,
  every sequence of valid requests (type of the operation matching the mode, reader giving
  as many bytes as the metadata says, path short enough) and the trailer return normally.
  In particular the alignment assertion of \<^verbatim>\<open>archive_file\<close> never fails.
\<close>

theorem archive_ops_succeed:
  assumes "props_aligned props" and "w_room w = None"
    and "\<forall>x\<in>set ops. op_ok x \<and> (\<exists>f. path_trim_prefixes (op_path x) = Inr f)"
  shows "\<exists>n c'. bindE (for_each ops run_op) (\<lambda>_. archive_trailer)
    \<lparr>c_state = new_state props, c_out = w\<rparr> = (Inr n, c')"
  using archive_ops_run [OF assms] by (metis bindE_Inr_eq)

theorem archive_ops_succeed_witness:
  "\<exists>n c'. bindE (for_each sample_ops run_op) (\<lambda>_. archive_trailer)
    \<lparr>c_state = new_state (default_props\<lparr>data_align := 4\<rparr>), c_out = \<lparr>w_buf = [], w_room = None\<rparr>\<rparr> = (Inr n, c')"
  by (rule archive_ops_succeed [OF _ _ sample_ok]) (simp_all add: props_aligned_def default_props_def PATH_MAX_def)

section \<open>A refused request changes nothing\<close>

text \<open>Once writing has started, no function reports an invalid request any more.\<close>

abbreviation not_invalid :: "fault \<Rightarrow> bool" where
  "not_invalid e \<equiv> err_kind e \<noteq> Some InvalidInput"

lemma emit_throws [throws_intro]: "throws not_invalid (emit z)"
  by (auto simp: throws_def emit_def write_all_def err_kind_def split: option.splits if_splits prod.splits)

lemma step_throws [throws_intro]:
  "throws F (add_off k)" "throws F next_ino" "throws not_invalid emit_name_pad" "throws not_invalid emit_data_pad"
  by (simp add: throws_def add_off_def, simp add: throws_def next_ino_def,
      auto simp: emit_name_pad_def emit_data_pad_def add_off_def intro!: throws_intro)

lemma name_zeros_throws [throws_intro]: "throws not_invalid (name_zeros das)"
  unfolding name_zeros_def by (intro throws_intro) (simp_all add: err_kind_def)

lemma io_copy_throws [throws_intro]:
  "snd rd \<noteq> Some InvalidInput \<Longrightarrow> throws not_invalid (io_copy rd)"
  unfolding io_copy_def
  by (cases "snd rd"; simp; intro throws_intro) (simp add: err_kind_def)

lemma invalid_unchanged:
  assumes "(if b then throw e else m) c = (Inl (IoErr InvalidInput msg), c')" and "throws not_invalid m"
  shows "c' = c"
  using assms throwsD [OF assms(2)] by (fastforce simp: err_kind_def split: if_splits)

lemma lift_bind_invalid:
  assumes "bindE (lift_res r) f c = (Inl e, c')" and "\<And>x. f x c = (Inl e, c') \<Longrightarrow> c' = c"
  shows "c' = c"
  using assms by (cases r) auto

fun op_reader_ok :: "archive_op \<Rightarrow> bool" where
  "op_reader_ok (ArchiveFile p md rd) \<longleftrightarrow> snd rd \<noteq> Some InvalidInput"
| "op_reader_ok _ \<longleftrightarrow> True"

text \<open>
  C27. A request that an archiving function refuses as invalid (path or link target too
  long, wrong file type) changes nothing: neither the archive state nor the output. So a
  caller that goes on after the error still has a well-formed archive.
\<close>

theorem archive_refused_unchanged:
  assumes "run_op x c = (Inl (IoErr InvalidInput msg), c')" and "op_reader_ok x"
  shows "c' = c"
proof (cases x)
  case (ArchivePath p md)
  show ?thesis
    using assms(1) unfolding ArchivePath run_op.simps archive_path_def
    by (rule lift_bind_invalid, elim invalid_unchanged) (intro throws_intro)
next
  case (ArchiveSymlink p md tgt)
  have m: "(if b then throw e else if b' then throw e' else m) c = (Inl (IoErr InvalidInput msg), c') \<Longrightarrow>
      throws not_invalid m \<Longrightarrow> c' = c" for b b' e e' m
    by (cases b) (auto dest: invalid_unchanged)
  show ?thesis
    using assms(1) unfolding ArchiveSymlink run_op.simps archive_symlink_def
    by (rule lift_bind_invalid, elim m) (intro throws_intro)
next
  case (ArchiveFile p md rd)
  show ?thesis
    using assms unfolding ArchiveFile run_op.simps archive_file_def
    by - (rule lift_bind_invalid, assumption, elim invalid_unchanged, intro throws_intro,
        auto simp: err_kind_def)
qed

theorem archive_refused_unchanged_witness:
  "snd (run_op (ArchiveFile ''d/f'' (sample_md 0x41ED 0) (''x'', None))
      \<lparr>c_state = new_state default_props, c_out = \<lparr>w_buf = [], w_room = None\<rparr>\<rparr>)
    = \<lparr>c_state = new_state default_props, c_out = \<lparr>w_buf = [], w_room = None\<rparr>\<rparr>"
proof -
  let ?c = "\<lparr>c_state = new_state default_props, c_out = \<lparr>w_buf = [], w_room = None\<rparr>\<rparr>"
  have "run_op (ArchiveFile ''d/f'' (sample_md 0x41ED 0) (''x'', None)) ?c = (Inl (IoErr InvalidInput ''not a file''), ?c)"
    by (simp add: archive_file_def sample_names sample_md_def S_IF_defs)
  from this archive_refused_unchanged [OF this] show ?thesis by simp
qed

section \<open>Device numbers\<close>

text \<open>glibc's \<^verbatim>\<open>makedev\<close>, whose layout the source describes.\<close>

definition makedev :: "u32 \<Rightarrow> u32 \<Rightarrow> u64" where
  "makedev ma mi =
    push_bit 32 (ucast (ma AND 0xfffff000)) OR push_bit 8 (ucast (ma AND 0xfff))
    OR push_bit 12 (ucast (mi AND 0xffffff00)) OR ucast (mi AND 0xff)"

lemma field_masks:
  "(0xfffff000 :: 'a::len word) = push_bit 12 (mask 20)" "(0xfff :: 'a word) = mask 12"
  "(0xffffff00 :: 'a word) = push_bit 8 (mask 24)" "(0xff :: 'a word) = mask 8"
  by (simp_all add: mask_eq_exp_minus_1 push_bit_eq_mult)

lemma rdev_makedev:
  "rdev_major (makedev ma mi) = ma" "rdev_minor (makedev ma mi) = mi"
proof -
  show "rdev_major (makedev ma mi) = ma"
    unfolding rdev_major_def makedev_def field_masks
  proof (rule bit_word_eqI, goal_cases)
    case (1 n)
    show ?case
    proof (cases "n < 12")
      case True
      then have "\<not> 8 \<le> n - 4" by simp
      with True show ?thesis by (simp add: bit_simps)
    next
      case False
      with 1 have n: "n - 12 < 20" "12 \<le> n" "n < 32" by simp_all
      then show ?thesis by (simp add: bit_simps)
    qed
  qed
  show "rdev_minor (makedev ma mi) = mi"
    unfolding rdev_minor_def makedev_def field_masks
  proof (rule bit_word_eqI, goal_cases)
    case (1 n)
    show ?case
    proof (cases "n < 8")
      case True
      then show ?thesis by (simp add: bit_simps)
    next
      case False
      with 1 have "n - 8 < 24" "\<not> 12 \<le> n - 20" "n < 32" by simp_all
      with False show ?thesis by (simp add: bit_simps)
    qed
  qed
qed

lemma u32_try_from_uint: "u32_try_from (uint (x :: u64)) = (if unat x < 2 ^ 32 then Some (ucast x) else None)"
proof -
  have "uint x < 4294967296 \<longleftrightarrow> unat x < 4294967296"
    using of_nat_less_iff [of "unat x" 4294967296, where 'a = int] by simp
  then show ?thesis by (simp add: u32_try_from_def)
qed

lemma u32_word_of_int: "0 \<le> i \<Longrightarrow> i < 4294967296 \<Longrightarrow> uint (word_of_int i :: u32) = i"
  by (simp add: unsigned_of_int take_bit_int_eq_self)

definition md_fits :: "ArchiveState \<Rightarrow> Metadata \<Rightarrow> bool" where
  "md_fits st md \<longleftrightarrow>
    (fixed_mtime (as_props st) = None \<longrightarrow> 0 \<le> st_mtime md \<and> st_mtime md < 2 ^ 32)
    \<and> unat (st_size md) < 2 ^ 32 \<and> (st_mode md AND S_IFMT \<noteq> S_IFREG \<longrightarrow> unat (st_nlink md) < 2 ^ 32)"

definition is_device :: "u32 \<Rightarrow> bool" where
  "is_device mode \<longleftrightarrow> mode AND S_IFMT = S_IFCHR \<or> mode AND S_IFMT = S_IFBLK"

text \<open>
  \<^verbatim>\<open>ArchiveMd::from\<close> on every branch: it succeeds exactly when the modification time
  (unless fixed), the size and the link count (unless a regular file) fit 32 bits, and
  fails with \<^const>\<open>InvalidInput\<close> otherwise; on success the fields are those of the file,
  with the overrides of the archive properties, one link for a regular file, and the
  device number split into the major and minor number it was made of.
\<close>

theorem ArchiveMd_from_complete:
  assumes "st_rdev md = makedev ma mi"
  shows "case ArchiveMd_from st md of
      Inl e \<Rightarrow> \<not> md_fits st md \<and> err_kind e = Some InvalidInput
    | Inr a \<Rightarrow> md_fits st md \<and> md_mode a = st_mode md \<and> unat (md_len a) = unat (st_size md)
        \<and> md_nlink a = (if st_mode md AND S_IFMT = S_IFREG then 1 else ucast (st_nlink md))
        \<and> (md_rmajor a, md_rminor a) = (if is_device (st_mode md) then (ma, mi) else (0, 0))
        \<and> md_uid a = (case fixed_uid (as_props st) of Some u \<Rightarrow> u | None \<Rightarrow> st_uid md)
        \<and> md_gid a = (case fixed_gid (as_props st) of Some g \<Rightarrow> g | None \<Rightarrow> st_gid md)
        \<and> uint (md_mtime a) = (case fixed_mtime (as_props st) of Some t \<Rightarrow> uint t | None \<Rightarrow> st_mtime md)"
proof (cases "fixed_mtime (as_props st)")
  case None
  then show ?thesis
    using assms by (simp add: ArchiveMd_from_def u32_try_from_uint u32_try_from_def [of "st_mtime md"]
      md_fits_def is_device_def rdev_makedev unat_ucast_u64 Let_def err_kind_def S_IF_defs u32_word_of_int) arith
next
  case (Some t)
  then show ?thesis
    using assms by (simp add: ArchiveMd_from_def u32_try_from_uint md_fits_def is_device_def rdev_makedev unat_ucast_u64
      Let_def err_kind_def S_IF_defs)
qed

theorem ArchiveMd_from_complete_witness:
  "\<exists>a. ArchiveMd_from (new_state default_props)
      \<lparr>st_mode = 0x2180, st_nlink = 1, st_uid = 0, st_gid = 5, st_mtime = 7, st_rdev = makedev 4 65, st_size = 0\<rparr> = Inr a
    \<and> (md_rmajor a, md_rminor a) = (4, 65) \<and> md_gid a = 5 \<and> uint (md_mtime a) = 7"
proof -
  let ?md = "\<lparr>st_mode = 0x2180, st_nlink = 1, st_uid = 0, st_gid = 5, st_mtime = 7, st_rdev = makedev 4 65, st_size = 0\<rparr>"
  have "md_fits (new_state default_props) ?md" by (simp add: md_fits_def)
  with ArchiveMd_from_complete [of ?md 4 65 "new_state default_props"] show ?thesis
    by (auto simp: is_device_def S_IF_defs new_state_def default_props_def split: sum.splits)
qed

section \<open>Alignment of file data\<close>

lemma mod_pad: "0 < (a :: nat) \<Longrightarrow> (x + (a - x mod a) mod a) mod a = 0"
  by (metis add.commute add_diff_inverse_nat mod_add_right_eq mod_less_divisor mod_self not_less_iff_gr_or_eq)

text \<open>The zero bytes that a name needs for the data after it to start at a multiple of \<open>2 ^ k\<close>.\<close>

definition align_zeros :: "nat \<Rightarrow> nat \<Rightarrow> bytes \<Rightarrow> nat" where
  "align_zeros k pos fname = (2 ^ k - (pos + NEWC_HDR_LEN + length fname + 1) mod 2 ^ k) mod 2 ^ k"

lemma align_zeros_aligns: "(pos + NEWC_HDR_LEN + length fname + 1 + align_zeros k pos fname) mod 2 ^ k = 0"
  unfolding align_zeros_def by (rule mod_pad) simp

lemma data_align_seek_pow2:
  assumes k: "data_align (as_props st) = 2 ^ k" "k < 32" and "md_len md > data_align (as_props st)"
    and short: "length fname < 2 ^ 32"
  shows "unat (data_align_seek st fname md) =
    (let n = align_zeros k (unat (initial_data_off (as_props st)) + unat (as_off st)) fname
     in if length fname + 1 + n \<le> unat (namesize_max (as_props st)) then n else 0)"
proof -
  let ?i = "initial_data_off (as_props st)"
  let ?x = "?i + as_off st + of_nat NEWC_HDR_LEN + of_nat (length fname) + 1 :: u64"
  let ?len = "archive_padlen ?x (2 ^ k)"
  let ?n = "align_zeros k (unat ?i + unat (as_off st)) fname"
  have "unat (2 ^ k :: u32) = 2 ^ k"
    using unat_of_nat_small [where 'a = 32, of "2 ^ k"] pow2_less [OF k(2)] by simp
  then have da: "(ucast (2 ^ k :: u32) :: u64) = 2 ^ k"
    using k(2) by (simp add: word_unat_eq_iff unat_ucast_u32 unat_pow2)
  have "?x = ?i + as_off st + of_nat (NEWC_HDR_LEN + length fname + 1)" by (simp add: ac_simps)
  then have "unat ?x mod 2 ^ k = (unat (?i + as_off st) + (NEWC_HDR_LEN + length fname + 1)) mod 2 ^ k"
    using unat_add_of_nat_mod [OF less_imp_le, of k "?i + as_off st"] k(2) by (simp only:)
  also have "\<dots> = (unat ?i + unat (as_off st) + (NEWC_HDR_LEN + length fname + 1)) mod 2 ^ k"
    using k(2) unat_add_mod [of k ?i "as_off st"] by (intro mod_add_cong) simp_all
  finally have len: "unat ?len = ?n"
    using k(2) archive_padlen_pow2 [of k ?x] by (simp add: align_zeros_def ac_simps)
  have small: "?n < 2 ^ 32" using pow2_less [OF k(2)] by (simp add: align_zeros_def order_less_trans [OF mod_less_divisor])
  have "unat (of_nat (length fname + 1) :: u64) = length fname + 1"
    using short by (intro unat_of_nat_small) simp
  then have "unat (?len + of_nat (length fname + 1)) = ?n + (length fname + 1)"
    using short small by (simp only: unat_word_ariths len) simp
  then have gt: "?len + of_nat (length fname + 1) > ucast (namesize_max (as_props st))
      \<longleftrightarrow> \<not> length fname + 1 + ?n \<le> unat (namesize_max (as_props st))"
    by (simp add: word_less_nat_alt unat_ucast_u32 not_le add.commute del: of_nat_add of_nat_Suc)
  have "data_align_seek st fname md =
      (if ?len + of_nat (length fname + 1) > ucast (namesize_max (as_props st)) then 0 else ucast ?len)"
    using assms da by (simp add: data_align_seek_def Let_def word_gt_0 ac_simps)
  then show ?thesis using small len unfolding gt by (simp add: unat_ucast_u64 Let_def)
qed

text \<open>
  C22. Data alignment: with a power-of-two alignment of at least 4 and an initial offset that is
  a multiple of 4, the file's content is written after a header and a name in full. When the file
  is larger than the alignment and the name, its terminator and the zero bytes that alignment
  asks for fit the maximal name size, the content starts at a multiple of the alignment, counted
  from the start of the output medium. When they do not fit, the name gets no more than the
  padding to 4 bytes, and the content follows unaligned.
\<close>

theorem archive_file_aligned:
  assumes run: "archive_file path md rd c = (Inr (), c')" and "ready c"
    and k: "data_align (as_props (c_state c)) = 2 ^ k" "2 \<le> k" "k < 32"
    and "unat (initial_data_off (as_props (c_state c))) mod 4 = 0"
    and big: "md_len md > data_align (as_props (c_state c))"
  shows "\<exists>pre post. w_buf (c_out c') = w_buf (c_out c) @ pre @ fst rd @ post
    \<and> (let pos = unat (initial_data_off (as_props (c_state c))) + unat (as_off (c_state c));
           namesize = length (arch_name path) + 1
       in if namesize + align_zeros k pos (arch_name path) \<le> unat (namesize_max (as_props (c_state c)))
          then (pos + length pre) mod 2 ^ k = 0
          else length pre = NEWC_HDR_LEN + namesize + zpad4 (NEWC_HDR_LEN + namesize))"
proof -
  let ?e = "file_entry path md rd (c_state c)"
  let ?i = "unat (initial_data_off (as_props (c_state c))) + unat (as_off (c_state c))"
  let ?pre = "newc_hdr_fmt (hdr_fields (e_ino ?e) (e_md ?e) (length (e_data ?e)) (e_namesize ?e))
      @ e_name ?e @ replicate (1 + e_zeros ?e) NUL @ replicate (zpad4 (NEWC_HDR_LEN + e_namesize ?e)) NUL"
  let ?fits = "length (arch_name path) + 1 + align_zeros k ?i (arch_name path)
      \<le> unat (namesize_max (as_props (c_state c)))"
  have wf: "entry_wf ?e" using run assms(2) by (rule file_archiver.writes_wf)
  have "length (e_data ?e) < 2 ^ 32" and "e_namesize ?e < 2 ^ 32"
    using wf u32_less [of "md_len (e_md ?e)"] by (auto simp: entry_wf_def PATH_MAX_def)
  then have pre: "length ?pre = NEWC_HDR_LEN + e_namesize ?e + zpad4 (NEWC_HDR_LEN + e_namesize ?e)"
    by (simp add: newc_hdr_fmt_length) (simp add: e_namesize_def)
  have "length (arch_name path) < 2 ^ 32"
    using wf by (simp add: entry_wf_def e_namesize_def file_entry_def PATH_MAX_def)
  from data_align_seek_pow2 [OF k(1,3) big this] have ns: "e_namesize ?e =
      length (arch_name path) + 1 + (if ?fits then align_zeros k ?i (arch_name path) else 0)"
    by (simp add: file_entry_def e_namesize_def Let_def)
  have al: "(?i + length ?pre) mod 2 ^ k = 0" if ?fits
  proof -
    have al: "(?i + (NEWC_HDR_LEN + e_namesize ?e)) mod 2 ^ k = 0"
      using align_zeros_aligns [of ?i "arch_name path" k] that ns by (simp add: ac_simps)
    have "(4 :: nat) dvd 2 ^ k" using k(2) le_imp_power_dvd [of 2 k "2 :: nat"] by simp
    with al have "(?i + (NEWC_HDR_LEN + e_namesize ?e)) mod 4 = 0"
      using dvd_trans by (auto simp: mod_eq_0_iff_dvd)
    moreover have "?i mod 4 = 0" using assms(2,6) by (simp add: ready_def mod_eq_0_iff_dvd)
    ultimately have "(NEWC_HDR_LEN + e_namesize ?e) mod 4 = 0"
      by (simp add: mod_eq_0_iff_dvd dvd_add_right_iff)
    then have "zpad4 (NEWC_HDR_LEN + e_namesize ?e) = 0" by (simp add: zpad4_def)
    with al pre show ?thesis by simp
  qed
  have un: "length ?pre = NEWC_HDR_LEN + (length (arch_name path) + 1)
      + zpad4 (NEWC_HDR_LEN + (length (arch_name path) + 1))" if "\<not> ?fits"
    using that ns pre by simp
  have ed: "e_data ?e = fst rd"
    using big by (auto simp: file_entry_def word_less_nat_alt)
  from file_archiver.appends [OF run assms(2)]
  have "w_buf (c_out c') = w_buf (c_out c) @ ?pre @ fst rd @ replicate (zpad4 (length (fst rd))) NUL"
    by (simp add: wrote_def entry_bytes_def ed)
  with al un show ?thesis by (intro exI conjI) (assumption, simp add: Let_def)
qed

theorem archive_file_aligned_witness:
  "\<exists>c' pre post. archive_file ''d/f'' (sample_md 0x81A4 17) (replicate 17 CHR ''x'', None)
      \<lparr>c_state = new_state (default_props\<lparr>data_align := 16\<rparr>), c_out = \<lparr>w_buf = [], w_room = None\<rparr>\<rparr> = (Inr (), c')
    \<and> w_buf (c_out c') = pre @ replicate 17 CHR ''x'' @ post \<and> length pre mod 16 = 0"
proof -
  let ?c = "\<lparr>c_state = new_state (default_props\<lparr>data_align := 16\<rparr>), c_out = \<lparr>w_buf = [], w_room = None\<rparr>\<rparr>"
  let ?md = "sample_md 0x81A4 17" and ?rd = "(replicate 17 CHR ''x'', None) :: reader"
  have r: "ready ?c" by (intro new_state_ready) (simp add: props_aligned_def default_props_def PATH_MAX_def)
  have "\<exists>c'. archive_file ''d/f'' ?md ?rd ?c = (Inr (), c') \<and> free c'"
    using r by (intro archive_file_free)
      (simp_all add: props_aligned_def default_props_def new_state_def PATH_MAX_def sample_md_def S_IF_defs sample_names)
  then obtain c' where run: "archive_file ''d/f'' ?md ?rd ?c = (Inr (), c')" by blast
  have "arch_name ''d/f'' = ''d/f''" by (simp add: arch_name_def sample_names)
  with archive_file_aligned [OF run r, of 4] have
    "\<exists>pre post. w_buf (c_out c') = pre @ replicate 17 CHR ''x'' @ post \<and> length pre mod 16 = 0"
    by (simp add: new_state_def default_props_def sample_md_def PATH_MAX_def align_zeros_def NEWC_HDR_LEN_def Let_def)
  then obtain pre post where "w_buf (c_out c') = pre @ replicate 17 CHR ''x'' @ post" "length pre mod 16 = 0"
    by (elim exE conjE)
  with run show ?thesis by (intro exI conjI)
qed

end
