(* ===== verification/Cpio_Walk.thy ===== *)
theory Cpio_Walk
  imports Cpio_Total
begin

text \<open>
  The reading half of the cpio crate inverts the writing half: walking what a sequence
  of archiving operations and the trailer wrote gives back their metadata and names.
\<close>

section \<open>Reading one entry back\<close>

definition ent_of :: "cpio_entry \<Rightarrow> ArchiveEnt" where
  "ent_of e =
    \<lparr>ae_md = e_md e, ae_namesize = of_nat (e_namesize e),
     ae_name = e_name e @ replicate (PATH_MAX + 1 - length (e_name e)) NUL\<rparr>"

lemma md_next_enc: "n < 2 ^ 32 \<Longrightarrow> md_next (fmt_HEX 8 n # it) = (Inr (of_nat n), it)"
  by (simp add: md_next_def newc.dec_enc)

lemma md_nth_drop [simp]: "md_nth 0 it = md_next it" "md_nth (Suc n) (f # it) = md_nth n it"
  by (simp_all add: md_nth_def)

lemma read_newc_md_fields:
  assumes "entry_wf e"
  shows "archive_read_newc_md (concat (map (fmt_HEX 8)
      (hdr_fields (e_ino e) (e_md e) (length (e_data e)) (e_namesize e)))) = Inr (e_md e, of_nat (e_namesize e))"
proof -
  have len: "length (e_data e) = unat (md_len (e_md e))" and ns: "e_namesize e \<le> PATH_MAX"
    using assms by (simp_all add: entry_wf_def)
  have b: "length (e_data e) < 2 ^ 32" "e_namesize e < 2 ^ 32"
    using len ns u32_less [of "md_len (e_md e)"] by (simp_all add: PATH_MAX_def)
  have nu: "unat (of_nat (e_namesize e) :: u32) = e_namesize e"
    using b(2) by (intro unat_of_nat_small) simp
  have n0: "(of_nat (e_namesize e) :: u32) \<noteq> 0"
  proof
    assume "(of_nat (e_namesize e) :: u32) = 0"
    with nu have "e_namesize e = 0" by simp
    then show False by (simp add: e_namesize_def)
  qed
  have c: "chunks_exact 8 (concat (map (fmt_HEX 8) (hdr_fields (e_ino e) (e_md e) (length (e_data e)) (e_namesize e))))
      = map (fmt_HEX 8) (hdr_fields (e_ino e) (e_md e) (length (e_data e)) (e_namesize e))"
    using hdr_fields_bound [OF b] by (intro newc.chunks) simp_all
  show ?thesis
    unfolding archive_read_newc_md_def c using n0 nu ns b u32_less
    by (simp add: hdr_fields_def numeral_2_eq_2 md_next_enc len)
qed

lemma archive_padlen_4_of_nat: "archive_padlen (of_nat n) 4 = of_nat (zpad4 n)"
  using archive_padlen_4_add [of 0 n] by simp

lemma name_field_take:
  "take (length name + n) (name @ replicate (1 + n) NUL) = name @ replicate n NUL"
  by (simp flip: replicate_append_same)

lemma take_prefix: "n \<le> length xs \<Longrightarrow> take n (xs @ ys) = take n xs"
  by simp

lemma name_buffer:
  "length name + 1 + n \<le> m \<Longrightarrow>
    (name @ replicate (1 + n) NUL) @ replicate (m - (length name + 1 + n)) NUL
      = name @ replicate (m - length name) NUL"
  by (simp add: replicate_add [symmetric] flip: replicate_Suc)

lemma skip_length:
  assumes "a < 4" and "b < 4" and "n < 2 ^ 32"
  shows "unat (of_nat a + of_nat n + of_nat b :: u64) = a + n + b"
  unfolding of_nat_add [symmetric] using assms by (intro unat_of_nat_small) simp

lemma archive_next_entry:
  assumes "entry_wf e" and nf: "\<And>rd n. sk rd n = None"
  shows "archive_next sk (entry_bytes e @ rest, k) =
    (if e_name e @ replicate (e_zeros e) NUL = trailer_name then None else Some (Inr (ent_of e)), rest, k)"
proof -
  let ?ns = "e_namesize e"
  let ?hdr = "newc_hdr_fmt (hdr_fields (e_ino e) (e_md e) (length (e_data e)) ?ns)"
  let ?nm = "e_name e @ replicate (1 + e_zeros e) NUL"
  let ?tail = "replicate (zpad4 (NEWC_HDR_LEN + ?ns)) NUL @ e_data e @ replicate (zpad4 (length (e_data e))) NUL"
  have len: "length (e_data e) = unat (md_len (e_md e))" and ns: "?ns \<le> PATH_MAX"
    using assms(1) by (simp_all add: entry_wf_def)
  have b: "length (e_data e) < 2 ^ 32" "?ns < 2 ^ 32"
    using len ns u32_less [of "md_len (e_md e)"] by (simp_all add: PATH_MAX_def)
  have hl: "length ?hdr = NEWC_HDR_LEN" using b by (rule newc_hdr_fmt_length)
  have h: "read_exact NEWC_HDR_LEN (entry_bytes e @ rest, k) = (Inr ?hdr, ?nm @ ?tail @ rest, k)"
    by (simp add: read_exact_def entry_bytes_def hl)
  have m: "take 6 ?hdr = ''070701''" "drop 6 ?hdr = concat (map (fmt_HEX 8)
      (hdr_fields (e_ino e) (e_md e) (length (e_data e)) ?ns))"
    by (simp_all add: newc_hdr_fmt_def)
  have nu: "unat (of_nat ?ns :: u32) = ?ns" using b(2) by (intro unat_of_nat_small) simp
  have n: "read_exact ?ns (?nm @ ?tail @ rest, k) = (Inr ?nm, ?tail @ rest, k)"
    by (simp add: read_exact_def e_namesize_def)
  have np: "(ucast (of_nat ?ns :: u32) :: u64) = of_nat ?ns"
    using nu by (metis of_nat_unat)
  have dl: "(ucast (md_len (e_md e)) :: u64) = of_nat (length (e_data e))"
    using len by simp
  note sk = skip_length [OF zpad4_less [of "NEWC_HDR_LEN + ?ns"] zpad4_less [of "length (e_data e)"] b(1)]
  have tl: "drop (zpad4 (NEWC_HDR_LEN + ?ns) + length (e_data e) + zpad4 (length (e_data e))) (?tail @ rest) = rest"
    by simp
  have tr: "take (?ns - 1) (?nm @ zs) = e_name e @ replicate (e_zeros e) NUL" for zs
    using name_field_take [of "e_name e" "e_zeros e"] take_prefix [of "?ns - 1" ?nm zs]
    by (simp add: e_namesize_def)
  have n0: "(of_nat ?ns :: u32) \<noteq> 0" using nu by (metis e_namesize_def add_is_0 unat_0 zero_neq_one)
  have lim: "\<not> PATH_MAX + 1 < ?ns" using ns by simp
  have sl: "\<not> 2 ^ 63 \<le> zpad4 (NEWC_HDR_LEN + ?ns) + length (e_data e) + zpad4 (length (e_data e))"
    using zpad4_less [of "NEWC_HDR_LEN + ?ns"] zpad4_less [of "length (e_data e)"] b(1) by simp
  have buf: "?nm @ replicate (PATH_MAX + 1 - ?ns) NUL = e_name e @ replicate (PATH_MAX + 1 - length (e_name e)) NUL"
    using name_buffer [of "e_name e" "e_zeros e" "PATH_MAX + 1"] ns by (simp add: e_namesize_def)
  show ?thesis
    unfolding archive_next_def h prod.case m read_newc_md_fields [OF assms(1)] sum.case nu n Let_def
      np dl of_nat_add [symmetric] archive_padlen_4_of_nat fst_conv snd_conv
    by (simp only: of_nat_add sk sl nf option.case n0 lim tl tr buf ent_of_def simp_thms if_True if_False tr [of "replicate (PATH_MAX + 1 - ?ns) NUL", unfolded buf]
        if_distrib [of "\<lambda>x. (x, rest, k)"] refl)
qed

section \<open>The trailer\<close>

definition trailer_entry :: cpio_entry where
  "trailer_entry =
    \<lparr>e_ino = 0,
     e_md = \<lparr>md_nlink = 1, md_mode = 0, md_uid = 0, md_gid = 0, md_mtime = 0,
             md_rmajor = 0, md_rminor = 0, md_len = 0\<rparr>,
     e_name = trailer_name, e_zeros = 0, e_data = []\<rparr>"

lemma trailer_entry_wf: "entry_wf trailer_entry"
  by (simp add: trailer_entry_def entry_wf_def e_namesize_def trailer_name_def PATH_MAX_def)

lemma archive_trailer_appends:
  assumes "archive_trailer c = (Inr n, c')" and "ready c"
  shows "wrote (entry_bytes trailer_entry) (length (entry_bytes trailer_entry)) 0 c c'
    \<and> n = as_off (c_state c')"
proof -
  let ?hdr = "newc_hdr_fmt [0, 0, 0, 0, 1, 0, 0, 0, 0, 0, 0, length trailer_name + 1, 0]"
  let ?m = "bindE (getE (\<lambda>c. archive_padlen (as_off (c_state c) + of_nat (length trailer_name + 1)) 4))
     (\<lambda>p. seqE (emit (trailer_name @ NUL # take (unat p) [NUL, NUL, NUL]))
        (seqE (add_off (of_nat (length trailer_name + 1) + p)) (getE (\<lambda>c. as_off (c_state c)))))"
  let ?p = "zpad4 (NEWC_HDR_LEN + (length trailer_name + 1))"
  from assms(1) obtain u where h: "wrote ?hdr NEWC_HDR_LEN 0 c u" and m: "?m u = (Inr n, c')"
    unfolding archive_trailer_def by (blast dest: emit_add_off)
  have "archive_padlen (as_off (c_state u) + of_nat (length trailer_name + 1)) 4 = of_nat ?p"
    using h assms(2) archive_padlen_4_add [of "as_off (c_state c)" "NEWC_HDR_LEN + (length trailer_name + 1)"]
    by (simp add: wrote_def ready_def ac_simps)
  moreover have "unat (of_nat ?p :: u64) = ?p"
    using zpad4_less [of "NEWC_HDR_LEN + (length trailer_name + 1)"] by (intro unat_of_nat_small) simp
  ultimately have "seqE (emit (trailer_name @ NUL # replicate ?p NUL))
      (seqE (add_off (of_nat (length trailer_name + 1 + ?p))) (getE (\<lambda>c. as_off (c_state c)))) u = (Inr n, c')"
    using m by (simp only: bindE_Inr_eq [OF getE_simp] take_NULs [OF zpad4_less] of_nat_add)
  from emit_add_off [OF this] have
    w: "wrote (trailer_name @ NUL # replicate ?p NUL) (length trailer_name + 1 + ?p) 0 u c'"
    and n: "n = as_off (c_state c')" by auto
  from wrote_trans [OF h w] n show ?thesis
    unfolding entry_bytes_length [OF trailer_entry_wf]
    by (simp add: entry_bytes_def trailer_entry_def e_namesize_def hdr_fields_def zpad4_def add.assoc)
qed

section \<open>Walking a whole archive\<close>

lemma archive_walk_unfold:
  "archive_walk rd =
    (case archive_next (\<lambda>_ _. None) rd of
       (None, _) \<Rightarrow> []
     | (Some (Inl e), _) \<Rightarrow> [Inl e]
     | (Some (Inr ent), rd') \<Rightarrow> Inr ent # archive_walk rd')"
  unfolding archive_walk_def by (rule archive_walk_on.simps)

lemma archive_walk_Cons:
  assumes "entry_wf e" and "e_name e @ replicate (e_zeros e) NUL \<noteq> trailer_name"
  shows "archive_walk (entry_bytes e @ rest, k) = Inr (ent_of e) # archive_walk (rest, k)"
  using assms by (simp add: archive_walk_unfold [of "(entry_bytes e @ rest, k)"] archive_next_entry)

lemma archive_walk_entries:
  assumes "list_all entry_wf es" and "\<forall>e\<in>set es. e_name e @ replicate (e_zeros e) NUL \<noteq> trailer_name"
  shows "archive_walk (concat (map entry_bytes es) @ rest, k) = map (\<lambda>e. Inr (ent_of e)) es @ archive_walk (rest, k)"
  using assms by (induction es) (simp_all add: archive_walk_Cons)

lemma archive_walk_trailer: "archive_walk (entry_bytes trailer_entry @ rest, k) = []"
proof -
  have "archive_next (\<lambda>_ _. None) (entry_bytes trailer_entry @ rest, k) = (None, rest, k)"
    by (simp add: archive_next_entry [OF trailer_entry_wf]) (simp add: trailer_entry_def)
  then show ?thesis by (simp add: archive_walk_unfold [of "(entry_bytes trailer_entry @ rest, k)"])
qed

text \<open>The name of an entry up to its first zero byte, as the listing tools print it.\<close>

definition ent_name :: "ArchiveEnt \<Rightarrow> bytes" where
  "ent_name ent = takeWhile (\<lambda>c. c \<noteq> NUL) (ae_name ent)"

lemma ent_name_ent_of:
  assumes "entry_wf e" and "NUL \<notin> set (e_name e)"
  shows "ent_name (ent_of e) = e_name e"
proof -
  have "PATH_MAX + 1 - length (e_name e) = Suc (PATH_MAX - length (e_name e))"
    using assms(1) by (simp add: entry_wf_def e_namesize_def Suc_diff_le)
  moreover have "takeWhile (\<lambda>c. c \<noteq> NUL) (e_name e @ NUL # zs) = e_name e" for zs
    using assms(2) by (intro takeWhile_append_stop) auto
  ultimately show ?thesis by (simp add: ent_name_def ent_of_def)
qed

lemma no_NUL_trailer: "NUL \<notin> set nm \<Longrightarrow> nm \<noteq> trailer_name \<Longrightarrow> nm @ replicate n NUL \<noteq> trailer_name"
proof
  assume nm: "nm \<noteq> trailer_name" and eq: "nm @ replicate n NUL = trailer_name"
  then have "n \<noteq> 0" by (cases n) auto
  then have "NUL \<in> set (nm @ replicate n NUL)" by simp
  then show False unfolding eq by (simp add: trailer_name_def)
qed

lemma run_ops_holds:
  assumes "for_each ops run_op c = (Inr (), c')" and "holds base es c"
  shows "\<exists>es'. holds base (es @ es') c'
    \<and> list_all2 (\<lambda>x e. e_md e = op_md x \<and> e_name e = arch_name (op_path x) \<and> e_data e = op_data x) ops es'
    \<and> (\<forall>k<length es'. e_ino (es' ! k) = as_ino (c_state c) + of_nat k)"
  using assms
proof (induction ops arbitrary: c es)
  case Nil
  then show ?case by (intro exI [of _ "[]"]) simp
next
  case (Cons x ops)
  from Cons.prems(1) obtain u where x: "run_op x c = (Inr (), u)" and ops: "for_each ops run_op u = (Inr (), c')"
    by (auto simp: bindE_Inr_iff)
  let ?e = "op_entry x (c_state c)"
  have h: "holds base (es @ [?e]) u" using op_archiver.extends_archive [OF x Cons.prems(2)] .
  have i: "as_ino (c_state u) = as_ino (c_state c) + 1"
    using Cons.prems(2) by (intro op_archiver.ino_next [OF x]) (simp add: holds_def)
  from Cons.IH [OF ops h] obtain es' where es': "holds base ((es @ [?e]) @ es') c'"
    "list_all2 (\<lambda>x e. e_md e = op_md x \<and> e_name e = arch_name (op_path x) \<and> e_data e = op_data x) ops es'"
    "\<forall>k<length es'. e_ino (es' ! k) = as_ino (c_state u) + of_nat k" by blast
  have "e_ino ((?e # es') ! k) = as_ino (c_state c) + of_nat k" if "k < length (?e # es')" for k
    using that es'(3) i by (cases k) (simp_all add: op_entry_fields)
  with es' show ?case by (intro exI [of _ "?e # es'"]) (simp add: op_entry_fields)
qed


text \<open>Every operation of a run, its entry, and what the walker returns for it.\<close>

definition reads_back :: "archive_op \<Rightarrow> ArchiveEnt res \<Rightarrow> bool" where
  "reads_back x item \<longleftrightarrow>
    (\<exists>ent. item = Inr ent \<and> ae_md ent = op_md x \<and> ent_name ent = arch_name (op_path x))"

lemma archive_run_length:
  assumes "for_each ops run_op \<lparr>c_state = new_state props, c_out = w\<rparr> = (Inr (), c)"
    and "archive_trailer c = (Inr n, c')" and "unat (namesize_max props) \<le> PATH_MAX"
  shows "\<exists>z. w_buf (c_out c') = w_buf w @ z \<and> n = of_nat (length z)"
proof -
  have "holds (w_buf w) [] \<lparr>c_state = new_state props, c_out = w\<rparr>"
    using assms(3) by (simp add: holds_def ready_def new_state_def)
  from run_ops_holds [OF assms(1) this] obtain es where "holds (w_buf w) es c" by auto
  with archive_trailer_appends [OF assms(2)] show ?thesis by (auto simp: holds_def wrote_def)
qed

lemma archive_run_entries:
  assumes "for_each ops run_op \<lparr>c_state = new_state props, c_out = w\<rparr> = (Inr (), c)"
    and "archive_trailer c = (Inr n, c')"
    and "unat (namesize_max props) \<le> PATH_MAX"
    and "\<forall>x\<in>set ops. NUL \<notin> set (arch_name (op_path x)) \<and> arch_name (op_path x) \<noteq> trailer_name"
  obtains z es where "w_buf (c_out c') = w_buf w @ z" and "n = of_nat (length z)"
    and "\<forall>rest k. archive_walk (z @ rest, k) = map (\<lambda>e. Inr (ent_of e)) es"
    and "list_all2 (\<lambda>x e. entry_wf e \<and> NUL \<notin> set (e_name e) \<and> e_md e = op_md x \<and> e_name e = arch_name (op_path x)) ops es"
proof -
  have "holds (w_buf w) [] \<lparr>c_state = new_state props, c_out = w\<rparr>"
    using assms(3) by (simp add: holds_def ready_def new_state_def)
  from run_ops_holds [OF assms(1) this] obtain es where h: "holds (w_buf w) es c"
    and es: "list_all2 (\<lambda>x e. e_md e = op_md x \<and> e_name e = arch_name (op_path x) \<and> e_data e = op_data x) ops es"
    by auto
  let ?z = "concat (map entry_bytes es) @ entry_bytes trailer_entry"
  have wf: "list_all entry_wf es" using h by (simp add: holds_def)
  have nm: "NUL \<notin> set (e_name e) \<and> e_name e \<noteq> trailer_name" if "e \<in> set es" for e
  proof -
    from that obtain k where k: "k < length es" "e = es ! k" by (auto simp: in_set_conv_nth)
    then have "k < length ops" and "e_name e = arch_name (op_path (ops ! k))"
      using es by (auto simp: list_all2_conv_all_nth)
    with assms(4) show ?thesis by simp
  qed
  show thesis
  proof (rule that)
    show "\<forall>rest k. archive_walk (?z @ rest, k) = map (\<lambda>e. Inr (ent_of e)) es"
      using archive_walk_entries [OF wf] nm no_NUL_trailer by (simp add: archive_walk_trailer)
    show "w_buf (c_out c') = w_buf w @ ?z" and "n = of_nat (length ?z)"
      using archive_trailer_appends [OF assms(2)] h by (simp_all add: holds_def wrote_def)
    show "list_all2 (\<lambda>x e. entry_wf e \<and> NUL \<notin> set (e_name e) \<and> e_md e = op_md x \<and> e_name e = arch_name (op_path x)) ops es"
      using es wf assms(4) by (auto simp: list_all2_conv_all_nth list_all_length)
  qed
qed

lemma archive_run_walk:
  assumes "for_each ops run_op \<lparr>c_state = new_state props, c_out = w\<rparr> = (Inr (), c)"
    and "archive_trailer c = (Inr n, c')"
    and "unat (namesize_max props) \<le> PATH_MAX"
    and "\<forall>x\<in>set ops. NUL \<notin> set (arch_name (op_path x)) \<and> arch_name (op_path x) \<noteq> trailer_name"
  shows "\<exists>z. w_buf (c_out c') = w_buf w @ z \<and> n = of_nat (length z)
    \<and> list_all2 reads_back ops (archive_walk (z @ rest, k))"
proof -
  obtain z es where z: "w_buf (c_out c') = w_buf w @ z" "n = of_nat (length z)"
    "\<forall>rest k. archive_walk (z @ rest, k) = map (\<lambda>e. Inr (ent_of e)) es"
    "list_all2 (\<lambda>x e. entry_wf e \<and> NUL \<notin> set (e_name e) \<and> e_md e = op_md x \<and> e_name e = arch_name (op_path x)) ops es"
    by (rule archive_run_entries [OF assms])
  have "reads_back x (Inr (ent_of e))"
    if "entry_wf e \<and> NUL \<notin> set (e_name e) \<and> e_md e = op_md x \<and> e_name e = arch_name (op_path x)" for x e
  proof -
    from that have "ent_name (ent_of e) = e_name e" by (blast intro: ent_name_ent_of)
    with that show ?thesis unfolding reads_back_def by (metis ArchiveEnt.simps(1) ent_of_def)
  qed
  with z(4) have "list_all2 reads_back ops (map (\<lambda>e. Inr (ent_of e)) es)"
    by (auto simp: list.rel_map elim!: list_all2_mono)
  with z show ?thesis by (intro exI [of _ z]) simp
qed

text \<open>
  C1. Round trip of the archive writer and the archive walker: for any sequence of
  archiving operations that succeeds on a fresh state, followed by the trailer, walking
  the bytes they appended to the output (whatever follows them, a read error included) yields one item per
  operation, in order, with the operation's metadata (the length of the stored data
  included) and its trimmed path name; and the trailer returns the number of bytes written. The
  names hold no nul and are not that of the trailer, which the format reserves, and the maximal name
  size is at most \<^verbatim>\<open>PATH_MAX\<close>.
\<close>

theorem archive_walk_roundtrip:
  assumes "for_each ops run_op \<lparr>c_state = new_state props, c_out = w\<rparr> = (Inr (), c)"
    and "archive_trailer c = (Inr n, c')"
    and "unat (namesize_max props) \<le> PATH_MAX"
    and "\<forall>x\<in>set ops. NUL \<notin> set (arch_name (op_path x)) \<and> arch_name (op_path x) \<noteq> trailer_name"
  shows "\<exists>z. w_buf (c_out c') = w_buf w @ z \<and> n = of_nat (length z)
    \<and> list_all2 reads_back ops (archive_walk (z @ rest, k))"
  using assms by (rule archive_run_walk)

text \<open>A directory, a file in it and a link to the file, on an unlimited device.\<close>

theorem archive_walk_roundtrip_witness:
  "\<exists>c n c' z. for_each sample_ops run_op \<lparr>c_state = new_state default_props, c_out = \<lparr>w_buf = [], w_room = None\<rparr>\<rparr> = (Inr (), c)
    \<and> archive_trailer c = (Inr n, c') \<and> w_buf (c_out c') = z \<and> n = of_nat (length z)
    \<and> list_all2 reads_back sample_ops (archive_walk (z @ ''rest'', Some PermissionDenied))"
proof -
  have names: "\<forall>x\<in>set sample_ops. NUL \<notin> set (arch_name (op_path x)) \<and> arch_name (op_path x) \<noteq> trailer_name"
    by (simp add: sample_ops_def arch_name_def sample_names trailer_name_def)
  obtain c n c' where "for_each sample_ops run_op
      \<lparr>c_state = new_state default_props, c_out = \<lparr>w_buf = [], w_room = None\<rparr>\<rparr> = (Inr (), c)"
    and "archive_trailer c = (Inr n, c')"
    using archive_ops_run [OF _ _ sample_ok, of default_props "\<lparr>w_buf = [], w_room = None\<rparr>"]
    by (auto simp: props_aligned_def default_props_def PATH_MAX_def)
  with archive_walk_roundtrip [OF this _ names, of "''rest''" "Some PermissionDenied"] show ?thesis
    by (auto simp: default_props_def PATH_MAX_def)
qed

section \<open>Arbitrary input, and one operation at a time\<close>

definition walk_item_ok :: "ArchiveEnt res \<Rightarrow> bool" where
  "walk_item_ok item \<longleftrightarrow>
    (case item of
       Inl e \<Rightarrow> \<exists>k m. e = IoErr k m
     | Inr ent \<Rightarrow> length (ae_name ent) = PATH_MAX + 1 \<and> 0 < unat (ae_namesize ent) \<and> unat (ae_namesize ent) \<le> PATH_MAX + 1)"

lemma hdr_field_error: "hdr_field f = Inl e \<Longrightarrow> \<exists>k m. e = IoErr k m"
  by (auto simp: hdr_field_def split: if_splits option.splits)

text \<open>A header has all the fields that are asked for, so no \<^verbatim>\<open>unwrap\<close> of the field iterator fails.\<close>

lemma length_chunks_exact: "0 < n \<Longrightarrow> length (chunks_exact n xs) = length xs div n"
proof (induction n xs rule: chunks_exact.induct)
  case (1 n xs)
  show ?case
  proof (cases "length xs < n")
    case True
    then show ?thesis by (simp add: chunks_exact.simps [of n xs])
  next
    case False
    then have "length xs div n = Suc ((length xs - n) div n)" using 1(2) by (simp add: div_if)
    with False 1 show ?thesis by (simp add: chunks_exact.simps [of n xs])
  qed
qed

lemma md_next_fields:
  assumes "m < length it" and "md_next (drop m it) = (r, it')"
  shows "it' = drop (Suc m) it" and "r = Inl e \<Longrightarrow> \<exists>k s. e = IoErr k s"
  using assms by (auto simp: md_next_def Cons_nth_drop_Suc [symmetric] dest: hdr_field_error)

lemma bind_md_error:
  assumes "fst (bindE (md_nth n) f (drop m it)) = Inl e" and "m + n < length it"
    and "\<And>x. fst (f x (drop (Suc (m + n)) it)) = Inl e \<Longrightarrow> \<exists>k s. e = IoErr k s"
  shows "\<exists>k s. e = IoErr k s"
proof -
  obtain r it' where n: "md_next (drop (m + n) it) = (r, it')" by (rule prod.exhaust)
  note md = md_next_fields [OF assms(2) n]
  from n have "md_nth n (drop m it) = (r, it')" by (simp add: md_nth_def add.commute)
  then show ?thesis using assms md by (cases r) auto
qed

lemma md_next_nth: "md_next = md_nth 0"
  by (simp add: fun_eq_iff md_nth_def)

lemma archive_read_newc_md_error:
  assumes "archive_read_newc_md h = Inl e" and "length h = 104"
  shows "\<exists>k m. e = IoErr k m"
proof -
  let ?it = "chunks_exact 8 h"
  have l: "length ?it = 13" using assms(2) by (simp add: length_chunks_exact)
  note step = bind_md_error [where it = ?it, unfolded l]
  show ?thesis
    using assms(1) unfolding archive_read_newc_md_def md_next_nth
    apply (subst (asm) drop_0 [of ?it, symmetric])
    apply ((erule step, simp)+)
    apply (auto split: if_splits)
    done
qed

lemma archive_read_newc_md_namesize:
  "archive_read_newc_md h = Inr (md, namesize) \<Longrightarrow> 0 < unat namesize \<and> unat namesize \<le> PATH_MAX + 1"
  by (auto simp: archive_read_newc_md_def prod_eq_iff [symmetric] unat_gt_0 bindE_def split: if_splits sum.splits prod.splits)

lemma unat_add_le: "unat (a + b :: u64) \<le> unat a + unat b"
  by (simp add: unat_word_ariths(1))

lemma archive_seek_fits:
  "unat (archive_padlen a 4 + ucast (len :: u32) + archive_padlen b 4 :: u64) < 2 ^ 63"
proof -
  have p: "unat (archive_padlen x 4) < 4" for x by (simp add: archive_padlen_4 zpad4_less)
  have "(ucast len :: u64) = of_nat (unat len)" by simp
  then have u: "unat (ucast len :: u64) = unat len"
    using u32_less [of len] by (simp only:) (intro unat_of_nat_small, simp)
  have "unat (archive_padlen a 4 + ucast len + archive_padlen b 4 :: u64)
      \<le> unat (archive_padlen a 4) + unat (ucast len :: u64) + unat (archive_padlen b 4)"
    using unat_add_le [of "archive_padlen a 4" "ucast len"]
      unat_add_le [of "archive_padlen a 4 + ucast len" "archive_padlen b 4"] by simp
  then show ?thesis using p [of a] p [of b] u32_less [of len] u by simp
qed

lemma archive_next_item:
  assumes "archive_next sk rd = (Some item, rd')"
  shows "walk_item_ok item" and "item = Inr ent \<Longrightarrow> length (fst rd') + 110 \<le> length (fst rd)"
proof -
  note fits = archive_seek_fits [unfolded not_le [symmetric], simplified]
  note d = archive_next_def Let_def read_exact_def NEWC_HDR_LEN_def
  show "walk_item_ok item"
    using assms unfolding d
    by (auto simp: fits walk_item_ok_def dest: archive_read_newc_md_error archive_read_newc_md_namesize
        split: if_splits option.splits sum.splits prod.splits)
  show "length (fst rd') + 110 \<le> length (fst rd)" if "item = Inr ent"
    using assms that unfolding d
    by (auto split: if_splits option.splits sum.splits prod.splits)
qed

text \<open>
  C12. The walker is total: on any input at all, not only on archives that the writer made, with
  a read error at any place of it and seek errors wherever the reader gives them, it stops after
  at most one entry for each 110 bytes, all items but the last are entries, a fault it reports is
  an I/O error and never a panic (the header has every field that is unwrapped, the name fits its
  buffer, the distance to seek fits 64 signed bits), and every entry it returns has a name buffer
  of the fixed size and a name within it.
\<close>

theorem archive_walk_typed:
  "list_all walk_item_ok (archive_walk_on sk rd)
    \<and> list_all (Not \<circ> isl) (butlast (archive_walk_on sk rd))
    \<and> 110 * length (filter (Not \<circ> isl) (archive_walk_on sk rd)) \<le> length (fst rd)"
proof (induction sk rd rule: archive_walk_on.induct)
  case (1 sk rd)
  obtain r rd' where n: "archive_next sk rd = (r, rd')" by (rule prod.exhaust)
  consider "r = None" | e where "r = Some (Inl e)" | ent where "r = Some (Inr ent)" by (metis option.exhaust sum.exhaust)
  then show ?case
  proof cases
    case 3
    with n archive_next_item [of sk rd "Inr ent" rd'] 1 [OF n [symmetric] 3 refl] show ?thesis
      by (simp add: archive_walk_on.simps [of sk rd])
  qed (use n archive_next_item(1) [of sk rd _ rd'] in \<open>simp_all add: archive_walk_on.simps [of sk rd]\<close>)
qed

text \<open>
  C11. The archive writer refines a list of entries: on an output that holds the entries
  \<open>es\<close>, an operation that returns without error has the effect of appending its own entry to \<open>es\<close>,
  numbered by the inode counter, and leaves the invariant (offset counting the bytes of the
  entries, next header aligned) for the next operation.
\<close>

theorem archive_op_refines:
  assumes "run_op x c = (Inr (), c')" and "holds base es c"
  shows "holds base (es @ [op_entry x (c_state c)]) c' \<and> as_ino (c_state c') = as_ino (c_state c) + 1"
  using op_archiver.extends_archive [OF assms] op_archiver.ino_next [OF assms(1)] assms(2) by (simp add: holds_def)

theorem archive_op_refines_witness:
  "\<exists>c c'. let x = hd sample_ops in
     run_op x c = (Inr (), c') \<and> holds [] [] c \<and> holds [] [op_entry x (c_state c)] c' \<and> as_ino (c_state c') = 1"
proof -
  let ?c = "\<lparr>c_state = new_state default_props, c_out = \<lparr>w_buf = [], w_room = None\<rparr>\<rparr>"
  have h: "holds [] [] ?c" by (simp add: holds_def ready_def new_state_def default_props_def PATH_MAX_def)
  obtain c' where "run_op (hd sample_ops) ?c = (Inr (), c')"
    using archive_ops_run [OF _ _ sample_ok, of default_props "\<lparr>w_buf = [], w_room = None\<rparr>"]
    by (auto simp: sample_ops_def bindE_Inr_iff props_aligned_def default_props_def PATH_MAX_def)
  with archive_op_refines [OF this h] h show ?thesis
    unfolding Let_def by (intro exI [of _ ?c] exI [of _ c'] conjI) (simp_all add: new_state_def default_props_def)
qed

end
