(* ===== verification/Cut_Trace.thy ===== *)
theory Cut_Trace
  imports Cut_Main Cpio_Walk
begin

text \<open>
  What a run of \<^verbatim>\<open>rapido-cut\<close> does to the archive, as the sequence of archiving operations it
  performs. Every function of the tool obeys every law on such sequences that allows single
  operations and marking paths as seen, and is closed under composition.
\<close>

named_theorems logs_intro \<open>compositional rules for the archiving operations an effect performs\<close>

section \<open>The archiving operations of an effect\<close>

definition performs :: "archive_op list \<Rightarrow> cut \<Rightarrow> cut \<Rightarrow> bool" where
  "performs ops s t \<longleftrightarrow> for_each ops run_op (cu_cpio s) = (Inr (), cu_cpio t)"

lemma performs_Nil [simp]: "performs [] s t \<longleftrightarrow> cu_cpio t = cu_cpio s"
  by (auto simp: performs_def)

lemma performs_append: "performs xs s t \<Longrightarrow> performs ys t u \<Longrightarrow> performs (xs @ ys) s u"
  by (simp add: performs_def for_each_append)

definition steady :: "host \<Rightarrow> bool" where
  "steady h \<longleftrightarrow> (\<forall>p md f. h_open h p = Inr (md, f) \<longrightarrow> snd f \<noteq> Some NotFound)"

fun op_steady :: "archive_op \<Rightarrow> bool" where
  "op_steady (ArchiveFile p md rd) \<longleftrightarrow> snd rd \<noteq> Some NotFound"
| "op_steady _ \<longleftrightarrow> True"

abbreviation not_missing :: "fault \<Rightarrow> bool" where
  "not_missing e \<equiv> err_kind e \<noteq> Some NotFound"

lemma emit_not_missing [throws_intro]: "throws not_missing (emit z)"
  by (auto simp: throws_def emit_def write_all_def err_kind_def split: option.splits if_splits prod.splits)

lemma pads_not_missing [throws_intro]:
  "throws not_missing emit_name_pad" "throws not_missing emit_data_pad"
  by (auto simp: emit_name_pad_def emit_data_pad_def add_off_def intro!: throws_intro)

lemma name_zeros_not_missing [throws_intro]: "throws not_missing (name_zeros das)"
  unfolding name_zeros_def by (intro throws_intro) (simp_all add: err_kind_def)

lemma io_copy_not_missing [throws_intro]:
  "snd rd \<noteq> Some NotFound \<Longrightarrow> throws not_missing (io_copy rd)"
  unfolding io_copy_def by (cases "snd rd"; simp; intro throws_intro) (simp add: err_kind_def)

lemma trim_not_missing [throws_intro]: "throws not_missing (lift_res (path_trim_prefixes p))"
  by (rule throws_lift_res) (auto simp: path_trim_prefixes_def Let_def err_kind_def split: if_splits)

lemma run_op_not_missing: "op_steady x \<Longrightarrow> throws not_missing (run_op x)"
proof (cases x)
  case (ArchivePath p md)
  show ?thesis
    unfolding ArchivePath run_op.simps archive_path_def
    by (intro throws_intro) (simp add: err_kind_def)
next
  case (ArchiveSymlink p md tgt)
  show ?thesis
    unfolding ArchiveSymlink run_op.simps archive_symlink_def
    by (intro throws_intro) (simp_all add: err_kind_def)
next
  case (ArchiveFile p md rd)
  assume "op_steady x"
  with ArchiveFile show ?thesis
    unfolding ArchiveFile run_op.simps archive_file_def
    by (intro throws_intro) (simp_all add: err_kind_def)
qed

lemma on_cpio_run_op:
  assumes "on_cpio (run_op x) s = (r, t)" and "recoverable r" and "op_steady x"
  shows "r = Inr () \<and> performs [x] s t \<and> paths_seen t = paths_seen s"
proof -
  from assms(1) obtain c where c: "run_op x (cu_cpio s) = (r, c)" and t: "t = s\<lparr>cu_cpio := c\<rparr>"
    by (auto simp: on_cpio_def split: prod.splits)
  from throwsD [OF run_op_not_missing [OF assms(3)]] c assms(2) have "r = Inr ()"
    by (cases r) auto
  with c t show ?thesis by (simp add: performs_def)
qed

text \<open>
  \<open>logs R m\<close>: whenever \<open>m\<close> ends with a result the program can go on after, it has performed
  a sequence of archiving operations that \<open>R\<close> relates to the states before and after.
\<close>

type_synonym trace_rel = "cut \<Rightarrow> archive_op list \<Rightarrow> cut \<Rightarrow> bool"

definition logs :: "trace_rel \<Rightarrow> (cut, 'a) eff \<Rightarrow> bool" where
  "logs R m \<longleftrightarrow> (\<forall>s r t. m s = (r, t) \<longrightarrow> recoverable r \<longrightarrow> (\<exists>ops. performs ops s t \<and> R s ops t))"

lemma logsI:
  "(\<And>s r t. m s = (r, t) \<Longrightarrow> recoverable r \<Longrightarrow> \<exists>ops. performs ops s t \<and> R s ops t) \<Longrightarrow> logs R m"
  by (simp add: logs_def)

lemma logsE:
  assumes "logs R m" and "m s = (r, t)" and "recoverable r"
  obtains ops where "performs ops s t" and "R s ops t"
  using assms unfolding logs_def by blast

locale trace_law =
  fixes R :: trace_rel
  assumes idle: "paths_seen t = paths_seen s \<Longrightarrow> R s [] t"
    and follow: "R s xs t \<Longrightarrow> R t ys u \<Longrightarrow> R s (xs @ ys) u"
begin

lemma logs_idle: "(\<And>s r t. m s = (r, t) \<Longrightarrow> cu_cpio t = cu_cpio s \<and> paths_seen t = paths_seen s) \<Longrightarrow> logs R m"
proof (rule logsI)
  fix s r t
  assume "\<And>s r t. m s = (r, t) \<Longrightarrow> cu_cpio t = cu_cpio s \<and> paths_seen t = paths_seen s" and "m s = (r, t)"
  then show "\<exists>ops. performs ops s t \<and> R s ops t" by (intro exI [of _ "[]"]) (auto intro: idle)
qed

lemma logs_base [logs_intro]:
  "logs R (ret x)" "logs R (throw e)" "logs R (lift_res z)" "logs R (getE f)" "logs R (archive_md md)"
  by (rule logs_idle, auto simp: archive_md_def bindE_def)+

lemma logs_on_libs [logs_intro]: "logs R (on_libs m)"
  by (rule logs_idle) (auto simp: on_libs_def split: prod.splits)

lemma logs_bindE [logs_intro]:
  assumes "logs R m" and "\<And>x. logs R (f x)"
  shows "logs R (bindE m f)"
proof (rule logsI)
  fix s r t
  assume b: "bindE m f s = (r, t)" and r: "recoverable r"
  from b show "\<exists>ops. performs ops s t \<and> R s ops t"
  proof (cases rule: bindE_cases)
    case (fail e)
    with r have "recoverable (Inl e :: 'b res)" by simp
    then have "recoverable (Inl e :: 'a res)" by simp
    with assms(1) fail(1) show ?thesis by (meson logsE)
  next
    case (step x u)
    obtain xs where xs: "performs xs s u" "R s xs u" by (rule logsE [OF assms(1) step(1)]) auto
    obtain ys where ys: "performs ys u t" "R u ys t" by (rule logsE [OF assms(2) step(2) r])
    from xs ys show ?thesis by (intro exI [of _ "xs @ ys"]) (simp add: performs_append follow)
  qed
qed

lemma logs_seqE [logs_intro]: "logs R m \<Longrightarrow> logs R n \<Longrightarrow> logs R (seqE m n)"
  unfolding seqE_def by (intro logs_intro)

lemma logs_if [logs_intro]: "(b \<Longrightarrow> logs R m) \<Longrightarrow> (\<not> b \<Longrightarrow> logs R n) \<Longrightarrow> logs R (if b then m else n)"
  by simp

lemma logs_option [logs_intro]:
  "(z = None \<Longrightarrow> logs R m) \<Longrightarrow> (\<And>x. z = Some x \<Longrightarrow> logs R (f x)) \<Longrightarrow> logs R (case z of None \<Rightarrow> m | Some x \<Rightarrow> f x)"
  by (cases z) auto

lemma logs_sum [logs_intro]:
  "(\<And>e. z = Inl e \<Longrightarrow> logs R (m e)) \<Longrightarrow> (\<And>x. z = Inr x \<Longrightarrow> logs R (f x)) \<Longrightarrow>
    logs R (case z of Inl e \<Rightarrow> m e | Inr x \<Rightarrow> f x)"
  by (cases z) auto

lemma logs_prod [logs_intro]: "(\<And>a b. z = (a, b) \<Longrightarrow> logs R (f a b)) \<Longrightarrow> logs R (case z of (a, b) \<Rightarrow> f a b)"
  by (cases z) auto

lemma logs_bool [logs_intro]:
  "(b \<Longrightarrow> logs R m) \<Longrightarrow> (\<not> b \<Longrightarrow> logs R n) \<Longrightarrow> logs R (case b of True \<Rightarrow> m | False \<Rightarrow> n)"
  by (cases b) auto

lemma logs_Let [logs_intro]: "(\<And>x. x = z \<Longrightarrow> logs R (f x)) \<Longrightarrow> logs R (let x = z in f x)"
  by simp

lemma logs_for_each [logs_intro]: "(\<And>x. x \<in> set xs \<Longrightarrow> logs R (f x)) \<Longrightarrow> logs R (for_each xs f)"
proof (induction xs)
  case Nil
  show ?case by (rule logs_idle) auto
next
  case (Cons x xs)
  then have "logs R (bindE (f x) (\<lambda>_. for_each xs f))" by (intro logs_bindE) auto
  then show ?case by (simp add: logs_def)
qed

lemma logs_ignore_missing [logs_intro]: "logs R m \<Longrightarrow> logs R (ignore_missing m)"
proof (rule logsI)
  fix s r t
  assume m: "logs R m" and i: "ignore_missing m s = (r, t)" and r: "recoverable r"
  from i r obtain r' where "m s = (r', t)" "recoverable r'"
    by (cases "m s" rule: prod.exhaust, cases "fst (m s)")
      (auto simp: ignore_missing_def tryE_def split: if_splits)
  with m show "\<exists>ops. performs ops s t \<and> R s ops t" by (meson logsE)
qed

lemma logs_open:
  assumes "steady h" and "\<And>md f. snd f \<noteq> Some NotFound \<Longrightarrow> logs R (g (md, f))"
  shows "logs R (bindE (lift_res (os (h_open h p))) g)"
proof (cases "h_open h p")
  case (Inl k)
  then show ?thesis by (intro logs_idle) (auto simp: bindE_def)
next
  case (Inr y)
  obtain md f where y: "y = (md, f)" by (cases y)
  with assms(1) Inr have "snd f \<noteq> Some NotFound" by (cases f) (auto simp: steady_def)
  from assms(2) [OF this, of md] Inr y show ?thesis by (simp add: logs_def bindE_def)
qed

end

text \<open>A law that allows any archiving operation and any path to be marked as seen.\<close>

locale free_trace = trace_law +
  assumes mark: "paths_seen t = insert k (paths_seen s) \<Longrightarrow> R s [] t"
    and single: "paths_seen t = paths_seen s \<Longrightarrow> R s [x] t"
begin

lemma logs_see [logs_intro]: "logs R (see p)" "logs R (see_quietly p)"
proof -
  show "logs R (see p)"
    by (rule logsI, rule exI [of _ "[]"]) (auto simp: see_def intro: mark)
  then show "logs R (see_quietly p)" unfolding see_quietly_def by (intro logs_intro)
qed

lemma logs_op: "op_steady x \<Longrightarrow> logs R (on_cpio (run_op x))"
proof (rule logsI)
  fix s r t
  assume "op_steady x" and "on_cpio (run_op x) s = (r, t)" and "recoverable r"
  then show "\<exists>ops. performs ops s t \<and> R s ops t"
    using on_cpio_run_op [of x s r t] by (intro exI [of _ "[x]"]) (simp add: single)
qed

lemma logs_archive [logs_intro]:
  "logs R (on_cpio (archive_path p md))"
  "logs R (on_cpio (archive_symlink p md tgt))"
  "snd f \<noteq> Some NotFound \<Longrightarrow> logs R (on_cpio (archive_file p md f))"
  using logs_op [of "ArchivePath p md"] logs_op [of "ArchiveSymlink p md tgt"] logs_op [of "ArchiveFile p md f"]
  by simp_all

lemma logs_dirs_loop [logs_intro]: "logs R (dirs_loop amd cs here)"
proof (induction amd cs here rule: dirs_loop.induct)
  case (4 amd cs here)
  then show ?case unfolding dirs_loop.simps by (intro logs_intro) auto
next
  case (5 amd c cs here)
  then show ?case unfolding dirs_loop.simps Let_def by (intro logs_intro) auto
qed (unfold dirs_loop.simps, intro logs_intro, assumption+)

lemma logs_gather_archive_dirs [logs_intro]: "logs R (gather_archive_dirs p amd)"
  unfolding gather_archive_dirs_def by (intro logs_intro)

lemma logs_archive_elf [logs_intro]:
  assumes "steady h"
  shows "logs R (archive_elf h ent src dst amd)"
proof -
  have "logs R (tryE (on_libs (elf_deps h c)) (\<lambda>r. case r of Inr d \<Rightarrow> ret d | Inl _ \<Rightarrow> ret []))" for c
    by (rule logs_idle) (auto simp: tryE_def on_libs_def split: prod.splits sum.splits)
  then show ?thesis
    unfolding archive_elf_def
    by (cases ent; simp only: GatherEnt.case Let_def; intro logs_open [OF assms] logs_intro; simp add: logs_intro)
qed

lemma logs_elf_step [logs_intro]: "steady h \<Longrightarrow> logs R (elf_step h ent)"
  unfolding elf_step_def by (cases ent; simp only: GatherEnt.case Let_def; intro logs_intro; assumption)

lemma logs_gather_archive_elfs [logs_intro]:
  assumes "steady h"
  shows "logs R (gather_archive_elfs n h elfs)"
proof -
  have "logs R (gather_elfs_loop n h elfs)" for n elfs
  proof (induction n arbitrary: elfs)
    case 0
    show ?case unfolding gather_elfs_loop.simps by (intro logs_intro)
  next
    case (Suc n)
    show ?case by (cases elfs; simp only: gather_elfs_loop.simps; intro logs_intro Suc assms)
  qed
  then show ?thesis by (simp add: gather_archive_elfs_def)
qed

lemma logs_archive_kmod_path [logs_intro]: "steady h \<Longrightarrow> logs R (archive_kmod_path h src dst)"
  unfolding archive_kmod_path_def by (intro logs_open logs_intro) simp_all

lemma logs_archive_kmod_once [logs_intro]: "steady h \<Longrightarrow> logs R (archive_kmod_once h gk p)"
  unfolding archive_kmod_once_def by (intro logs_intro)

lemma logs_archive_kmod_dep [logs_intro]: "steady h \<Longrightarrow> logs R (archive_kmod_dep h gk p)"
  unfolding archive_kmod_dep_def by (intro logs_intro)

lemma logs_gather_kmod_and_deps [logs_intro]: "steady h \<Longrightarrow> logs R (gather_archive_kmod_and_deps h name gk)"
  unfolding gather_archive_kmod_and_deps_def archive_soft_mod_def by (intro logs_intro)

lemma logs_GatherKmods_init [logs_intro]: "steady h \<Longrightarrow> logs R (GatherKmods_init h conf)"
  unfolding GatherKmods_init_def by (intro logs_intro)

lemma logs_archive_kmod_named [logs_intro]:
  assumes "steady h"
  shows "logs R (archive_kmod_named h gk ig name)"
proof (rule logsI)
  fix s r t
  assume "archive_kmod_named h gk ig name s = (r, t)" and "recoverable r"
  then obtain r' where "gather_archive_kmod_and_deps h name gk s = (r', t)" "recoverable r'"
    by (cases "gather_archive_kmod_and_deps h name gk s")
      (auto simp: archive_kmod_named_def tryE_def split: sum.splits if_splits)
  then show "\<exists>ops. performs ops s t \<and> R s ops t"
    by (rule logsE [OF logs_gather_kmod_and_deps [OF assms]]) blast
qed

lemma logs_gather_archive_kmods [logs_intro]:
  assumes "steady h"
  shows "logs R (gather_archive_kmods h conf kmods ig)"
proof -
  have "logs R (modifyE (\<lambda>s. s\<lparr>cu_gk := Some gk\<rparr>))" for gk
    by (rule logs_idle) auto
  then show ?thesis
    unfolding gather_archive_kmods_def ensure_gk_def by (intro logs_intro assms)
qed

lemma logs_data_step [logs_intro]: "steady h \<Longrightarrow> logs R (data_step h item)"
  unfolding data_step_def archive_data_def by (intro logs_open logs_intro) simp_all

lemma logs_gather_archive_data [logs_intro]:
  assumes "steady h"
  shows "logs R (gather_archive_data n h items)"
proof -
  have "logs R (gather_data_loop n h items)" for n items
  proof (induction n arbitrary: items)
    case 0
    show ?case unfolding gather_data_loop.simps by (intro logs_intro)
  next
    case (Suc n)
    show ?case by (cases items; simp only: gather_data_loop.simps; intro logs_intro Suc assms)
  qed
  then show ?thesis by (simp add: gather_archive_data_def)
qed

lemma logs_modify [logs_intro]:
  "logs R (modifyE (\<lambda>s. s\<lparr>autorun_idx := f s\<rparr>))" "logs R (modifyE (\<lambda>s. s\<lparr>cu_fests := g s\<rparr>))"
  by (rule logs_idle, auto)+

lemma logs_manifest_dir [logs_intro]: "logs R (manifest_dir h conf name)"
  unfolding manifest_dir_def by (intro logs_intro)

lemma logs_manifest_slink [logs_intro]: "logs R (manifest_slink h conf name tgt)"
  unfolding manifest_slink_def by (intro logs_intro)

lemma logs_manifest_file [logs_intro]: "steady h \<Longrightarrow> logs R (manifest_file h conf name src)"
  unfolding manifest_file_def by (intro logs_open logs_intro) simp_all

lemma logs_manifest_autorun [logs_intro]: "steady h \<Longrightarrow> logs R (manifest_autorun h conf name)"
  unfolding manifest_autorun_def by (intro logs_open logs_intro) simp_all

lemma logs_directive: "steady h \<Longrightarrow> logs R (snd (directive fuel h conf etype ws))"
  unfolding directive_def manifest_tree_def manifest_include_def manifest_autoruns_def
  by (simp only: if_distrib [of snd] snd_conv) (intro logs_intro; assumption)

lemma logs_manifest_parse_one [logs_intro]:
  assumes "steady h"
  shows "logs R (manifest_parse_one fuel h conf line)"
proof (cases "split_whitespace line")
  case Nil
  then show ?thesis unfolding manifest_parse_one_def by (simp only: list.case logs_intro)
next
  case (Cons etype ws)
  obtain n act where d: "directive fuel h conf etype ws = (n, act)" by (cases "directive fuel h conf etype ws")
  then have "logs R act" using logs_directive [OF assms, of fuel conf etype ws] by simp
  then show ?thesis
    unfolding manifest_parse_one_def Cons list.case d prod.case by (intro logs_intro)
qed

lemma logs_manifest_parse [logs_intro]:
  assumes "steady h"
  shows "logs R (manifest_parse fuel h conf)"
proof -
  have read: "logs R manifest_read"
    by (rule logs_idle) (auto simp: manifest_read_def split: list.splits prod.splits sum.splits if_splits)
  have "logs R (manifest_loop n fuel h conf)" for n
  proof (induction n)
    case 0
    show ?case unfolding manifest_loop.simps by (intro logs_intro)
  next
    case (Suc n)
    show ?case unfolding manifest_loop.simps by (intro logs_intro read Suc assms)
  qed
  then show ?thesis unfolding manifest_parse_def by (intro logs_intro)
qed

lemma logs_populate_default_symlinks [logs_intro]: "logs R populate_default_symlinks"
  unfolding populate_default_symlinks_def archive_kmods_symlink_def Let_def by (intro logs_intro)

end

text \<open>The paths seen only grow.\<close>

definition seen_grows :: trace_rel where
  "seen_grows s ops t \<longleftrightarrow> paths_seen s \<subseteq> paths_seen t"

interpretation grow: free_trace seen_grows
  by unfold_locales (auto simp: seen_grows_def)

end
