(* ===== verification/Cut_Run.thy ===== *)
theory Cut_Run
  imports Cut_Trace
begin

text \<open>
  A whole run of \<^verbatim>\<open>rapido-cut\<close> and the archive it leaves.
\<close>

lemma performs_run:
  "performs ops (cut_start w fests) t \<longleftrightarrow>
    for_each ops run_op \<lparr>c_state = new_state cut_props, c_out = w\<rparr> = (Inr (), cu_cpio t)"
  by (simp add: performs_def cut_start_def)

lemma on_cpio_Inr_iff: "on_cpio m s = (Inr x, t) \<longleftrightarrow> (\<exists>c. m (cu_cpio s) = (Inr x, c) \<and> t = s\<lparr>cu_cpio := c\<rparr>)"
  by (auto simp: on_cpio_def split: prod.splits)

lemma archive_conf_performs:
  assumes "archive_conf cf s = (Inr (), t)"
  shows "\<exists>x. op_path x = ''/rapido.conf'' \<and> performs [x] s t"
proof (cases cf)
  case None
  with assms show ?thesis
    by (intro exI [of _ "ArchivePath ''/rapido.conf'' CPIO_AMD_DEFAULT"])
      (auto simp: archive_conf_def performs_def on_cpio_Inr_iff)
next
  case (Some y)
  with assms show ?thesis
    by (cases y, intro exI [of _ "ArchiveFile ''/rapido.conf'' (fst y) (snd y)"])
      (auto simp: archive_conf_def performs_def on_cpio_Inr_iff)
qed

lemma archive_rc_performs:
  assumes "archive_rc h s = (Inr (), t)"
  shows "\<exists>x. op_path x = ''/rapido.rc'' \<and> performs [x] s t"
proof -
  from assms obtain md f amd u where "archive_md md s = (Inr amd, u)"
    and "on_cpio (archive_file ''/rapido.rc'' amd f) u = (Inr (), t)"
    unfolding archive_rc_def by (auto elim!: bindE_InrE)
  then show ?thesis
    by (intro exI [of _ "ArchiveFile ''/rapido.rc'' amd f"])
      (auto simp: performs_def on_cpio_Inr_iff archive_md_def bindE_Inr_iff)
qed

lemma cut_body_performs:
  assumes "cut_body fuel h conf cf s = (Inr n, t)" and "steady h"
  obtains x xs y ys u where "performs (x # xs @ y # ys) s u" and "on_cpio archive_trailer u = (Inr n, t)"
    and "op_path x = ''/rapido.conf''" and "op_path y = ''/rapido.rc''"
proof -
  let ?rest = "seqE (gather_archive_elfs fuel h core_elfs) (
    seqE (gather_archive_kmods h conf (conf_kmod_deps conf) False) populate_default_symlinks)"
  from assms(1) obtain s1 s2 s3 u where c: "archive_conf cf s = (Inr (), s1)"
    and m: "manifest_parse fuel h conf s1 = (Inr (), s2)" and r: "archive_rc h s2 = (Inr (), s3)"
    and g: "?rest s3 = (Inr (), u)" and t: "on_cpio archive_trailer u = (Inr n, t)"
    unfolding cut_body_def by (auto simp: seqE_Inr_iff)
  from archive_conf_performs [OF c] obtain x where x: "op_path x = ''/rapido.conf''" "performs [x] s s1" by blast
  from grow.logs_manifest_parse [OF assms(2)] m obtain xs where xs: "performs xs s1 s2"
    by (rule logsE) simp
  from archive_rc_performs [OF r] obtain y where y: "op_path y = ''/rapido.rc''" "performs [y] s2 s3" by blast
  have "logs seen_grows ?rest" by (intro grow.logs_seqE grow.logs_gather_archive_elfs
      grow.logs_gather_archive_kmods grow.logs_populate_default_symlinks assms(2))
  then obtain ys where ys: "performs ys s3 u" using g by (rule logsE) simp
  have "performs ([x] @ xs @ [y] @ ys) s u" using x(2) xs y(2) ys by (intro performs_append)
  with x(1) y(1) t show thesis by (intro that) simp_all
qed

text \<open>
  C2. Whatever the host holds and the manifests say, a run of \<^verbatim>\<open>rapido-cut\<close> that ends
  without an error has performed a sequence of archiving operations on the truncated output,
  from \<^verbatim>\<open>/rapido.conf\<close> as the first one over \<^verbatim>\<open>/rapido.rc\<close> to the last, and written the
  trailer. The length it reports is the length of the output, and walking the output gives
  back one entry per operation, in order, with its metadata and name (unless some archived
  path holds a nul or is itself named like the trailer).
\<close>

theorem cut_main_archive:
  assumes "cut_main fuel h dbg out_open args = (Inr n, Some (p, s))" and "steady h"
  shows "n = of_nat (length (w_buf (c_out (cu_cpio s))))
    \<and> (\<exists>x xs y ys w fests u. performs (x # xs @ y # ys) (cut_start (w\<lparr>w_buf := []\<rparr>) fests) u
        \<and> on_cpio archive_trailer u = (Inr n, s)
        \<and> op_path x = ''/rapido.conf'' \<and> op_path y = ''/rapido.rc''
        \<and> ((\<forall>z\<in>set (x # xs @ y # ys). NUL \<notin> set (arch_name (op_path z)) \<and> arch_name (op_path z) \<noteq> trailer_name) \<longrightarrow>
            list_all2 reads_back (x # xs @ y # ys) (archive_walk (w_buf (c_out (cu_cpio s)), None))))"
proof -
  from assms(1) obtain w conf cf fests where
    b: "cut_body fuel h conf cf (cut_start (w\<lparr>w_buf := []\<rparr>) fests) = (Inr n, s)"
    by (auto simp: cut_main_def split: sum.splits arg_error.splits prod.splits)
  from cut_body_performs [OF b assms(2)] obtain x xs y ys u where
    ops: "performs (x # xs @ y # ys) (cut_start (w\<lparr>w_buf := []\<rparr>) fests) u"
    and t: "on_cpio archive_trailer u = (Inr n, s)"
    and xy: "op_path x = ''/rapido.conf''" "op_path y = ''/rapido.rc''" .
  have "archive_trailer (cu_cpio u) = (Inr n, cu_cpio s)" using t by (auto simp: on_cpio_Inr_iff)
  note run = ops [unfolded performs_run] this
  have m: "unat (namesize_max cut_props) \<le> PATH_MAX" by (simp add: cut_props_def default_props_def PATH_MAX_def)
  show ?thesis
  proof (intro conjI exI)
    show "n = of_nat (length (w_buf (c_out (cu_cpio s))))" using archive_run_length [OF run m] by simp
    show "(\<forall>z\<in>set (x # xs @ y # ys). NUL \<notin> set (arch_name (op_path z)) \<and> arch_name (op_path z) \<noteq> trailer_name) \<longrightarrow>
        list_all2 reads_back (x # xs @ y # ys) (archive_walk (w_buf (c_out (cu_cpio s)), None))"
      using archive_run_walk [OF run m, where rest = "[]" and k = None] by auto
  qed (fact ops t xy)+
qed

end
