(* ===== verification/Cut_Dirs.thy ===== *)
theory Cut_Dirs
  imports Cut_Trace
begin

text \<open>
  Parent directories in \<^verbatim>\<open>rapido-cut\<close>: which directories \<^verbatim>\<open>gather_archive_dirs\<close> archives, and
  the order that unpacking relies on, every directory before what it holds.
\<close>

section \<open>The directories above an entry\<close>

abbreviation op_key :: "archive_op \<Rightarrow> path_key" where
  "op_key x \<equiv> components (op_path x)"

fun dir_keys :: "path_key \<Rightarrow> bytes list \<Rightarrow> path_key list" where
  "dir_keys q [] = []"
| "dir_keys q (n # ns) = (q @ [Normal n]) # dir_keys (q @ [Normal n]) ns"

lemma dir_keys_longer: "k \<in> set (dir_keys q ns) \<Longrightarrow> length q < length k"
  by (induction q ns rule: dir_keys.induct) auto

lemma dir_keys_distinct: "distinct (dir_keys q ns)"
  by (induction q ns rule: dir_keys.induct) (auto dest: dir_keys_longer)

lemma dir_keys_prefix: "k \<in> set (dir_keys q ns) \<longleftrightarrow> (\<exists>j. 0 < j \<and> j \<le> length ns \<and> k = q @ map Normal (take j ns))"
proof (induction q ns rule: dir_keys.induct)
  case (2 q n ns)
  have ex: "(\<exists>j. 0 < j \<and> j \<le> Suc N \<and> P j) \<longleftrightarrow> P 1 \<or> (\<exists>j. 0 < j \<and> j \<le> N \<and> P (Suc j))" for P and N :: nat
  proof
    assume "\<exists>j. 0 < j \<and> j \<le> Suc N \<and> P j"
    then obtain j where "j \<le> N" "P (Suc j)" by (metis Suc_le_mono Suc_pred)
    then show "P 1 \<or> (\<exists>j. 0 < j \<and> j \<le> N \<and> P (Suc j))" by (cases j) auto
  qed auto
  show ?case using 2 ex [of "length ns" "\<lambda>j. k = q @ map Normal (take j (n # ns))"] by simp
qed auto

lemma split_on_pieces: "c \<in> set (split_on P s) \<Longrightarrow> x \<in> set c \<Longrightarrow> \<not> P x"
proof (induction s arbitrary: c)
  case (Cons a s)
  then show ?case by (cases "split_on P s") (fastforce split: if_splits)+
qed simp

lemma plain_body: "Normal c \<in> set (body_components p) \<Longrightarrow> plain_name c"
  by (auto simp: body_components_def List.map_filter_def parse_single_component_def plain_name_def
      dest: split_on_pieces split: if_splits)

lemma plain_component: "Normal c \<in> set (components p) \<Longrightarrow> plain_name c"
  by (auto simp: components_def dest: plain_body split: if_splits)

text \<open>One directory: marked as seen and, when it was new, archived.\<close>

lemma see_then_archive:
  assumes "bindE (see p) (\<lambda>new. if new then seqE (on_cpio (run_op x)) m else m) s = (r, t)"
    and "recoverable r" and "op_steady x" and "op_path x = p"
  obtains u ops where "performs ops s u" and "m u = (r, t)" and "paths_seen u = insert (components p) (paths_seen s)"
    and "ops = (if seen p s then [] else [x])"
proof (cases "seen p s")
  case True
  let ?u = "s\<lparr>paths_seen := insert (components p) (paths_seen s)\<rparr>"
  have "m ?u = (r, t)" using assms(1) True by (simp add: see_def bindE_def)
  then show thesis using True by (intro that [of "[]" ?u]) simp_all
next
  case False
  let ?u = "s\<lparr>paths_seen := insert (components p) (paths_seen s)\<rparr>"
  have "bindE (on_cpio (run_op x)) (\<lambda>_. m) ?u = (r, t)" using assms(1) False by (simp add: see_def bindE_def seqE_def)
  then show thesis
  proof (cases rule: bindE_cases)
    case (fail e)
    then have "recoverable (Inl e :: unit res)" using assms(2) by simp
    with on_cpio_run_op [OF fail(1) _ assms(3)] show thesis by simp
  next
    case (step y v)
    from on_cpio_run_op [OF step(1) _ assms(3)] have v: "performs [x] ?u v" "paths_seen v = paths_seen ?u" by simp_all
    then have "performs [x] s v" by (simp add: performs_def)
    with v step(2) False show thesis by (intro that [of "[x]" v]) simp_all
  qed
qed

lemma dirs_loop_spec:
  assumes "dirs_loop amd (map Normal ns) here s = (r, t)" and "recoverable r" and "is_absolute here"
    and "\<forall>n\<in>set ns. plain_name n"
  shows "r = Inr () \<and> (\<exists>ops. performs ops s t
    \<and> map op_key ops = filter (\<lambda>k. k \<notin> paths_seen s) (dir_keys (components here) ns)
    \<and> paths_seen t = paths_seen s \<union> set (dir_keys (components here) ns)
    \<and> (\<forall>x\<in>set ops. \<exists>p. x = ArchivePath p amd))"
  using assms
proof (induction ns arbitrary: here s)
  case Nil
  then show ?case by (intro conjI exI [of _ "[]"]) simp_all
next
  case (Cons n ns)
  let ?here = "path_join here n"
  let ?x = "ArchivePath ?here amd"
  have k: "components ?here = components here @ [Normal n]"
    using Cons.prems(3,4) by (intro components_join) simp_all
  have "bindE (see ?here) (\<lambda>new. if new then seqE (on_cpio (run_op ?x)) (dirs_loop amd (map Normal ns) ?here)
      else dirs_loop amd (map Normal ns) ?here) s = (r, t)"
    using Cons.prems(1) by (simp add: Let_def cong: if_cong)
  then obtain u xs where
    u: "performs xs s u" "dirs_loop amd (map Normal ns) ?here u = (r, t)"
      "paths_seen u = insert (components ?here) (paths_seen s)" "xs = (if seen ?here s then [] else [?x])"
    by (rule see_then_archive [OF _ Cons.prems(2)]) simp_all
  from Cons.IH [OF u(2) Cons.prems(2) is_absolute_join [OF Cons.prems(3)]] Cons.prems(4) obtain ys where
    r: "r = Inr ()" and ys: "performs ys u t"
      "map op_key ys = filter (\<lambda>k. k \<notin> paths_seen u) (dir_keys (components ?here) ns)"
      "paths_seen t = paths_seen u \<union> set (dir_keys (components ?here) ns)" "\<forall>x\<in>set ys. \<exists>p. x = ArchivePath p amd" by auto
  have "filter (\<lambda>k. k \<notin> paths_seen u) (dir_keys (components ?here) ns)
      = filter (\<lambda>k. k \<notin> paths_seen s) (dir_keys (components ?here) ns)"
    using u(3) by (intro filter_cong) (auto dest: dir_keys_longer)
  with r ys u show ?case
    by (intro conjI exI [of _ "xs @ ys"]) (auto simp: performs_append seen_def k)
qed


lemma components_root: "components p = RootDir # map Normal ns \<Longrightarrow> is_absolute p"
proof (rule ccontr)
  assume c: "components p = RootDir # map Normal ns" and a: "\<not> is_absolute p"
  have "RootDir \<notin> set (body_components q)" for q
    by (auto simp: body_components_def List.map_filter_def parse_single_component_def split: if_splits)
  with c a show False by (auto simp: components_def split: if_splits) (metis list.set_intros(1))
qed

definition new_dirs :: "path_key set \<Rightarrow> bytes list \<Rightarrow> path_key list" where
  \<comment> \<open>the directories to archive before an entry below the directory of these names\<close>
  "new_dirs S ns =
    (if RootDir # map Normal ns \<in> S then [] else filter (\<lambda>k. k \<notin> S) (dir_keys [RootDir] ns))"

lemma gather_dirs_spec:
  assumes "gather_archive_dirs (Some p) amd s = (r, t)" and "recoverable r"
    and "components p = RootDir # map Normal ns"
  shows "r = Inr () \<and> (\<exists>ops. performs ops s t \<and> map op_key ops = new_dirs (paths_seen s) ns
    \<and> paths_seen t = paths_seen s \<union> set (new_dirs (paths_seen s) ns)
    \<and> (\<forall>x\<in>set ops. \<exists>q. x = ArchivePath q (parent_dirs_amd amd)))"
proof (cases "seen p s")
  case True
  with assms components_root [OF assms(3)] show ?thesis
    by (intro conjI exI [of _ "[]"]) (auto simp: gather_archive_dirs_def bindE_def seen_def new_dirs_def)
next
  case False
  have pl: "\<forall>n\<in>set ns. plain_name n" using plain_component [of _ p] assms(3) by auto
  have "dirs_loop (parent_dirs_amd amd) (map Normal ns) ''/'' s = (r, t)"
    using assms(1,3) False components_root [OF assms(3)] by (simp add: gather_archive_dirs_def bindE_def)
  from dirs_loop_spec [OF this assms(2) _ pl] False assms(3) show ?thesis
    by (auto simp: new_dirs_def seen_def components_def)
qed

fun parents_first :: "path_key set \<Rightarrow> path_key list \<Rightarrow> bool" where
  "parents_first S [] = True"
| "parents_first S (k # ks) = ((\<forall>j. 1 < j \<and> j < length k \<longrightarrow> take j k \<in> S) \<and> parents_first (insert k S) ks)"

definition closed :: "path_key set \<Rightarrow> bool" where
  "closed S \<longleftrightarrow> (\<forall>q\<in>S. \<forall>j. 1 < j \<and> j < length q \<longrightarrow> take j q \<in> S)"

text \<open>
  A directory that was seen before, be it archived or filtered, stops the walk to the root, so its
  own parents are left out when they were not seen: \<open>parents_in S0 S k\<close> says of the parents of \<open>k\<close> that
  they are in \<open>S\<close>, except the ones above a parent in \<open>S0\<close>.
\<close>

definition parents_in :: "path_key set \<Rightarrow> path_key set \<Rightarrow> path_key \<Rightarrow> bool" where
  "parents_in S0 S k \<longleftrightarrow> (\<forall>j. 1 < j \<and> j < length k \<longrightarrow>
    take j k \<in> S \<or> (\<exists>i. j < i \<and> i < length k \<and> take i k \<in> S0))"

fun parents_unless :: "path_key set \<Rightarrow> path_key set \<Rightarrow> path_key list \<Rightarrow> bool" where
  "parents_unless S0 S [] = True"
| "parents_unless S0 S (k # ks) = (parents_in S0 S k \<and> parents_unless S0 (insert k S) ks)"

lemma parents_in_mono: "parents_in S0 S k \<Longrightarrow> S \<subseteq> T \<Longrightarrow> parents_in S0 T k"
  unfolding parents_in_def by blast

lemma parents_in_trans:
  assumes "parents_in S1 S k" and "S1 \<subseteq> S" and "\<And>q. q \<in> S1 \<Longrightarrow> q \<notin> S0 \<Longrightarrow> parents_in S0 S1 q"
  shows "parents_in S0 S k"
  unfolding parents_in_def
proof (intro allI impI)
  fix j assume j: "1 < j \<and> j < length k"
  show "take j k \<in> S \<or> (\<exists>i. j < i \<and> i < length k \<and> take i k \<in> S0)"
  proof (cases "take j k \<in> S")
    case False
    with assms(1) j obtain i where i: "j < i" "i < length k" "take i k \<in> S1" unfolding parents_in_def by blast
    show ?thesis
    proof (cases "take i k \<in> S0")
      case False
      with assms(3) [OF i(3)] j i obtain m where "take j (take i k) \<in> S1 \<or> j < m \<and> m < i \<and> take m (take i k) \<in> S0"
        unfolding parents_in_def by fastforce
      with i assms(2) show ?thesis by (auto simp: min_def)
    qed (use i in blast)
  qed simp
qed

lemma parents_unless_append:
  "parents_unless S0 S (xs @ ys) \<longleftrightarrow> parents_unless S0 S xs \<and> parents_unless S0 (S \<union> set xs) ys"
  by (induction xs arbitrary: S) auto

lemma parents_first_unless: "parents_first S ks \<Longrightarrow> parents_unless S0 S ks"
  by (induction ks arbitrary: S) (auto simp: parents_in_def)

lemma parents_unless_in:
  assumes "parents_unless S0 S ks" and "\<And>q. q \<in> S \<Longrightarrow> q \<notin> S0 \<Longrightarrow> parents_in S0 S q" and "q \<in> S \<union> set ks" and "q \<notin> S0"
  shows "parents_in S0 (S \<union> set ks) q"
  using assms
proof (induction ks arbitrary: S)
  case (Cons k ks)
  then have "parents_in S0 (insert k S) p" if "p \<in> insert k S" "p \<notin> S0" for p
    using that parents_in_mono [of S0 S _ "insert k S"] by auto
  with Cons.IH [of "insert k S"] Cons.prems show ?case by simp
qed simp

lemma parents_unless_trans:
  assumes "parents_unless S1 S ks" and "S1 \<subseteq> S" and "\<And>q. q \<in> S1 \<Longrightarrow> q \<notin> S0 \<Longrightarrow> parents_in S0 S1 q"
  shows "parents_unless S0 S ks"
  using assms(1,2)
proof (induction ks arbitrary: S)
  case (Cons k ks)
  with parents_in_trans [OF _ _ assms(3)] show ?case by auto
qed simp

lemma parents_unless_closed:
  assumes "closed S0" and "S0 \<subseteq> S" and "parents_unless S0 S ks"
  shows "parents_first S ks"
  using assms(2,3)
proof (induction ks arbitrary: S)
  case (Cons k ks)
  have "take j k \<in> S" if j: "1 < j" "j < length k" for j
  proof (rule ccontr)
    assume "take j k \<notin> S"
    with Cons.prems j obtain i where "j < i" "i < length k" "take i k \<in> S0" by (auto simp: parents_in_def)
    then have "take j (take i k) \<in> S0" using assms(1) j unfolding closed_def by (metis length_take min.absorb4)
    with \<open>take j k \<notin> S\<close> \<open>j < i\<close> Cons.prems(1) show False by (auto simp: min_def)
  qed
  moreover have "parents_first (insert k S) ks" using Cons.prems by (intro Cons.IH) auto
  ultimately show ?case by simp
qed simp

lemma parents_first_append:
  "parents_first S (xs @ ys) \<longleftrightarrow> parents_first S xs \<and> parents_first (S \<union> set xs) ys"
  by (induction xs arbitrary: S) auto

lemma parents_first_closed: "closed S \<Longrightarrow> parents_first S ks \<Longrightarrow> closed (S \<union> set ks)"
proof (induction ks arbitrary: S)
  case (Cons k ks)
  then have "closed (insert k S)" by (auto simp: closed_def)
  then have "closed (insert k S \<union> set ks)" using Cons.IH [of "insert k S"] Cons.prems(2) by simp
  then show ?case by simp
qed simp

lemma parents_first_dirs:
  "(\<forall>j. 1 < j \<and> j \<le> length q \<longrightarrow> take j q \<in> S) \<Longrightarrow> parents_first S (filter (\<lambda>k. k \<notin> S) (dir_keys q ns))"
proof (induction q ns arbitrary: S rule: dir_keys.induct)
  case (2 q n ns)
  let ?k = "q @ [Normal n]"
  have rest: "filter (\<lambda>k. k \<notin> S) (dir_keys ?k ns) = filter (\<lambda>k. k \<notin> insert ?k S) (dir_keys ?k ns)"
    by (intro filter_cong) (auto dest: dir_keys_longer)
  have "\<forall>j. 1 < j \<and> j \<le> length ?k \<longrightarrow> take j ?k \<in> insert ?k S" using "2.prems" by (auto simp: le_Suc_eq)
  from "2.IH" [OF this] have ih: "parents_first (insert ?k S) (filter (\<lambda>k. k \<notin> S) (dir_keys ?k ns))"
    by (simp only: rest)
  have "take j ?k \<in> S" if "1 < j" "j < length ?k" for j using "2.prems" that by simp
  with ih show ?case by (cases "?k \<in> S") (simp_all add: insert_absorb)
qed simp

lemma new_dirs_props:
  "distinct (new_dirs S ns)" "set (new_dirs S ns) \<inter> S = {}" "parents_first S (new_dirs S ns)"
proof -
  have "parents_first S (filter (\<lambda>k. k \<notin> S) (dir_keys [RootDir] ns))" by (rule parents_first_dirs) auto
  then show "distinct (new_dirs S ns)" "set (new_dirs S ns) \<inter> S = {}" "parents_first S (new_dirs S ns)"
    by (auto simp: new_dirs_def dir_keys_distinct)
qed

lemma new_dirs_length: "k \<in> set (new_dirs S ns) \<Longrightarrow> length k \<le> Suc (length ns)"
  by (auto simp: new_dirs_def dir_keys_prefix split: if_splits)

text \<open>An entry with its new parent directories.\<close>

lemma new_dirs_parents:
  assumes "k = RootDir # map Normal (ns @ [n])"
  shows "parents_in S (S \<union> set (new_dirs S ns)) k"
  unfolding parents_in_def
proof (intro allI impI)
  fix j assume j: "1 < j \<and> j < length k"
  have last: "take (Suc (length ns)) k = RootDir # map Normal ns" using assms by simp
  show "take j k \<in> S \<union> set (new_dirs S ns) \<or> (\<exists>i. j < i \<and> i < length k \<and> take i k \<in> S)"
  proof (cases "RootDir # map Normal ns \<in> S")
    case True
    with last j assms show ?thesis
      by (cases "j = Suc (length ns)") (auto intro!: exI [of _ "Suc (length ns)"])
  next
    case False
    from j obtain i where i: "j = Suc i" "0 < i" by (cases j) auto
    with j assms have "[RootDir] @ map Normal (take i ns) \<in> set (dir_keys [RootDir] ns)"
      by (auto simp: dir_keys_prefix)
    with False i j assms show ?thesis by (auto simp: new_dirs_def take_map)
  qed
qed

text \<open>
  A tidy run: it archives every path once and none that was seen before, it marks exactly
  the paths it archives, and archives no path before its parent directories, up to the nearest
  one that was seen before the run.
\<close>

definition tidy :: trace_rel where
  "tidy s ops t \<longleftrightarrow> paths_seen t = paths_seen s \<union> op_key ` set ops
    \<and> distinct (map op_key ops) \<and> op_key ` set ops \<inter> paths_seen s = {}
    \<and> parents_unless (paths_seen s) (paths_seen s) (map op_key ops)"

lemma tidyD:
  assumes "tidy s ops t"
  shows "paths_seen t = paths_seen s \<union> op_key ` set ops" and "distinct (map op_key ops)"
    and "op_key ` set ops \<inter> paths_seen s = {}" and "parents_unless (paths_seen s) (paths_seen s) (map op_key ops)"
  using assms unfolding tidy_def by blast+

lemma tidy_closed:
  assumes "tidy s ops t" and "closed (paths_seen s)"
  shows "parents_first (paths_seen s) (map op_key ops)" and "closed (paths_seen t)"
proof -
  show p: "parents_first (paths_seen s) (map op_key ops)"
    using assms parents_unless_closed [OF assms(2) subset_refl] by (simp add: tidy_def)
  show "closed (paths_seen t)" using parents_first_closed [OF assms(2) p] assms(1) by (simp add: tidy_def)
qed

interpretation tidy: trace_law tidy
proof unfold_locales
  show "tidy s [] t" if "paths_seen t = paths_seen s" for s t using that by (simp add: tidy_def)
  show "tidy s (xs @ ys) u" if x: "tidy s xs t" and y: "tidy t ys u" for s xs t ys u
  proof -
    note xs = tidyD [OF x] and ys = tidyD [OF y]
    have t: "paths_seen t = paths_seen s \<union> set (map op_key xs)" using xs(1) by simp
    have "parents_in (paths_seen s) (paths_seen t) q" if "q \<in> paths_seen t" "q \<notin> paths_seen s" for q
      unfolding t by (rule parents_unless_in [OF xs(4)]) (use that t in auto)
    then have "parents_unless (paths_seen s) (paths_seen t) (map op_key ys)"
      by (rule parents_unless_trans [OF ys(4) subset_refl])
    with xs(4) have "parents_unless (paths_seen s) (paths_seen s) (map op_key (xs @ ys))"
      unfolding map_append parents_unless_append t by blast
    moreover
    have "op_key ` set (xs @ ys) \<inter> paths_seen s = {}" using xs(1,3) ys(3) by auto
    moreover have "distinct (map op_key (xs @ ys))" using xs(1,2) ys(2,3) by auto
    moreover have "paths_seen u = paths_seen s \<union> op_key ` set (xs @ ys)" using xs(1) ys(1) by auto
    ultimately show ?thesis unfolding tidy_def by (intro conjI)
  qed
qed

lemma Root_snoc: "RootDir # map Normal ms = k @ [x] \<Longrightarrow> k \<noteq> [] \<Longrightarrow> \<exists>ns n. ms = ns @ [n]"
  by (cases ms rule: rev_cases) auto

lemma tidy_entry:
  assumes k: "op_key x = RootDir # map Normal ms" and new: "op_key x \<notin> paths_seen s"
    and ks: "map op_key ds = (if ms = [] then [] else new_dirs (paths_seen s) (butlast ms))"
    and t: "paths_seen t = insert (op_key x) (paths_seen s \<union> op_key ` set ds)"
  shows "tidy s (ds @ [x]) t"
proof (cases ms rule: rev_cases)
  case Nil
  with assms show ?thesis by (auto simp: tidy_def parents_in_def)
next
  case (snoc ns n)
  then have ks': "map op_key ds = new_dirs (paths_seen s) ns" using ks by simp
  then have s: "op_key ` set ds = set (new_dirs (paths_seen s) ns)" by (metis image_set)
  have "op_key x \<notin> set (new_dirs (paths_seen s) ns)"
    using new_dirs_length [of "op_key x" "paths_seen s" ns] k snoc by auto
  moreover have "parents_unless (paths_seen s) (paths_seen s) (new_dirs (paths_seen s) ns @ [op_key x])"
    using new_dirs_parents [of "op_key x" ns n "paths_seen s"] k snoc parents_first_unless [OF new_dirs_props(3)]
    by (simp add: parents_unless_append)
  ultimately show ?thesis
    using t new new_dirs_props [of "paths_seen s" ns] by (auto simp: tidy_def ks' s)
qed

text \<open>The parent directories of a path, gathered while the path itself may be marked already.\<close>

lemma new_dirs_insert:
  "length k > Suc (length ns) \<Longrightarrow> new_dirs (insert k S) ns = new_dirs S ns"
proof -
  assume l: "length k > Suc (length ns)"
  then have "RootDir # map Normal ns \<noteq> k" by auto
  moreover have "filter (\<lambda>q. q \<notin> insert k S) (dir_keys [RootDir] ns) = filter (\<lambda>q. q \<notin> S) (dir_keys [RootDir] ns)"
    using l by (intro filter_cong) (auto simp: dir_keys_prefix)
  ultimately show ?thesis by (simp add: new_dirs_def)
qed

lemma gather_parents_spec:
  assumes "gather_archive_dirs (parent dst) amd s = (r, t)" and "recoverable r"
    and "components dst = RootDir # map Normal ms" and "insert (components dst) S = insert (components dst) (paths_seen s)"
  shows "r = Inr () \<and> (\<exists>ds. performs ds s t \<and> map op_key ds = (if ms = [] then [] else new_dirs S (butlast ms))
    \<and> paths_seen t = paths_seen s \<union> op_key ` set ds)"
proof (cases ms rule: rev_cases)
  case Nil
  then have "parent dst = None"
    using parent_components [OF components_root [OF assms(3)]] assms(3) by (auto split: option.splits)
  with Nil assms(1) show ?thesis by (intro conjI exI [of _ "[]"]) (simp_all add: gather_archive_dirs_def)
next
  case (snoc ns n)
  then obtain q where q: "parent dst = Some q" "components q = RootDir # map Normal ns"
    using parent_components [OF components_root [OF assms(3)]] assms(3)
    by (cases "parent dst") (auto simp: butlast_append)
  have "new_dirs (paths_seen s) ns = new_dirs S ns"
    using assms(3,4) snoc new_dirs_insert [of ns "components dst" "paths_seen s"] new_dirs_insert [of ns "components dst" S]
    by simp
  with gather_dirs_spec [OF assms(1) [unfolded q(1)] assms(2) q(2)] obtain ds where
    ds: "r = Inr ()" "performs ds s t" "map op_key ds = new_dirs S ns"
      "paths_seen t = paths_seen s \<union> set (new_dirs S ns)" by auto
  from ds(3) have "op_key ` set ds = set (new_dirs S ns)" by (metis image_set)
  with ds snoc show ?thesis by (intro conjI exI [of _ ds]) simp_all
qed

section \<open>Properties\<close>

text \<open>
  C24. \<^verbatim>\<open>gather_archive_dirs\<close> on an absolute path without \<^verbatim>\<open>..\<close> archives exactly the
  directories of the path that were not seen, outermost first, each with the metadata mocked
  up from the child, and marks exactly these as seen; when the path itself was seen it
  archives nothing.
\<close>

theorem gather_archive_dirs_exact:
  assumes "gather_archive_dirs (Some p) amd s = (Inr (), t)" and "components p = RootDir # map Normal ns"
  shows "\<exists>ops. performs ops s t \<and> map op_key ops = new_dirs (paths_seen s) ns
    \<and> paths_seen t = paths_seen s \<union> set (new_dirs (paths_seen s) ns)
    \<and> (\<forall>x\<in>set ops. \<exists>q. x = ArchivePath q (parent_dirs_amd amd))"
  using gather_dirs_spec [OF assms(1) _ assms(2)] by simp

text \<open>
  C32. The bits that the source adds to the mode of the parents of a file are written \<^verbatim>\<open>0111\<close>,
  which is decimal: a parent directory gets the permissions of the file and \<^verbatim>\<open>0157\<close> in
  octal, so everyone may create and remove files in it, where a comment says that the x-flags are added.
\<close>

theorem parent_dirs_world_writable:
  assumes "md_mode amd AND S_IFMT \<noteq> S_IFDIR"
  shows "md_mode (parent_dirs_amd amd) AND S_IFMT = S_IFDIR
    \<and> md_mode (parent_dirs_amd amd) AND 0xFFF = (md_mode amd AND 0xFFF) OR 0x6F
    \<and> md_mode (parent_dirs_amd amd) AND 2 = 2"
proof -
  have a: "md_mode (parent_dirs_amd amd) = (md_mode amd AND NOT S_IFMT) OR (S_IFDIR OR 111)"
    using assms by (simp add: parent_dirs_amd_def or.assoc)
  have n: "((x :: u32) AND NOT S_IFMT) AND 0xFFF = x AND 0xFFF" "((x :: u32) AND NOT S_IFMT) AND S_IFMT = 0" for x
    by (simp_all add: S_IF_defs and.assoc)
  show ?thesis unfolding a bit.conj_disj_distrib2 n
    by (simp add: S_IF_defs) 
qed

theorem parent_dirs_world_writable_witness:
  "md_mode (parent_dirs_amd (CPIO_AMD_DEFAULT\<lparr>md_mode := 0x81A4\<rparr>)) = 0x41EF
    \<and> md_mode (parent_dirs_amd (CPIO_AMD_DEFAULT\<lparr>md_mode := 0x81A4\<rparr>)) AND 2 = 2"
  using parent_dirs_world_writable [of "CPIO_AMD_DEFAULT\<lparr>md_mode := 0x81A4\<rparr>"]
  by (simp add: S_IF_defs parent_dirs_amd_def)

end
