(* ===== verification/Cut_Data.thy ===== *)
theory Cut_Data
  imports Cut_Dirs
begin

text \<open>
  Data trees in \<^verbatim>\<open>rapido-cut\<close>: \<^verbatim>\<open>gather_archive_data\<close> archives every path once, parents first,
  and ends on every tree of finite depth.
\<close>

section \<open>Data trees\<close>

definition plain_dirs :: "host \<Rightarrow> bool" where
  \<comment> \<open>\<^verbatim>\<open>read_dir\<close> yields the names of a directory, without \<open>.\<close> and \<open>..\<close>\<close>
  "plain_dirs h \<longleftrightarrow> (\<forall>p es n. h_readdir h p = Inr es \<longrightarrow> Inr n \<in> set es \<longrightarrow> plain_name n)"

definition item_ok :: "path_key set \<Rightarrow> GatherItem \<Rightarrow> bool" where
  \<comment> \<open>an absolute destination without \<open>..\<close>, below a directory already seen if its parents are not gathered\<close>
  "item_ok S i \<longleftrightarrow> (\<exists>ms. components (gi_dst i) = RootDir # map Normal ms
    \<and> (gi_flags i AND GATHER_ITEM_IGNORE_PARENT = 0 \<or> ms = [] \<or> RootDir # map Normal (butlast ms) \<in> S))"

lemma item_ok_mono: "item_ok S i \<Longrightarrow> S \<subseteq> T \<Longrightarrow> item_ok T i"
  by (auto simp: item_ok_def)

lemma collect_res_names: "collect_res es = Inr ns \<Longrightarrow> n \<in> set ns \<Longrightarrow> Inr n \<in> set es"
proof (induction es arbitrary: ns)
  case (Cons e es)
  then show ?case by (cases e) (auto simp: bindR_Inr_iff)
qed simp

lemma read_dir_plain: "plain_dirs h \<Longrightarrow> read_dir h p = Inr ns \<Longrightarrow> n \<in> set ns \<Longrightarrow> plain_name n"
  by (cases "h_readdir h p") (auto simp: read_dir_def bindR_Inr_iff plain_dirs_def dest: collect_res_names)

text \<open>What one round does when it succeeds: nothing, or the parents and one entry.\<close>

lemma on_cpio_op: "on_cpio (run_op x) s = (Inr (), t) \<Longrightarrow> performs [x] s t \<and> paths_seen t = paths_seen s"
  by (auto simp: on_cpio_def performs_def split: prod.splits)

lemma archive_data_op:
  assumes "archive_data h item amd v = (Inr new, t)"
  obtains x where "op_path x = gi_dst item" "on_cpio (run_op x) v = (Inr (), t)"
    "new = [] \<or> (\<exists>names. read_dir h (gi_src item) = Inr names \<and> new = map (child_item item) names)"
proof -
  let ?dst = "gi_dst item"
  consider "md_mode amd AND S_IFMT = S_IFDIR" | "md_mode amd AND S_IFMT = S_IFREG" "md_len amd > 0"
    | "md_mode amd AND S_IFMT = S_IFLNK"
    | "md_mode amd AND S_IFMT \<noteq> S_IFDIR" "\<not> (md_mode amd AND S_IFMT = S_IFREG \<and> md_len amd > 0)"
      "md_mode amd AND S_IFMT \<noteq> S_IFLNK" by blast
  then show thesis
  proof cases
    case 1
    with assms show thesis
      by (intro that [of "ArchivePath ?dst amd"]) (auto simp: archive_data_def seqE_Inr_iff bindE_Inr_iff)
  next
    case 2
    with assms obtain f where "on_cpio (archive_file ?dst amd f) v = (Inr (), t)" "new = []"
      by (auto simp: archive_data_def seqE_Inr_iff bindE_Inr_iff S_IF_defs)
    then show thesis by (intro that [of "ArchiveFile ?dst amd f"]) auto
  next
    case 3
    with assms obtain tgt where "on_cpio (archive_symlink ?dst amd tgt) v = (Inr (), t)" "new = []"
      by (auto simp: archive_data_def seqE_Inr_iff bindE_Inr_iff S_IF_defs)
    then show thesis by (intro that [of "ArchiveSymlink ?dst amd tgt"]) auto
  next
    case 4
    with assms show thesis
      by (intro that [of "ArchivePath ?dst amd"]) (auto simp: archive_data_def seqE_Inr_iff)
  qed
qed

lemma data_step_cases:
  assumes "data_step h item s = (Inr new, t)"
  obtains (skip) "seen (gi_dst item) s" "new = []" "cu_cpio t = cu_cpio s" "paths_seen t = paths_seen s"
  | (place) amd u v x where "\<not> seen (gi_dst item) s" "cu_cpio u = cu_cpio s"
      "paths_seen u = insert (components (gi_dst item)) (paths_seen s)"
      "(if gi_flags item AND GATHER_ITEM_IGNORE_PARENT = 0 then gather_archive_dirs (parent (gi_dst item)) amd else ret ()) u
        = (Inr (), v)"
      "performs [x] v t" "paths_seen t = paths_seen v" "op_path x = gi_dst item"
      "new = [] \<or> (\<exists>names. read_dir h (gi_src item) = Inr names \<and> new = map (child_item item) names)"
proof -
  let ?dst = "gi_dst item"
  let ?u = "s\<lparr>paths_seen := insert (components ?dst) (paths_seen s)\<rparr>"
  from assms obtain md amd where l: "h_lstat h (gi_src item) = Inr md"
    and a: "ArchiveMd_from (c_state (cu_cpio s)) md = Inr amd"
    by (auto simp: data_step_def archive_md_def bindE_Inr_iff split: sum.splits if_splits)
  show thesis
  proof (cases "seen ?dst s")
    case True
    with assms l a show thesis
      by (intro skip) (auto simp: data_step_def archive_md_def see_def seen_def bindE_Inr_iff insert_absorb)
  next
    case False
    with assms l a obtain v where
      v: "(if gi_flags item AND GATHER_ITEM_IGNORE_PARENT = 0 then gather_archive_dirs (parent ?dst) amd else ret ()) ?u
        = (Inr (), v)"
      and body: "archive_data h item amd v = (Inr new, t)"
      by (auto simp: data_step_def archive_md_def bindE_Inr_iff seqE_Inr_iff see_def)
    from body show thesis
      by (rule archive_data_op) (use False v on_cpio_op in \<open>auto intro!: place [of ?u amd v]\<close>)
  qed
qed

lemma data_step_tidy:
  assumes "data_step h item s = (Inr new, t)" and "item_ok (paths_seen s) item" and "plain_dirs h"
  obtains ops where "performs ops s t" and "tidy s ops t" and "\<forall>i\<in>set new. item_ok (paths_seen t) i"
    and "components (gi_dst item) \<in> paths_seen t"
  using assms(1)
proof (cases rule: data_step_cases)
  case skip
  then show thesis by (intro that [of "[]"]) (auto simp: tidy.idle seen_def)
next
  case (place amd u v x)
  from assms(2) obtain ms where ms: "components (gi_dst item) = RootDir # map Normal ms"
    "gi_flags item AND GATHER_ITEM_IGNORE_PARENT = 0 \<or> ms = [] \<or> RootDir # map Normal (butlast ms) \<in> paths_seen s"
    by (auto simp: item_ok_def)
  obtain ds where ds: "performs ds u v" "paths_seen v = paths_seen u \<union> op_key ` set ds"
    "map op_key ds = (if ms = [] then [] else new_dirs (paths_seen s) (butlast ms))"
  proof (cases "gi_flags item AND GATHER_ITEM_IGNORE_PARENT = 0")
    case True
    with place(4) have "gather_archive_dirs (parent (gi_dst item)) amd u = (Inr (), v)" by simp
    from gather_parents_spec [OF this _ ms(1), of "paths_seen s"] place(3) show thesis by (auto intro: that)
  next
    case False
    with ms(2) have "ms = [] \<or> new_dirs (paths_seen s) (butlast ms) = []" by (auto simp: new_dirs_def)
    with False place(4) show thesis by (intro that [of "[]"]) auto
  qed
  have "performs ds s v" using ds(1) place(2) by (simp add: performs_def)
  then have p: "performs (ds @ [x]) s t" using place(5) by (rule performs_append)
  have "tidy s (ds @ [x]) t"
    using place ds ms(1) by (intro tidy_entry [of x ms]) (auto simp: seen_def)
  moreover have "\<forall>i\<in>set new. item_ok (paths_seen t) i"
  proof
    fix i assume "i \<in> set new"
    with place(8) obtain names n where "read_dir h (gi_src item) = Inr names" "n \<in> set names" "i = child_item item n" by auto
    moreover from this have "plain_name n" using read_dir_plain [OF assms(3)] by blast
    moreover have "components (gi_dst item) \<in> paths_seen t" using place(3,6) ds(2) by simp
    ultimately show "item_ok (paths_seen t) i"
      using ms(1) components_join [OF components_root [OF ms(1)], of n]
      by (auto simp: item_ok_def child_item_def intro!: exI [of _ "ms @ [n]"])
  qed
  moreover have "components (gi_dst item) \<in> paths_seen t" using place(3,6) ds(2) by simp
  ultimately show thesis using p by (intro that)
qed

lemma gather_data_loop_tidy:
  assumes "gather_data_loop n h items s = (Inr (), t)" and "\<forall>i\<in>set items. item_ok (paths_seen s) i" and "plain_dirs h"
  shows "\<exists>ops. performs ops s t \<and> tidy s ops t \<and> (\<forall>i\<in>set items. components (gi_dst i) \<in> paths_seen t)"
  using assms
proof (induction n arbitrary: items s)
  case (Suc n)
  show ?case
  proof (cases items)
    case Nil
    with Suc.prems show ?thesis by (intro exI [of _ "[]"]) (auto simp: tidy.idle)
  next
    case (Cons item items')
    with Suc.prems obtain new u where st: "data_step h item s = (Inr new, u)"
      and rest: "gather_data_loop n h (rev new @ items') u = (Inr (), t)" by (auto simp: bindE_Inr_iff)
    have "item_ok (paths_seen s) item" using Suc.prems(2) Cons by simp
    with st obtain xs where xs: "performs xs s u" "tidy s xs u" "\<forall>i\<in>set new. item_ok (paths_seen u) i"
      "components (gi_dst item) \<in> paths_seen u" using Suc.prems(3) by (rule data_step_tidy)
    have mono: "paths_seen s \<subseteq> paths_seen u" using xs(2) by (auto simp: tidy_def)
    then have "\<forall>i\<in>set (rev new @ items'). item_ok (paths_seen u) i"
      using xs(3) Suc.prems(2) Cons item_ok_mono [OF _ mono] by auto
    from Suc.IH [OF rest this Suc.prems(3)] obtain ys where ys: "performs ys u t" "tidy u ys t"
      "\<forall>i\<in>set (rev new @ items'). components (gi_dst i) \<in> paths_seen t" by blast
    have "components (gi_dst item) \<in> paths_seen t" using xs(4) ys(2) by (auto simp: tidy_def)
    with xs ys Cons show ?thesis
      by (intro exI [of _ "xs @ ys"]) (auto simp: performs_append intro: tidy.follow)
  qed
qed simp

section \<open>The data loop ends\<close>

fun sum_opt :: "nat option list \<Rightarrow> nat option" where
  "sum_opt [] = Some 0"
| "sum_opt (x # xs) = (case (x, sum_opt xs) of (Some a, Some b) \<Rightarrow> Some (a + b) | _ \<Rightarrow> None)"

text \<open>The entries of the tree below a path, if it is no deeper than a bound.\<close>

fun tree_entries :: "nat \<Rightarrow> host \<Rightarrow> bytes \<Rightarrow> nat option" where
  "tree_entries 0 h p = None"
| "tree_entries (Suc d) h p =
    (case h_lstat h p of
       Inl _ \<Rightarrow> Some 1
     | Inr md \<Rightarrow>
       if st_mode md AND S_IFMT = S_IFDIR then
         (case read_dir h p of
            Inl _ \<Rightarrow> Some 1
          | Inr names \<Rightarrow> map_option Suc (sum_opt (map (\<lambda>n. tree_entries d h (path_join p n)) names)))
       else Some 1)"

abbreviation in_time :: "fault \<Rightarrow> bool" where
  "in_time e \<equiv> e \<noteq> OutOfFuel"

lemma emit_in_time [throws_intro]: "throws in_time (emit z)"
  by (auto simp: throws_def emit_def write_all_def split: option.splits if_splits prod.splits)

lemma io_copy_in_time [throws_intro]: "throws in_time (io_copy rd)"
  unfolding io_copy_def by (intro throws_intro) simp

lemma steps_in_time [throws_intro]: 
  "throws in_time emit_name_pad" "throws in_time emit_data_pad" "throws in_time (name_zeros das)"
  by (auto simp: emit_name_pad_def emit_data_pad_def add_off_def name_zeros_def intro!: throws_intro)

lemma archive_in_time [throws_intro]:
  "throws in_time (archive_path p md)" "throws in_time (archive_symlink p md tgt)" "throws in_time (archive_file p md rd)"
proof -
  have [throws_intro]: "throws in_time (lift_res (path_trim_prefixes p))"
    by (rule throws_lift_res) (auto simp: path_trim_prefixes_def Let_def split: if_splits)
  show "throws in_time (archive_path p md)" "throws in_time (archive_symlink p md tgt)" "throws in_time (archive_file p md rd)"
    unfolding archive_path_def archive_symlink_def archive_file_def by (intro throws_intro; simp)+
qed

lemma on_cpio_throws [throws_intro]: "throws F m \<Longrightarrow> throws F (on_cpio m)"
  by (auto simp: throws_def on_cpio_def split: prod.splits)

lemma cut_steps_in_time [throws_intro]:
  "throws F (see p)" "throws in_time (archive_md md)" "throws in_time (lift_res (os z))"
  by (auto simp: throws_def see_def archive_md_def bindE_def ArchiveMd_from_def Let_def os_def bindR_def
      split: sum.splits option.splits if_splits prod.splits)

lemma read_dir_in_time [throws_intro]: "throws in_time (lift_res (read_dir h p))"
proof -
  have "collect_res es \<noteq> Inl OutOfFuel" for es
  proof (induction es)
    case (Cons e es)
    then show ?case by (cases e; cases "collect_res es") auto
  qed simp
  then show ?thesis
    by (intro throws_lift_res) (auto simp: read_dir_def bindR_def os_def split: sum.splits)
qed

lemma dirs_in_time [throws_intro]: "throws in_time (gather_archive_dirs p amd)"
proof -
  have "throws in_time (dirs_loop amd cs here)" for amd cs here
  proof (induction amd cs here rule: dirs_loop.induct)
    case (4 amd cs here)
    obtain q b where "path_pop here = (q, b)" by (cases "path_pop here")
    with 4 show ?case by (cases b) (auto simp: throws_def)
  next
    case (5 amd c cs here)
    then show ?case unfolding dirs_loop.simps Let_def by (intro throws_intro) auto
  qed (auto simp: throws_def)
  then show ?thesis unfolding gather_archive_dirs_def by (intro throws_intro) auto
qed

lemma data_step_in_time: "throws in_time (data_step h item)"
  unfolding data_step_def archive_data_def by (intro throws_intro; simp)

lemma data_step_pushes:
  assumes "data_step h item s = (Inr new, t)"
  shows "new = [] \<or> (\<exists>md names. h_lstat h (gi_src item) = Inr md \<and> st_mode md AND S_IFMT = S_IFDIR
    \<and> read_dir h (gi_src item) = Inr names \<and> new = map (child_item item) names)"
proof -
  have mode: "ArchiveMd_from st md = Inr amd \<Longrightarrow> md_mode amd = st_mode md" for st md amd
    by (auto simp: ArchiveMd_from_def Let_def bindR_Inr_iff split: option.splits if_splits prod.splits)
  from assms show ?thesis
    by (auto simp: data_step_def archive_md_def archive_data_def bindE_Inr_iff seqE_Inr_iff Let_def
        dest!: mode split: sum.splits if_splits)
qed

definition work :: "nat \<Rightarrow> host \<Rightarrow> GatherItem list \<Rightarrow> nat option" where
  "work d h items = sum_opt (map (\<lambda>i. tree_entries d h (gi_src i)) items)"

lemma sum_opt_append: "sum_opt (xs @ ys) = sum_opt [sum_opt xs, sum_opt ys]"
  by (induction xs) (auto split: option.splits)

lemma sum_opt_rev: "sum_opt (rev xs) = sum_opt xs"
  by (induction xs) (auto simp: sum_opt_append split: option.splits)

lemma sum_opt_map_mono:
  "(\<And>x a. x \<in> set xs \<Longrightarrow> f x = Some a \<Longrightarrow> g x = Some a) \<Longrightarrow> sum_opt (map f xs) = Some k \<Longrightarrow> sum_opt (map g xs) = Some k"
proof (induction xs arbitrary: k)
  case (Cons x xs)
  then show ?case by (cases "f x"; cases "sum_opt (map f xs)") auto
qed simp

lemma tree_entries_deeper: "tree_entries d h p = Some k \<Longrightarrow> tree_entries (Suc d) h p = Some k"
proof (induction d arbitrary: p k)
  case (Suc d)
  show ?case
  proof (cases "\<exists>md names. h_lstat h p = Inr md \<and> st_mode md AND S_IFMT = S_IFDIR \<and> read_dir h p = Inr names")
    case True
    then obtain md names where m: "h_lstat h p = Inr md" "st_mode md AND S_IFMT = S_IFDIR" "read_dir h p = Inr names"
      by blast
    with Suc.prems obtain c where c: "k = Suc c" "sum_opt (map (\<lambda>n. tree_entries d h (path_join p n)) names) = Some c" by auto
    from sum_opt_map_mono [OF _ c(2), of "\<lambda>n. tree_entries (Suc d) h (path_join p n)"] Suc.IH
    have "sum_opt (map (\<lambda>n. tree_entries (Suc d) h (path_join p n)) names) = Some c" by blast
    with m c show ?thesis by (simp only: tree_entries.simps(2) [of "Suc d"] sum.case if_True option.map simp_thms)
  next
    case False
    with Suc.prems show ?thesis
      by (simp only: tree_entries.simps(2)) (auto split: sum.splits if_splits)
  qed
qed simp

lemma tree_entries_pos: "tree_entries d h p = Some k \<Longrightarrow> 0 < k"
  by (cases d) (auto split: sum.splits if_splits)

lemma data_step_work:
  assumes "data_step h item s = (Inr new, t)" and "work d h (item # items) = Some k"
  shows "\<exists>j<k. work d h (rev new @ items) = Some j"
proof -
  from assms(2) obtain a b where ab: "tree_entries d h (gi_src item) = Some a" "work d h items = Some b" "k = a + b"
    by (auto simp: work_def split: option.splits)
  consider "new = []" | md names where "h_lstat h (gi_src item) = Inr md" "st_mode md AND S_IFMT = S_IFDIR"
      "read_dir h (gi_src item) = Inr names" "new = map (child_item item) names"
    using data_step_pushes [OF assms(1)] by blast
  then show ?thesis
  proof cases
    case 1
    with ab tree_entries_pos [OF ab(1)] show ?thesis by auto
  next
    case (2 md names)
    from ab(1) obtain e where d: "d = Suc e" by (cases d) auto
    with 2 ab(1) obtain c where c: "a = Suc c" "sum_opt (map (\<lambda>n. tree_entries e h (path_join (gi_src item) n)) names) = Some c"
      by auto
    from sum_opt_map_mono [OF _ c(2), of "\<lambda>n. tree_entries d h (path_join (gi_src item) n)"] d tree_entries_deeper
    have "sum_opt (map (\<lambda>n. tree_entries d h (path_join (gi_src item) n)) names) = Some c" by blast
    then have "work d h new = Some c" by (simp add: work_def 2(4) child_item_def comp_def)
    with ab c show ?thesis
      by (intro exI [of _ "c + b"]) (simp add: work_def sum_opt_append sum_opt_rev flip: rev_map)
  qed
qed

lemma gather_data_loop_ends:
  "work d h items = Some k \<Longrightarrow> k < n \<Longrightarrow> fst (gather_data_loop n h items s) \<noteq> Inl OutOfFuel"
proof (induction n arbitrary: items k s)
  case (Suc n)
  show ?case
  proof (cases items)
    case (Cons item rest)
    obtain r t where st: "data_step h item s = (r, t)" by (cases "data_step h item s")
    show ?thesis
    proof (cases r)
      case (Inl e)
      with st Cons throwsD [OF data_step_in_time] show ?thesis by auto
    next
      case (Inr new)
      with st Suc.prems(1) Cons obtain j where "j < k" "work d h (rev new @ rest) = Some j"
        using data_step_work by blast
      with Suc.IH [of "rev new @ rest" j t] Suc.prems(2) st Inr Cons show ?thesis by simp
    qed
  qed simp
qed simp

section \<open>Properties\<close>


text \<open>
  C19. \<^verbatim>\<open>gather_archive_data\<close> ends: its work list is empty after at most as many rounds as
  the source trees have entries, whatever the archive and the set of seen paths are, provided
  the trees are no deeper than some bound \<open>d\<close>. (A tree on a real host is; symbolic
  links are not followed.)
\<close>

theorem gather_archive_data_ends:
  assumes "sum_opt (map (\<lambda>i. tree_entries d h (gi_src i)) items) = Some k" and "k < fuel"
  shows "fst (gather_archive_data fuel h items s) \<noteq> Inl OutOfFuel"
  unfolding gather_archive_data_def
  using assms by (intro gather_data_loop_ends [where d = d and k = k]) (simp_all add: work_def sum_opt_rev flip: rev_map)

end
