(* ===== verification/Cut_Kmods.thy ===== *)
theory Cut_Kmods
  imports Cut_Dirs Cut_Data
begin

text \<open>
  Kernel modules in \<^verbatim>\<open>rapido-cut\<close>: a requested module is archived with all the modules that
  \<^verbatim>\<open>modules.dep\<close> says it needs.
\<close>

section \<open>Marked paths and archived paths\<close>

text \<open>The paths marked as seen are the archived ones.\<close>

definition exact :: trace_rel where
  "exact s ops t \<longleftrightarrow> paths_seen t = paths_seen s \<union> op_key ` set ops"

interpretation exact: trace_law exact
  by unfold_locales (auto simp: exact_def)

text \<open>Making directories only.\<close>

fun is_path_op :: "archive_op \<Rightarrow> bool" where
  "is_path_op (ArchivePath p amd) = True"
| "is_path_op _ = False"

definition dir_run :: trace_rel where
  "dir_run s ops t \<longleftrightarrow> exact s ops t \<and> list_all is_path_op ops"

interpretation dir_run: trace_law dir_run
  by unfold_locales (auto simp: exact_def dir_run_def)

lemma dir_run_see_archive:
  assumes "\<And>s r t. m s = (r, t) \<Longrightarrow> recoverable r \<Longrightarrow> \<exists>ops. performs ops s t \<and> dir_run s ops t"
    and "op_steady x" and "is_path_op x"
  shows "logs dir_run (bindE (see (op_path x)) (\<lambda>new. if new then seqE (on_cpio (run_op x)) m else m))"
proof (rule logsI)
  fix s r t
  assume "bindE (see (op_path x)) (\<lambda>new. if new then seqE (on_cpio (run_op x)) m else m) s = (r, t)" "recoverable r"
  then obtain u xs where u: "performs xs s u" "m u = (r, t)" "paths_seen u = insert (op_key x) (paths_seen s)"
    "xs = (if seen (op_path x) s then [] else [x])"
    by (rule see_then_archive [OF _ _ assms(2)]) simp_all
  from assms(1) [OF u(2) \<open>recoverable r\<close>] obtain ys where ys: "performs ys u t" "dir_run u ys t" by blast
  have "dir_run s xs u" using u(3,4) assms(3) by (auto simp: dir_run_def exact_def seen_def)
  with ys u(1) show "\<exists>ops. performs ops s t \<and> dir_run s ops t"
    by (intro exI [of _ "xs @ ys"]) (simp add: performs_append dir_run.follow)
qed

lemma dir_run_dirs_loop: "logs dir_run (dirs_loop amd cs here)"
proof (induction amd cs here rule: dirs_loop.induct)
  case (4 amd cs here)
  then show ?case unfolding dirs_loop.simps by (intro dir_run.logs_prod dir_run.logs_bool dir_run.logs_base) auto
next
  case (5 amd c cs here)
  have "logs dir_run (dirs_loop amd cs (path_join here c))" using 5 by blast
  then show ?case
    using dir_run_see_archive [of "dirs_loop amd cs (path_join here c)" "ArchivePath (path_join here c) amd"]
    by (simp add: logs_def Let_def cong: if_cong)
qed (unfold dirs_loop.simps, (assumption | intro dir_run.logs_base)+)

lemma dir_run_dirs: "logs dir_run (gather_archive_dirs p amd)"
  unfolding gather_archive_dirs_def
  by (intro dir_run.logs_option dir_run.logs_if dir_run.logs_base dir_run.logs_bindE dir_run_dirs_loop)

definition kmod_dst :: "GatherKmods \<Rightarrow> bytes \<Rightarrow> bytes" where
  "kmod_dst gk p = path_join (kmod_dst_root gk) p"

definition kmod_src :: "GatherKmods \<Rightarrow> bytes \<Rightarrow> bytes" where
  "kmod_src gk p = path_join (module_root (kmod_ctx gk)) p"

lemma archive_kmod_path_Inr:
  assumes "archive_kmod_path h src dst s = (Inr (), t)"
  obtains ds md amd f u where "performs (ds @ [ArchiveFile dst amd f]) s t" and "h_open h src = Inr (md, f)"
    and "dir_run s ds u" and "paths_seen t = paths_seen u"
proof -
  from assms obtain md1 amd md f v u where
    g: "gather_archive_dirs (parent dst) amd v = (Inr (), u)" and a: "archive_md md1 s = (Inr amd, v)"
    and o: "h_open h src = Inr (md, f)" and w: "on_cpio (archive_file dst amd f) u = (Inr (), t)"
    by (cases "h_open h src") (auto simp: archive_kmod_path_def bindE_Inr_iff seqE_Inr_iff)
  have v: "v = s" using a by (auto simp: archive_md_def bindE_Inr_iff)
  from dir_run_dirs g obtain ds where ds: "performs ds v u" "dir_run v ds u" by (rule logsE) simp
  have w': "performs [ArchiveFile dst amd f] u t" "paths_seen t = paths_seen u"
    using w on_cpio_op [of "ArchiveFile dst amd f" u t] by simp_all
  with ds v o show thesis by (intro that [of ds amd f md u] performs_append) simp_all
qed

definition kmod_file :: "host \<Rightarrow> GatherKmods \<Rightarrow> bytes \<Rightarrow> archive_op \<Rightarrow> bool" where
  \<comment> \<open>archiving the file of the module at this path\<close>
  "kmod_file h gk p x \<longleftrightarrow>
    (\<exists>amd md f. x = ArchiveFile (kmod_dst gk p) amd f \<and> h_open h (kmod_src gk p) = Inr (md, f))"

lemma archive_kmod_once_Inr:
  assumes "archive_kmod_once h gk p s = (Inr new, t)"
  obtains ops where "performs ops s t" and "exact s ops t" and "components (kmod_dst gk p) \<in> paths_seen t"
    and "new \<longleftrightarrow> \<not> seen (kmod_dst gk p) s"
    and "new \<longrightarrow> (\<exists>x\<in>set ops. kmod_file h gk p x)" and "\<forall>x\<in>set ops. is_path_op x \<or> kmod_file h gk p x"
proof (cases "seen (kmod_dst gk p) s")
  case True
  with assms show thesis
    by (intro that [of "[]"])
      (auto simp: archive_kmod_once_def Let_def bindE_Inr_iff see_def exact_def seen_def kmod_dst_def)
next
  case False
  let ?dst = "kmod_dst gk p" and ?u = "s\<lparr>paths_seen := insert (components (kmod_dst gk p)) (paths_seen s)\<rparr>"
  from False assms have p: "archive_kmod_path h (kmod_src gk p) ?dst ?u = (Inr (), t)" and n: "new"
    by (auto simp: archive_kmod_once_def Let_def bindE_Inr_iff see_def kmod_dst_def kmod_src_def)
  from archive_kmod_path_Inr [OF p] obtain ds md amd f u where
    ds: "performs (ds @ [ArchiveFile ?dst amd f]) ?u t" "h_open h (kmod_src gk p) = Inr (md, f)"
      "dir_run ?u ds u" "paths_seen t = paths_seen u" .
  from ds(1) have "performs (ds @ [ArchiveFile ?dst amd f]) s t" by (simp add: performs_def)
  then show thesis using ds n False
    by (cases f, intro that [of "ds @ [ArchiveFile ?dst amd f]"])
      (auto simp: exact_def dir_run_def kmod_file_def list_all_iff)
qed

lemma archive_kmod_dep_Inr:
  "archive_kmod_dep h gk p s = (Inr (), t) \<longleftrightarrow> (\<exists>new. archive_kmod_once h gk p s = (Inr new, t))"
  by (auto simp: archive_kmod_dep_def bindE_Inr_iff)

lemma hard_deps_archived:
  assumes "for_each deps (archive_kmod_dep h gk) s = (Inr (), t)"
  shows "\<exists>ops. performs ops s t \<and> exact s ops t \<and> (\<forall>p\<in>set deps. components (kmod_dst gk p) \<in> paths_seen t)
    \<and> (\<forall>x\<in>set ops. is_path_op x \<or> (\<exists>p\<in>set deps. kmod_file h gk p x))"
  using assms
proof (induction deps arbitrary: s)
  case Nil
  then show ?case by (intro exI [of _ "[]"]) (auto simp: exact_def)
next
  case (Cons p deps)
  then obtain new u where p: "archive_kmod_once h gk p s = (Inr new, u)"
    and rest: "for_each deps (archive_kmod_dep h gk) u = (Inr (), t)"
    by (auto simp: archive_kmod_dep_Inr bindE_Inr_iff)
  from p obtain xs where xs: "performs xs s u" "exact s xs u" "components (kmod_dst gk p) \<in> paths_seen u"
    "\<forall>x\<in>set xs. is_path_op x \<or> kmod_file h gk p x" by (rule archive_kmod_once_Inr)
  from Cons.IH [OF rest] obtain ys where ys: "performs ys u t" "exact u ys t"
    "\<forall>p\<in>set deps. components (kmod_dst gk p) \<in> paths_seen t"
    "\<forall>x\<in>set ys. is_path_op x \<or> (\<exists>p\<in>set deps. kmod_file h gk p x)" by blast
  then have "components (kmod_dst gk p) \<in> paths_seen t" using xs(3) by (auto simp: exact_def)
  with xs ys show ?case
    by (intro exI [of _ "xs @ ys"]) (auto simp: performs_append intro: exact.follow)
qed


lemma kmod_and_deps_marks:
  assumes "gather_archive_kmod_and_deps h name gk s = (Inr (), t)" and "steady h"
  shows "\<exists>m. find_kmod (kmod_ctx gk) name = Some m
    \<and> (km_status m = Builtin \<or> components (kmod_dst gk (rel_path m)) \<in> paths_seen t)"
proof -
  let ?rest = "\<lambda>m. seqE (for_each (hard_deps_paths m) (archive_kmod_dep h gk))
    (for_each (soft_deps_pre m @ soft_deps_post m @ weak_deps m) (archive_soft_mod h gk))"
  from assms(1) obtain m where m: "find_kmod (kmod_ctx gk) name = Some m"
    by (auto simp: gather_archive_kmod_and_deps_def split: option.splits)
  have "components (kmod_dst gk (rel_path m)) \<in> paths_seen t" if b: "km_status m \<noteq> Builtin"
  proof -
    from assms(1) m b obtain new u where r: "archive_kmod_once h gk (rel_path m) s = (Inr new, u)"
      and t: "(if new then ?rest m else ret ()) u = (Inr (), t)"
      by (auto simp: gather_archive_kmod_and_deps_def bindE_Inr_iff split: if_splits)
    from r have u: "components (kmod_dst gk (rel_path m)) \<in> paths_seen u" by (rule archive_kmod_once_Inr)
    have "logs seen_grows (if new then ?rest m else ret ())"
      unfolding archive_soft_mod_def
      by (intro grow.logs_if grow.logs_seqE grow.logs_for_each grow.logs_option grow.logs_base
          grow.logs_ignore_missing grow.logs_archive_kmod_dep assms(2))
    then obtain ops where "seen_grows u ops t" using t by (rule logsE) simp
    with u show ?thesis by (auto simp: seen_grows_def)
  qed
  with m show ?thesis by auto
qed

lemma gather_kmods_marks:
  assumes "gather_archive_kmods h conf kmods False s = (Inr (), t)" and "steady h"
  shows "\<exists>gk u. ensure_gk h conf s = (Inr gk, u) \<and> (\<forall>name\<in>set kmods. \<exists>m. find_kmod (kmod_ctx gk) name = Some m
    \<and> (km_status m = Builtin \<or> components (kmod_dst gk (rel_path m)) \<in> paths_seen t))"
proof -
  from assms(1) obtain gk u where g: "ensure_gk h conf s = (Inr gk, u)"
    and f: "for_each kmods (archive_kmod_named h gk False) u = (Inr (), t)"
    by (auto simp: gather_archive_kmods_def bindE_Inr_iff)
  have named: "gather_archive_kmod_and_deps h name gk s = (Inr (), t)"
    if "archive_kmod_named h gk False name s = (Inr (), t)" for name s t
    using that by (cases "gather_archive_kmod_and_deps h name gk s")
      (auto simp: archive_kmod_named_def tryE_def split: sum.splits if_splits)
  have "\<forall>name\<in>set kmods. \<exists>m. find_kmod (kmod_ctx gk) name = Some m
    \<and> (km_status m = Builtin \<or> components (kmod_dst gk (rel_path m)) \<in> paths_seen t)"
    using f
  proof (induction kmods arbitrary: u)
    case (Cons name kmods)
    then obtain v where n: "archive_kmod_named h gk False name u = (Inr (), v)"
      and rest: "for_each kmods (archive_kmod_named h gk False) v = (Inr (), t)" by (auto simp: bindE_Inr_iff)
    have "logs seen_grows (for_each kmods (archive_kmod_named h gk False))"
      by (intro grow.logs_for_each grow.logs_archive_kmod_named assms(2))
    then obtain ops where "seen_grows v ops t" using rest by (rule logsE) simp
    with kmod_and_deps_marks [OF named [OF n] assms(2)] Cons.IH [OF rest] show ?case
      by (auto simp: seen_grows_def)
  qed simp
  with g show ?thesis by blast
qed

text \<open>
  C26. A module that is asked for by name is never dropped silently: when
  \<^verbatim>\<open>gather_archive_kmods\<close> succeeds without ignoring missing modules, every requested name is
  known to the module database and the module is built in or its file is marked as gathered.
\<close>

theorem gather_archive_kmods_named:
  assumes "gather_archive_kmods h conf kmods False s = (Inr (), t)" and "steady h"
  shows "\<exists>gk u. ensure_gk h conf s = (Inr gk, u) \<and> (\<forall>name\<in>set kmods. \<exists>m. find_kmod (kmod_ctx gk) name = Some m
    \<and> (km_status m = Builtin \<or> components (kmod_dst gk (rel_path m)) \<in> paths_seen t))"
  using assms by (rule gather_kmods_marks)

text \<open>
  C29. A module that was tried as a soft or weak dependency, found or missing, shadows a later
  request for it by name: the request returns at once without an error, archives nothing, and
  so leaves out the module's own dependencies and, if its file was missing, the module.
\<close>

theorem kmod_soft_shadows:
  assumes "archive_soft_mod h gk name s = (Inr (), u)" and "find_kmod (kmod_ctx gk) name = Some m"
    and "km_status m \<noteq> Builtin" and "steady h"
  shows "gather_archive_kmod_and_deps h name gk u = (Inr (), u)"
proof -
  let ?k = "components (kmod_dst gk (rel_path m))"
  let ?v = "s\<lparr>paths_seen := insert ?k (paths_seen s)\<rparr>"
  have "?k \<in> paths_seen u"
  proof (cases "seen (kmod_dst gk (rel_path m)) s")
    case True
    with assms(1-3) show ?thesis
      by (auto simp: archive_soft_mod_def ignore_missing_def tryE_def archive_kmod_dep_def archive_kmod_once_def
          Let_def bindE_def see_def kmod_dst_def)
  next
    case False
    let ?m = "bindE (archive_kmod_path h (kmod_src gk (rel_path m)) (kmod_dst gk (rel_path m))) (\<lambda>_. ret ())"
    have "ignore_missing ?m ?v = (Inr (), u)"
      using assms(1-3) False
      by (auto simp: archive_soft_mod_def ignore_missing_def tryE_def archive_kmod_dep_def archive_kmod_once_def
          Let_def bindE_def see_def kmod_dst_def kmod_src_def split: prod.splits sum.splits)
    moreover have "logs seen_grows (ignore_missing ?m)"
      by (intro grow.logs_ignore_missing grow.logs_bindE grow.logs_base grow.logs_archive_kmod_path assms(4))
    ultimately obtain ops where "seen_grows ?v ops u" by (meson logsE recoverable.simps(1))
    then show ?thesis by (auto simp: seen_grows_def)
  qed
  then show ?thesis
    using assms(2,3)
    by (simp add: gather_archive_kmod_and_deps_def archive_kmod_once_def Let_def bindE_def see_def seen_def
        kmod_dst_def insert_absorb)
qed

end
