(* ===== verification/Cut_Frame.thy ===== *)
theory Cut_Frame
  imports Cut_Main
begin

text \<open>
  What parts of a run of \<^verbatim>\<open>rapido-cut\<close> leave alone, however they end: a relation between the
  states before and after that is reflexive and transitive holds of composed effects, and
  one that allows writing to the archive and marking paths holds of the functions that archive.
\<close>

named_theorems frame_intro \<open>compositional rules for what an effect leaves alone\<close>

definition frames :: "('s \<Rightarrow> 's \<Rightarrow> bool) \<Rightarrow> ('s, 'a) eff \<Rightarrow> bool" where
  "frames R m \<longleftrightarrow> (\<forall>s r t. m s = (r, t) \<longrightarrow> R s t)"

lemma framesI: "(\<And>s. R s (snd (m s))) \<Longrightarrow> frames R m"
  unfolding frames_def by (metis snd_conv)

lemma framesD: "frames R m \<Longrightarrow> m s = (r, t) \<Longrightarrow> R s t"
  unfolding frames_def by blast

lemma frames_cases [frame_intro]:
  "frames R m \<Longrightarrow> frames R n \<Longrightarrow> frames R (if b then m else n)"
  "frames R m \<Longrightarrow> (\<And>x. frames R (f x)) \<Longrightarrow> frames R (case z of None \<Rightarrow> m | Some x \<Rightarrow> f x)"
  "(\<And>e. frames R (g e)) \<Longrightarrow> (\<And>x. frames R (f' x)) \<Longrightarrow> frames R (case y of Inl e \<Rightarrow> g e | Inr x \<Rightarrow> f' x)"
  "(\<And>a b. frames R (k a b)) \<Longrightarrow> frames R (case w of (a, b) \<Rightarrow> k a b)"
  "frames R (l v) \<Longrightarrow> frames R (let x = v in l x)"
  by (auto split: option.splits sum.splits prod.splits)

locale frame_rel =
  fixes R :: "'s \<Rightarrow> 's \<Rightarrow> bool"
  assumes frame_refl: "R s s" and frame_trans: "R s t \<Longrightarrow> R t u \<Longrightarrow> R s u"
begin

lemma frames_base [frame_intro]: "frames R (ret x)" "frames R (throw e)" "frames R (lift_res z)" "frames R (getE f)"
  by (rule framesI, simp add: frame_refl)+

lemma frames_bindE [frame_intro]: "frames R m \<Longrightarrow> (\<And>x. frames R (f x)) \<Longrightarrow> frames R (bindE m f)"
  unfolding frames_def bindE_def by (fastforce split: prod.splits sum.splits dest: frame_trans)

lemma frames_tryE [frame_intro]: "frames R m \<Longrightarrow> (\<And>r. frames R (f r)) \<Longrightarrow> frames R (tryE m f)"
  unfolding frames_def tryE_def by (fastforce split: prod.splits dest: frame_trans)

lemma frames_seqE [frame_intro]: "frames R m \<Longrightarrow> frames R n \<Longrightarrow> frames R (seqE m n)"
  unfolding seqE_def by (rule frames_bindE)

lemma frames_for_each [frame_intro]: "(\<And>x. frames R (f x)) \<Longrightarrow> frames R (for_each xs f)"
proof (induction xs)
  case (Cons x xs)
  then have "frames R (bindE (f x) (\<lambda>_. for_each xs f))" by (intro frames_bindE) auto
  then show ?case by (simp add: frames_def)
qed (rule framesI, simp add: frame_refl)

end

locale cut_frame = frame_rel R for R :: "cut \<Rightarrow> cut \<Rightarrow> bool" +
  assumes frame_write: "R s (s\<lparr>cu_cpio := c\<rparr>)"
    and frame_mark: "R s (s\<lparr>paths_seen := insert k (paths_seen s)\<rparr>)"
begin

lemma frames_cut [frame_intro]: "frames R (on_cpio m)" "frames R (see p)"
  by (rule framesI, simp add: on_cpio_def see_def frame_write frame_mark split: prod.splits)+

lemma frames_archive_md [frame_intro]: "frames R (archive_md md)"
  unfolding archive_md_def by (intro frame_intro frames_base frames_bindE)

lemma frames_dirs_loop [frame_intro]: "frames R (dirs_loop amd cs here)"
proof (induction amd cs here rule: dirs_loop.induct)
  case (4 amd cs here)
  obtain q b where p: "path_pop here = (q, b)" by fastforce
  show ?case
    unfolding dirs_loop.simps p prod.case
    by (cases b; simp only: bool.case; intro frame_intro frames_base 4) (use p in auto)
next
  case (5 amd c cs here)
  then show ?case unfolding dirs_loop.simps Let_def by (intro frame_intro frames_cut frames_bindE frames_seqE) auto
qed (simp_all only: dirs_loop.simps frames_base)

lemma frames_dirs [frame_intro]: "frames R (gather_archive_dirs p amd)"
  unfolding gather_archive_dirs_def by (intro frame_intro)

lemma frames_kmod_once [frame_intro]: "frames R (archive_kmod_dep h gk p)" "frames R (archive_kmod_once h gk p)"
  unfolding archive_kmod_dep_def archive_kmod_once_def archive_kmod_path_def by (intro frame_intro)+

lemma frames_ignore_missing [frame_intro]: "frames R m \<Longrightarrow> frames R (ignore_missing m)"
  unfolding ignore_missing_def by (intro frame_intro)

lemma frames_kmod_named [frame_intro]: "frames R (archive_kmod_named h gk b name)"
  unfolding archive_kmod_named_def gather_archive_kmod_and_deps_def archive_soft_mod_def by (intro frame_intro)

lemma frames_init_kmods [frame_intro]: "frames R (GatherKmods_init h conf)"
  unfolding GatherKmods_init_def by (intro frame_intro)

lemma frames_symlinks [frame_intro]: "frames R populate_default_symlinks"
  unfolding populate_default_symlinks_def archive_kmods_symlink_def by (intro frame_intro)

end

end
