(* ===== verification/Init.thy ===== *)
theory Init
  imports Rapido_Lib
begin

text \<open>
  The program \<^verbatim>\<open>src/bin/rapido-init.rs\<close> that the virtual machine boots into. Its effects on
  the machine are a trace of actions; the outcome of each is an argument of the model.
\<close>

section \<open>Actions\<close>

datatype init_act =
    CreateDirAll bytes
  | RunCmd "(bytes \<times> bytes) list" bytes "bytes list" \<comment> \<open>environment, program, arguments\<close>
  | Symlink bytes bytes \<comment> \<open>target and link\<close>
  | WriteFile bytes bytes
  | AppendOpen bool bytes \<comment> \<open>whether the file is created, its path\<close>
  | AppendWrite bytes bytes
  | ExecSystemd "(bytes \<times> bytes) list"
  | SpawnShell "(bytes \<times> bytes) list" bytes "bytes list"
  | Sleep nat

record init_env =
  ie_host :: host
  ie_op :: "init_act \<Rightarrow> error_kind + unit"
  ie_cmd :: "init_act \<Rightarrow> error_kind + bool" \<comment> \<open>whether the command exits with success\<close>

definition do_op :: "init_env \<Rightarrow> init_act \<Rightarrow> (init_act list, unit) eff" where
  "do_op env a = seqE (modifyE (\<lambda>tr. tr @ [a])) (lift_res (os (ie_op env a)))"

definition do_cmd :: "init_env \<Rightarrow> (bytes \<times> bytes) list \<Rightarrow> bytes \<Rightarrow> bytes list \<Rightarrow> (init_act list, error_kind + bool) eff" where
  \<comment> \<open>the variables that are set for the command, beside the ones it inherits\<close>
  "do_cmd env vars prog args =
    seqE (modifyE (\<lambda>tr. tr @ [RunCmd vars prog args])) (ret (ie_cmd env (RunCmd vars prog args)))"

definition run_status :: "init_env \<Rightarrow> bytes \<Rightarrow> bytes list \<Rightarrow> string \<Rightarrow> (init_act list, bool) eff" where
  \<comment> \<open>\<^verbatim>\<open>.status().expect(msg)\<close>\<close>
  "run_status env prog args msg =
    bindE (do_cmd env [] prog args) (\<lambda>r. case r of Inl _ \<Rightarrow> throw (Panic msg) | Inr ok \<Rightarrow> ret ok)"

definition run_or_fail :: "init_env \<Rightarrow> bytes \<Rightarrow> bytes list \<Rightarrow> string \<Rightarrow> (init_act list, unit) eff" where
  "run_or_fail env prog args msg =
    bindE (run_status env prog args msg) (\<lambda>ok. if ok then ret () else throw (IoErr BrokenPipe []))"

definition RAPIDO_CONF :: bytes where "RAPIDO_CONF = ''/rapido.conf''"
definition SYSTEMD_BIN_PATH :: bytes where "SYSTEMD_BIN_PATH = ''/usr/lib/systemd/systemd''"

section \<open>Mounts\<close>

definition init_mounts :: "bytes list list" where
  "init_mounts =
    [[''-t'', ''proc'', ''-o'', ''nosuid,noexec,nodev'', ''proc'', ''/proc''],
     [''-t'', ''sysfs'', ''-o'', ''nosuid,noexec,nodev'', ''sysfs'', ''/sys''],
     [''-t'', ''devtmpfs'', ''-o'', ''nosuid,noexec'', ''devtmpfs'', ''/dev''],
     [''-t'', ''devpts'', ''-o'', ''nosuid,noexec'', ''devpts'', ''/dev/pts''],
     [''-t'', ''tmpfs'', ''-o'', ''noexec,nosuid,nodev'', ''tmpfs'', ''/tmp'']]"

definition init_mount :: "init_env \<Rightarrow> bool \<Rightarrow> (init_act list, unit) eff" where
  "init_mount env do_debugfs =
    seqE (for_each init_mounts (\<lambda>args.
      seqE (do_op env (CreateDirAll (last args)))
        (run_or_fail env ''mount'' args ''failed to execute mount command''))) (
    seqE (if do_debugfs then
            bindE (run_status env ''mount'' [''-t'', ''debugfs'', ''debugfs'', ''/sys/kernel/debug/'']
                     ''failed to execute mount command'') (\<lambda>_. ret ())
          else ret ())
    (tryE (do_op env (Symlink ''/proc/self/fd'' ''/dev/fd'')) (\<lambda>_. ret ())))"

section \<open>The kernel command line\<close>

record KcliArgs =
  k_hostname :: "bytes option"
  k_vm_num :: "bytes option"
  k_tap_mac :: "(bytes \<times> bytes) list option" \<comment> \<open>a hash map: its order carries no meaning\<close>
  k_stty :: "bytes option"
  k_machine_id :: "bytes option"
  k_console :: "bytes option"

definition no_kcli_args :: KcliArgs where
  "no_kcli_args =
    \<lparr>k_hostname = None, k_vm_num = None, k_tap_mac = None, k_stty = None, k_machine_id = None, k_console = None\<rparr>"

fun put_assoc :: "'k \<Rightarrow> 'v \<Rightarrow> ('k \<times> 'v) list \<Rightarrow> ('k \<times> 'v) list" where
  "put_assoc k v [] = [(k, v)]"
| "put_assoc k v ((k', v') # xs) = (if k' = k then (k, v) # xs else (k', v') # put_assoc k v xs)"

definition utf8_val :: "bytes \<Rightarrow> bytes res" where
  "utf8_val val = (if utf8_valid val then Inr val else err InvalidData)"

definition stty_val :: "bytes \<Rightarrow> bytes res" where
  "stty_val rows_cols =
    (if \<not> utf8_valid rows_cols then err InvalidData
     else case split_once (\<lambda>c. c = CHR '','') rows_cols of
       None \<Rightarrow> err InvalidData
     | Some (r, c) \<Rightarrow>
       if from_str_radix 32 10 r = None \<or> from_str_radix 32 10 c = None then err InvalidData
       else Inr rows_cols)"

definition tap_mac_val :: "bytes \<Rightarrow> (bytes \<times> bytes) res" where
  "tap_mac_val kv =
    (if \<not> utf8_valid kv then err InvalidData
     else case split_once (\<lambda>c. c = CHR ''='') kv of None \<Rightarrow> err InvalidData | Some p \<Rightarrow> Inr p)"

definition kcli_word :: "bytes \<Rightarrow> KcliArgs \<Rightarrow> KcliArgs res" where
  \<comment> \<open>the first prefix that matches decides\<close>
  "kcli_word w a =
    (case strip_prefix ''rapido.hostname='' w of
       Some v \<Rightarrow> bindR (utf8_val v) (\<lambda>s. Inr (a\<lparr>k_hostname := Some s\<rparr>))
     | None \<Rightarrow> (case strip_prefix ''rapido.vm_num='' w of
       Some v \<Rightarrow> bindR (utf8_val v) (\<lambda>s. Inr (a\<lparr>k_vm_num := Some s\<rparr>))
     | None \<Rightarrow> (case strip_prefix ''rapido.mac.'' w of
       Some v \<Rightarrow> bindR (tap_mac_val v) (\<lambda>(tap, mac).
         Inr (a\<lparr>k_tap_mac := Some (case k_tap_mac a of None \<Rightarrow> [(tap, mac)] | Some m \<Rightarrow> put_assoc tap mac m)\<rparr>))
     | None \<Rightarrow> (case strip_prefix ''rapido.stty='' w of
       Some v \<Rightarrow> bindR (stty_val v) (\<lambda>s. Inr (a\<lparr>k_stty := Some s\<rparr>))
     | None \<Rightarrow> (case strip_prefix ''systemd.machine_id='' w of
       Some v \<Rightarrow> bindR (utf8_val v) (\<lambda>s. Inr (a\<lparr>k_machine_id := Some s\<rparr>))
     | None \<Rightarrow> (case strip_prefix ''console='' w of
       Some v \<Rightarrow> bindR (utf8_val v) (\<lambda>s. Inr (a\<lparr>k_console := Some s\<rparr>))
     | None \<Rightarrow> Inr a))))))"

fun kcli_words :: "bytes list \<Rightarrow> KcliArgs \<Rightarrow> KcliArgs res" where
  "kcli_words [] a = Inr a"
| "kcli_words (w # ws) a = bindR (kcli_word w a) (kcli_words ws)"

definition kcli_parse :: "bytes \<Rightarrow> KcliArgs res" where
  "kcli_parse kcmdline = kcli_words (split_on (\<lambda>c. c = CHR '' '' \<or> c = newline) kcmdline) no_kcli_args"

section \<open>Modules, host name and network\<close>

definition kmods_load :: "init_env \<Rightarrow> bytes list \<Rightarrow> (init_act list, unit) eff" where
  "kmods_load env kmods =
    (if kmods \<noteq> [] then
       bindE (do_cmd env [(''PATH'', ''/usr/sbin:/usr/bin:/sbin:/bin'')] ''modprobe'' (''-a'' # kmods)) (\<lambda>r. case r of
         Inr True \<Rightarrow> ret ()
       | _ \<Rightarrow> throw (IoErr BrokenPipe []))
     else ret ())"

definition unwrap_num :: "KcliArgs \<Rightarrow> (init_act list, bytes) eff" where
  "unwrap_num a = (case k_vm_num a of Some n \<Rightarrow> ret n | None \<Rightarrow> throw (Panic ''called unwrap on a None value''))"

definition init_hostname :: "init_env \<Rightarrow> KcliArgs \<Rightarrow> (init_act list, bytes) eff" where
  "init_hostname env a =
    bindE (case k_hostname a of
             None \<Rightarrow> bindE (unwrap_num a) (\<lambda>n. ret (''rapido'' @ n))
           | Some hd1 \<Rightarrow>
             (case split_once (\<lambda>c. c = CHR ''.'') hd1 of
                Some (hn, d) \<Rightarrow> seqE (do_op env (WriteFile ''/proc/sys/kernel/domainname'' d)) (ret hn)
              | None \<Rightarrow> ret hd1)) (\<lambda>hostname.
    seqE (do_op env (WriteFile ''/proc/sys/kernel/hostname'' hostname)) (ret hostname))"

definition append_text :: "init_env \<Rightarrow> bytes \<Rightarrow> bytes \<Rightarrow> (init_act list, unit) eff" where
  "append_text env path txt =
    seqE (do_op env (AppendOpen True path)) (do_op env (AppendWrite path txt))"

definition append_mac :: "init_env \<Rightarrow> bytes \<Rightarrow> bytes \<Rightarrow> bytes \<Rightarrow> (init_act list, unit) eff" where
  \<comment> \<open>a tap whose file cannot be opened is skipped; a failed write is an error\<close>
  "append_mac env vm_netdir tap mac =
    (let p = vm_netdir @ ''/'' @ tap @ ''.network'' in
     tryE (do_op env (AppendOpen False p)) (\<lambda>r. case r of
       Inl _ \<Rightarrow> ret ()
     | Inr _ \<Rightarrow> do_op env (AppendWrite p ([newline] @ ''[Match]'' @ [newline] @ ''MACAddress='' @ mac))))"

definition init_net_conf :: "init_env \<Rightarrow> KcliArgs \<Rightarrow> (init_act list, unit) eff" where
  "init_net_conf env a =
    bindE (unwrap_num a) (\<lambda>n.
    let vm_netdir = ''/rapido-rsc/net/vm'' @ n in
    seqE (do_op env (Symlink vm_netdir ''/etc/systemd/network'')) (
    seqE (for_each (case k_tap_mac a of Some m \<Rightarrow> m | None \<Rightarrow> []) (\<lambda>(tap, mac). append_mac env vm_netdir tap mac)) (
    seqE (append_text env ''/etc/systemd/network/lo.network'' (''[Match]'' @ [newline] @ ''Name=lo''))
    (append_text env ''/etc/passwd''
      (''systemd-network:x:482:482:systemd Network Management:/:/sbin/nologin'' @ [newline])))))"

fun collect_entries :: "(error_kind + bytes) list \<Rightarrow> bytes list res" where
  "collect_entries [] = Inr []"
| "collect_entries (x # xs) = bindR (os x) (\<lambda>y. bindR (collect_entries xs) (\<lambda>ys. Inr (y # ys)))"

definition init_net_service :: "init_env \<Rightarrow> bytes option \<Rightarrow> (init_act list, unit) eff" where
  "init_net_service env systemd_machine_id =
    seqE (case systemd_machine_id of
            None \<Rightarrow> throw (IoErr InvalidInput [])
          | Some mid \<Rightarrow> do_op env (WriteFile ''/etc/machine-id'' mid)) (
    seqE (run_or_fail env ''/usr/lib/systemd/systemd-udevd'' [''--daemon''] ''failed to execute systemd-udevd'') (
    bindE (lift_res (bindR (os (h_readdir (ie_host env) ''/sys/class/net/'')) collect_entries)) (\<lambda>names.
    seqE (run_or_fail env ''udevadm'' (''trigger'' # map (path_join ''/sys/class/net/'') names)
            ''failed to execute udevadm'') (
    seqE (run_or_fail env ''setsid'' [''--fork'', ''/usr/lib/systemd/systemd-networkd'']
            ''failed to execute systemd-networkd via setsid'')
    (run_or_fail env ''/usr/lib/systemd/systemd-networkd-wait-online'' [''--timeout=20'']
            ''failed to execute systemd-networkd-wait-online'')))))"

section \<open>Handing over\<close>

datatype init_end = Completed | Replaced

definition init_exec_systemd :: "init_env \<Rightarrow> (bytes \<times> bytes) list \<Rightarrow> (init_act list, init_end) eff" where
  "init_exec_systemd env envs =
    tryE (do_op env (ExecSystemd ((''DRACUT_SYSTEMD'', ''1'') # envs))) (\<lambda>r. case r of
      Inr _ \<Rightarrow> ret Replaced
    | Inl _ \<Rightarrow> throw (Panic ''systemd failed to start''))"

definition shell_args :: "bytes list" where
  "shell_args = [''--ctty'', ''--'', ''bash'', ''--rcfile'', ''/rapido.rc'', ''-i'']"

definition init_shell :: "init_env \<Rightarrow> (bytes \<times> bytes) list \<Rightarrow> (init_act list, init_end) eff" where
  \<comment> \<open>the outcome of the operation is that of starting bash, the one of the command that of waiting\<close>
  "init_shell env envs =
    seqE (tryE (do_op env (SpawnShell envs ''setsid'' shell_args)) (\<lambda>r. case r of
      Inr _ \<Rightarrow> ret ()
    | Inl _ \<Rightarrow> throw (Panic ''failed to execute bash via setsid'')))
    (case ie_cmd env (SpawnShell envs ''setsid'' shell_args) of Inl _ \<Rightarrow> throw (IoErr BrokenPipe []) | Inr _ \<Rightarrow> ret Completed)"

definition init_shutdown :: "init_env \<Rightarrow> (init_act list, unit) eff" where
  "init_shutdown env =
    seqE (do_op env (WriteFile ''/proc/sys/kernel/sysrq'' (''1'' @ [newline]))) (
    seqE (do_op env (WriteFile ''/proc/sysrq-trigger'' (''o'' @ [newline])))
    (modifyE (\<lambda>tr. tr @ [Sleep 20])))"

definition init_envs :: "KcliArgs \<Rightarrow> bytes \<Rightarrow> (bytes \<times> bytes) list" where
  "init_envs a hostname =
    [(''HOSTNAME'', hostname), (''PATH'', ''/usr/sbin:/usr/bin:/sbin:/bin''),
     (''PS1'', hostname @ '':${PWD}# ''), (''RAPIDO_INIT'', ''0.1''),
     (''STTY_RC'', case k_stty a of Some s \<Rightarrow> s | None \<Rightarrow> []), (''TERM'', ''linux'')]"

definition is_dir_md :: "Metadata \<Rightarrow> bool" where
  "is_dir_md md \<longleftrightarrow> st_mode md AND S_IFMT = S_IFDIR"

definition init_prepare :: "init_env \<Rightarrow> conf \<Rightarrow> bool \<Rightarrow> (init_act list, unit) eff" where
  \<comment> \<open>mounts, kernel modules and the shared directory\<close>
  "init_prepare env conf has_net =
    seqE (init_mount env (conf ''DYN_DEBUG_MODULES'' \<noteq> None \<or> conf ''DYN_DEBUG_FILES'' \<noteq> None)) (
    seqE (kmods_load env (conf_kmod_deps conf @ (if has_net then [''virtio_net'', ''af_packet''] else [])))
    (if conf ''VIRTFS_SHARE_PATH'' \<noteq> None then
       seqE (do_op env (CreateDirAll ''/host''))
       (bindE (run_status env ''mount'' [''-t'', ''9p'', ''host0'', ''/host''] ''failed to execute mount command'')
         (\<lambda>_. ret ()))
     else ret ()))"

definition init_run :: "init_env \<Rightarrow> bool \<Rightarrow> bool \<Rightarrow> KcliArgs \<Rightarrow> (init_act list, init_end) eff" where
  "init_run env has_net has_systemd a =
    bindE (init_hostname env a) (\<lambda>hostname.
    seqE (if has_net then init_net_conf env a else ret ())
    (if has_systemd then init_exec_systemd env (init_envs a hostname)
     else
       seqE (if has_net then init_net_service env (k_machine_id a) else ret ())
       (init_shell env (init_envs a hostname))))"

definition init_main :: "init_env \<Rightarrow> (init_act list, init_end) eff" where
  "init_main env =
    (let h = ie_host env in
     bindE (lift_res (os (h_open h RAPIDO_CONF))) (\<lambda>(_, f).
     bindE (lift_res (kv_conf_process f)) (\<lambda>conf.
     let has_net = (case h_lstat h ''/rapido-rsc/net'' of Inl _ \<Rightarrow> False | Inr md \<Rightarrow> is_dir_md md);
         has_systemd = (case h_lstat h SYSTEMD_BIN_PATH of Inl _ \<Rightarrow> False | Inr md \<Rightarrow> \<not> is_dir_md md)
     in seqE (init_prepare env conf has_net) (
        bindE (lift_res (fs_read h ''/proc/cmdline'')) (\<lambda>kcmdline.
        bindE (lift_res (kcli_parse kcmdline)) (\<lambda>a.
        if k_vm_num a = None then throw (IoErr InvalidInput [])
        else init_run env has_net has_systemd a))))))"

definition init_start :: "init_env \<Rightarrow> (init_act list, unit) eff" where
  \<comment> \<open>\<^verbatim>\<open>main\<close>: an error of the start-up or of the shutdown is only reported\<close>
  "init_start env =
    tryE (init_main env) (\<lambda>r. case r of
      Inr Replaced \<Rightarrow> ret ()
    | Inl (Panic m) \<Rightarrow> throw (Panic m)
    | _ \<Rightarrow> tryE (init_shutdown env) (\<lambda>_. ret ()))"

end
