(* ===== verification/Init_Run.thy ===== *)
theory Init_Run
  imports Init "HOL-Library.Code_Target_Nat" "HOL-Library.Code_Target_Int"
begin

text \<open>
  What \<^verbatim>\<open>rapido-init\<close> guarantees of its actions: the mounts come first, and the machine is
  powered off at the end. Both rest on compositional rules for the trace of an effect.
\<close>

section \<open>Traces\<close>

text \<open>
  The actions an effect adds: \<open>extends A m\<close> says that \<open>m\<close> only appends actions to the trace,
  each of them in \<open>A\<close>.
\<close>

definition extends :: "(init_act \<Rightarrow> bool) \<Rightarrow> (init_act list, 'a) eff \<Rightarrow> bool" where
  "extends A m \<longleftrightarrow> (\<forall>tr r u. m tr = (r, u) \<longrightarrow> (\<exists>z. u = tr @ z \<and> list_all A z))"

lemma extendsE:
  assumes "extends A m" and "m tr = (r, u)"
  obtains z where "u = tr @ z" and "list_all A z"
  using assms unfolding extends_def by blast

named_theorems extends_intro \<open>compositional rules for the actions of an effect\<close>

lemma extends_mono: "extends A m \<Longrightarrow> (\<And>a. A a \<Longrightarrow> B a) \<Longrightarrow> extends B m"
  unfolding extends_def by (metis list.pred_mono_strong)

lemma extends_base [extends_intro]: "extends A (ret x)" "extends A (throw e)" "extends A (lift_res r)"
  by (simp_all add: extends_def)

lemma extends_bindE [extends_intro]:
  assumes "extends A m" and "\<And>x. extends A (f x)"
  shows "extends A (bindE m f)"
  unfolding extends_def
proof (intro allI impI)
  fix tr r u
  assume "bindE m f tr = (r, u)"
  then show "\<exists>z. u = tr @ z \<and> list_all A z"
  proof (cases rule: bindE_cases)
    case (fail e)
    with assms(1) show ?thesis by (auto simp: extends_def)
  next
    case (step x v)
    obtain y where "v = tr @ y" "list_all A y" by (rule extendsE [OF assms(1) step(1)])
    moreover obtain z where "u = v @ z" "list_all A z" by (rule extendsE [OF assms(2) step(2)])
    ultimately show ?thesis by (intro exI [of _ "y @ z"]) simp
  qed
qed

lemma extends_seqE [extends_intro]: "extends A m \<Longrightarrow> extends A n \<Longrightarrow> extends A (seqE m n)"
  unfolding seqE_def by (intro extends_intro)

lemma extends_tryE [extends_intro]:
  assumes "extends A m" and "\<And>x. extends A (f x)"
  shows "extends A (tryE m f)"
  unfolding extends_def
proof (intro allI impI)
  fix tr r u
  assume t: "tryE m f tr = (r, u)"
  obtain x v where x: "m tr = (x, v)" by fastforce
  obtain y where "v = tr @ y" "list_all A y" by (rule extendsE [OF assms(1) x])
  moreover have "f x v = (r, u)" using t x by (simp add: tryE_def)
  then obtain z where "u = v @ z" "list_all A z" by (rule extendsE [OF assms(2)])
  ultimately show "\<exists>z. u = tr @ z \<and> list_all A z" by (intro exI [of _ "y @ z"]) simp
qed

lemma extends_if [extends_intro]:
  "(b \<Longrightarrow> extends A m) \<Longrightarrow> (\<not> b \<Longrightarrow> extends A n) \<Longrightarrow> extends A (if b then m else n)"
  by simp

lemma extends_bool [extends_intro]:
  "extends A m \<Longrightarrow> extends A n \<Longrightarrow> extends A (case b of True \<Rightarrow> m | False \<Rightarrow> n)"
  by (cases b) auto

lemma extends_option [extends_intro]:
  "extends A m \<Longrightarrow> (\<And>x. extends A (f x)) \<Longrightarrow> extends A (case z of None \<Rightarrow> m | Some x \<Rightarrow> f x)"
  by (cases z) auto

lemma extends_sum [extends_intro]:
  "(\<And>x. extends A (m x)) \<Longrightarrow> (\<And>x. extends A (f x)) \<Longrightarrow> extends A (case z of Inl x \<Rightarrow> m x | Inr x \<Rightarrow> f x)"
  by (cases z) auto

lemma extends_prod [extends_intro]:
  "(\<And>x y. extends A (f x y)) \<Longrightarrow> extends A (case z of (x, y) \<Rightarrow> f x y)"
  by (cases z) auto

lemma extends_for_each [extends_intro]:
  "(\<And>x. x \<in> set xs \<Longrightarrow> extends A (f x)) \<Longrightarrow> extends A (for_each xs f)"
proof (induction xs)
  case Nil
  then show ?case by (simp add: extends_def)
next
  case (Cons x xs)
  then have "extends A (bindE (f x) (\<lambda>_. for_each xs f))" by (intro extends_intro) auto
  then show ?case by (simp add: extends_def)
qed

lemma extends_do_op [extends_intro]: "A a \<Longrightarrow> extends A (do_op env a)"
  by (auto simp: extends_def do_op_def seqE_def)

lemma extends_do_cmd [extends_intro]: "A (RunCmd vars p args) \<Longrightarrow> extends A (do_cmd env vars p args)"
  by (auto simp: extends_def do_cmd_def seqE_def)

lemma extends_run [extends_intro]:
  assumes "A (RunCmd [] p args)"
  shows "extends A (run_status env p args msg)" and "extends A (run_or_fail env p args msg)"
  unfolding run_or_fail_def run_status_def using assms by (intro extends_intro; simp)+


section \<open>Mounts\<close>

fun mount_act :: "init_act \<Rightarrow> bool" where
  "mount_act (CreateDirAll _) = True"
| "mount_act (RunCmd _ p _) = (p = ''mount'')"
| "mount_act (Symlink _ _) = True"
| "mount_act _ = False"

definition mount_acts :: "bytes list list \<Rightarrow> init_act list" where
  "mount_acts ms = concat (map (\<lambda>args. [CreateDirAll (last args), RunCmd [] ''mount'' args]) ms)"

definition mounted :: "init_env \<Rightarrow> bytes list \<Rightarrow> bool" where
  "mounted env args \<longleftrightarrow>
    ie_op env (CreateDirAll (last args)) = Inr () \<and> ie_cmd env (RunCmd [] ''mount'' args) = Inr True"

lemma do_op_Inr_iff: "do_op env a tr = (Inr x, u) \<longleftrightarrow> ie_op env a = Inr () \<and> u = tr @ [a]"
  by (cases "ie_op env a") (auto simp: do_op_def seqE_def)

lemma run_or_fail_Inr_iff:
  "run_or_fail env p args msg tr = (Inr x, u) \<longleftrightarrow>
    ie_cmd env (RunCmd [] p args) = Inr True \<and> u = tr @ [RunCmd [] p args]"
  by (cases "ie_cmd env (RunCmd [] p args)")
    (auto simp: run_or_fail_def run_status_def do_cmd_def seqE_def bindE_Inr_iff split: if_splits)

lemma init_mount_extends: "extends mount_act (init_mount env b)"
  unfolding init_mount_def by (intro extends_intro; simp)

lemma mounts_done:
  assumes "for_each ms (\<lambda>args. seqE (do_op env (CreateDirAll (last args)))
      (run_or_fail env ''mount'' args msg)) tr = (Inr (), u)"
  shows "u = tr @ mount_acts ms \<and> list_all (mounted env) ms"
  using assms
proof (induction ms arbitrary: tr)
  case (Cons a ms)
  then have "for_each ms (\<lambda>args. seqE (do_op env (CreateDirAll (last args)))
      (run_or_fail env ''mount'' args msg)) (tr @ [CreateDirAll (last a), RunCmd [] ''mount'' a]) = (Inr (), u)"
    and "mounted env a"
    by (auto simp: mounted_def bindE_Inr_iff seqE_Inr_iff do_op_Inr_iff run_or_fail_Inr_iff)
  with Cons.IH [OF this(1)] show ?case by (simp add: mount_acts_def)
qed (simp add: mount_acts_def)

lemma init_mount_done:
  assumes "init_mount env b tr = (Inr (), u)"
  shows "\<exists>z. u = tr @ mount_acts init_mounts @ z \<and> list_all (mounted env) init_mounts"
proof -
  let ?dbg = "if b then bindE (run_status env ''mount'' [''-t'', ''debugfs'', ''debugfs'', ''/sys/kernel/debug/'']
      ''failed to execute mount command'') (\<lambda>_. ret ()) else ret ()"
  let ?m = "seqE ?dbg (tryE (do_op env (Symlink ''/proc/self/fd'' ''/dev/fd'')) (\<lambda>_. ret ()))"
  from assms obtain v where m: "for_each init_mounts (\<lambda>args. seqE (do_op env (CreateDirAll (last args)))
      (run_or_fail env ''mount'' args ''failed to execute mount command'')) tr = (Inr (), v)" and r: "?m v = (Inr (), u)"
    unfolding init_mount_def seqE_Inr_iff [of "for_each _ _"] by blast
  have "extends mount_act ?m" by (intro extends_intro; simp)
  then obtain z where "u = v @ z" using r by (rule extendsE)
  with mounts_done [OF m] show ?thesis by auto
qed

lemma extends_init_prepare: "extends (\<lambda>_. True) (init_prepare env conf n)"
  unfolding init_prepare_def init_mount_def kmods_load_def by (intro extends_intro; simp)

lemma extends_init_run: "extends (\<lambda>_. True) (init_run env n sd a)"
  unfolding init_run_def init_hostname_def unwrap_num_def init_net_conf_def append_mac_def append_text_def Let_def
    init_exec_systemd_def init_net_service_def init_shell_def
  by (intro extends_intro; simp)

definition mounts_first :: "init_env \<Rightarrow> init_act list \<Rightarrow> bool" where
  "mounts_first env tr \<longleftrightarrow>
    list_all mount_act tr \<or> (prefix (mount_acts init_mounts) tr \<and> list_all (mounted env) init_mounts)"

lemma seqE_assoc: "seqE (seqE m n) k = seqE m (seqE n k)"
  by (rule ext) (simp add: seqE_def bindE_def split: prod.splits sum.splits)

lemma after_mounts:
  assumes "seqE (init_mount env b) m [] = (r, tr)" and "extends (\<lambda>_. True) m"
  shows "mounts_first env tr"
  using assms(1) unfolding seqE_def
proof (cases rule: bindE_cases)
  case (fail e)
  from init_mount_extends fail(1) obtain z where "tr = [] @ z" "list_all mount_act z" by (rule extendsE)
  then show ?thesis by (simp add: mounts_first_def)
next
  case (step x u)
  from init_mount_done [of env b "[]" u] step(1) have "prefix (mount_acts init_mounts) u" "list_all (mounted env) init_mounts"
    by auto
  moreover from assms(2) step(2) obtain z where "tr = u @ z" by (rule extendsE)
  ultimately show ?thesis by (auto simp: mounts_first_def)
qed

lemma prepare_after_mounts:
  assumes "seqE (init_prepare env conf n) k [] = (r, tr)" and "extends (\<lambda>_. True) k"
  shows "mounts_first env tr"
  using assms(1) unfolding init_prepare_def seqE_assoc kmods_load_def
  by (rule after_mounts) (intro extends_intro assms(2); simp)

lemma init_main_mounts:
  assumes "init_main env [] = (r, tr)"
  shows "mounts_first env tr"
proof (cases "os (h_open (ie_host env) RAPIDO_CONF)")
  case (Inl e)
  with assms show ?thesis by (simp add: init_main_def bindE_def mounts_first_def Let_def)
next
  case o: (Inr x)
  show ?thesis
  proof (cases "kv_conf_process (snd x)")
    case (Inl e)
    with assms o show ?thesis by (cases x) (simp add: init_main_def bindE_def mounts_first_def Let_def)
  next
    case (Inr conf)
    obtain md f where x: "x = (md, f)" by (cases x)
    have "extends (\<lambda>_. True) (bindE (lift_res (fs_read (ie_host env) ''/proc/cmdline'')) (\<lambda>kcmdline.
        bindE (lift_res (kcli_parse kcmdline)) (\<lambda>a.
        if k_vm_num a = None then throw (IoErr InvalidInput []) else init_run env n sd a)))" for n sd
      by (intro extends_intro extends_init_run)
    with assms o Inr x show ?thesis
      by (intro prepare_after_mounts) (auto simp: init_main_def Let_def)
  qed
qed

definition power_off :: "init_act list" where
  "power_off = [WriteFile ''/proc/sys/kernel/sysrq'' (''1'' @ [newline]), WriteFile ''/proc/sysrq-trigger'' (''o'' @ [newline]), Sleep 20]"

lemma init_shutdown_extends: "extends (\<lambda>a. a \<in> set power_off) (init_shutdown env)"
proof -
  have "extends A (modifyE (\<lambda>tr. tr @ [a]))" if "A a" for A a
    using that by (simp add: extends_def)
  then show ?thesis unfolding init_shutdown_def power_off_def by (intro extends_intro; simp)
qed

lemma init_start_cases:
  assumes "init_start env tr = (r, u)"
  obtains (replaced) "init_main env tr = (Inr Replaced, u)" and "r = Inr ()"
  | (panic) m where "init_main env tr = (Inl (Panic m), u)" and "r = Inl (Panic m)"
  | (off) x v where "init_main env tr = (x, v)" and "snd (init_shutdown env v) = u" and "r = Inr ()"
proof -
  obtain x v where x: "init_main env tr = (x, v)" by fastforce
  obtain y w where y: "init_shutdown env v = (y, w)" by fastforce
  show thesis
  proof (cases x)
    case (Inl e)
    with assms x y that show ?thesis by (cases e) (auto simp: init_start_def tryE_def)
  next
    case (Inr z)
    with assms x y that show ?thesis by (cases z) (auto simp: init_start_def tryE_def)
  qed
qed

text \<open>
  C14. \<^verbatim>\<open>rapido-init\<close> mounts before anything else: when its trace holds any action besides
  the mounts and the power-off, then the trace starts with the creation and mount of \<^verbatim>\<open>/proc\<close>,
  \<^verbatim>\<open>/sys\<close>, \<^verbatim>\<open>/dev\<close>, \<^verbatim>\<open>/dev/pts\<close> and \<^verbatim>\<open>/tmp\<close>, in this order, and all of them succeeded. In
  particular no kernel module is loaded and no shell started on a machine without them.
\<close>

theorem init_mounts_before:
  assumes "init_start env [] = (r, tr)" and "a \<in> set tr" and "\<not> mount_act a" and "a \<notin> set power_off"
  shows "prefix (mount_acts init_mounts) tr \<and> list_all (mounted env) init_mounts"
proof -
  obtain x v z where x: "init_main env [] = (x, v)" and u: "tr = v @ z" and z: "list_all (\<lambda>a. a \<in> set power_off) z"
    using assms(1)
  proof (cases rule: init_start_cases)
    case (off x v)
    then obtain y where "init_shutdown env v = (y, tr)" by (cases "init_shutdown env v") auto
    with init_shutdown_extends obtain z where "tr = v @ z" "list_all (\<lambda>a. a \<in> set power_off) z" by (rule extendsE)
    with that off(1) show ?thesis by blast
  qed (use that [of _ tr "[]"] in auto)
  from u z assms(2,4) have "a \<in> set v" by (auto simp: list_all_iff)
  with init_main_mounts [OF x] assms(3) u show ?thesis by (auto simp: mounts_first_def list_all_iff prefix_def)
qed


definition sample_env :: init_env where
  "sample_env =
    \<lparr>ie_host = files_host [(''/rapido.conf'', ''A=1''), (''/proc/cmdline'', ''console=ttyS0 rapido.vm_num=1'')],
     ie_op = (\<lambda>_. Inr ()), ie_cmd = (\<lambda>_. Inr True)\<rparr>"

lemma sample_start:
  "case init_start sample_env [] of (r, tr) \<Rightarrow> r = Inr () \<and> length tr = 16 \<and> SpawnShell (init_envs (no_kcli_args\<lparr>k_vm_num := Some ''1''\<rparr>) ''rapido1'') ''setsid'' shell_args \<in> set tr"
  by code_simp

section \<open>Panics\<close>

definition expect_msgs :: "string set" where
  "expect_msgs = {''failed to execute mount command'', ''failed to execute systemd-udevd'', ''failed to execute udevadm'',
    ''failed to execute systemd-networkd via setsid'', ''failed to execute systemd-networkd-wait-online'',
    ''systemd failed to start'', ''failed to execute bash via setsid''}"

definition expected :: "fault \<Rightarrow> bool" where
  "expected e \<longleftrightarrow> (\<forall>m. e = Panic m \<longrightarrow> m \<in> expect_msgs)"

lemma expected_simps [simp]: "expected (IoErr k m)" "expected OutOfFuel" "expected (Panic m) \<longleftrightarrow> m \<in> expect_msgs"
  by (simp_all add: expected_def)

lemma expect_msgs_in [simp]:
  "''failed to execute mount command'' \<in> expect_msgs" "''failed to execute systemd-udevd'' \<in> expect_msgs"
  "''failed to execute udevadm'' \<in> expect_msgs" "''failed to execute systemd-networkd via setsid'' \<in> expect_msgs"
  "''failed to execute systemd-networkd-wait-online'' \<in> expect_msgs" "''systemd failed to start'' \<in> expect_msgs"
  "''failed to execute bash via setsid'' \<in> expect_msgs"
  by (simp_all add: expect_msgs_def)

lemma throws_do_op [throws_intro]: "throws expected (do_op env a)"
  unfolding do_op_def by (intro throws_intro) (auto simp: os_def split: sum.splits)

lemma throws_do_cmd [throws_intro]: "throws F (do_cmd env vars p args)"
  unfolding do_cmd_def by (intro throws_intro)

lemma throws_run [throws_intro]:
  assumes "msg \<in> expect_msgs"
  shows "throws expected (run_status env p args msg)" and "throws expected (run_or_fail env p args msg)"
  unfolding run_or_fail_def run_status_def using assms by (intro throws_intro; simp)+

lemma collect_entries_no_panic: "collect_entries xs \<noteq> Inl (Panic m)"
  by (induction xs) (auto simp: bindR_def split: sum.splits)

lemma throws_init_run:
  assumes "k_vm_num a \<noteq> None"
  shows "throws expected (init_run env n sd a)"
proof -
  have "throws expected (unwrap_num a)" using assms by (auto simp: unwrap_num_def throws_def)
  note [throws_intro] = this
  show ?thesis
    unfolding init_run_def init_hostname_def init_net_conf_def append_mac_def append_text_def Let_def
      init_exec_systemd_def init_net_service_def init_shell_def
    using collect_entries_no_panic
    by (intro throws_intro; (fastforce simp: expected_def bindR_def split: sum.splits)?)
qed

lemma throws_init_main: "throws expected (init_main env)"
proof -
  have kv: "kv_conf_process f \<noteq> Inl (Panic m)" for f m
    using append_loop.no_panic [of 1 f "[]" Map.empty m]
    by (auto simp: kv_conf_process_def kv_conf_process_append_def split: prod.splits sum.splits)
  have rd: "fs_read (ie_host env) p \<noteq> Inl (Panic m)" for p m
    by (auto simp: fs_read_def bindR_def os_def split: sum.splits option.splits)
  have w: "kcli_word x a \<noteq> Inl (Panic m)" for x a m
    by (auto simp: kcli_word_def utf8_val_def tap_mac_val_def stty_val_def bindR_def
        split: option.splits sum.splits if_splits)
  have "kcli_words ws a \<noteq> Inl (Panic m)" for ws a m
    by (induction ws arbitrary: a) (auto simp: w bindR_def split: sum.splits)
  then have cli: "kcli_parse c \<noteq> Inl (Panic m)" for c m by (simp add: kcli_parse_def)
  show ?thesis
    unfolding init_main_def init_prepare_def init_mount_def kmods_load_def Let_def
    by (intro throws_intro throws_init_run; (use kv rd cli in \<open>auto simp: expected_def os_def split: sum.splits\<close>)?)
qed

lemma init_run_replaced:
  assumes "init_run env n sd a tr = (Inr Replaced, u)"
  shows "\<exists>v envs. u = v @ [ExecSystemd envs] \<and> ie_op env (ExecSystemd envs) = Inr ()"
proof -
  have shell: "init_shell env envs v = (Inr x, w) \<Longrightarrow> x = Completed" for envs v w x
    by (auto simp: init_shell_def seqE_Inr_iff split: sum.splits)
  have sysd: "\<exists>v envs. u = v @ [ExecSystemd envs] \<and> ie_op env (ExecSystemd envs) = Inr ()"
    if "init_exec_systemd env envs v = (Inr Replaced, u)" for envs v
    using that by (auto simp: init_exec_systemd_def tryE_def do_op_Inr_iff split: prod.splits sum.splits)
  from assms show ?thesis
    by (auto simp: init_run_def bindE_Inr_iff seqE_Inr_iff dest: shell sysd split: if_splits)
qed

lemma init_main_replaced:
  assumes "init_main env tr = (Inr Replaced, u)"
  shows "\<exists>v envs. u = v @ [ExecSystemd envs] \<and> ie_op env (ExecSystemd envs) = Inr ()"
  using assms
  by (auto simp: init_main_def Let_def bindE_Inr_iff seqE_Inr_iff dest: init_run_replaced split: if_splits)

text \<open>
  C15. A machine does not stay behind: however the start-up of \<^verbatim>\<open>rapido-init\<close> ends, with an
  error or after the shell, it powers the machine off through the magic system request key,
  if the kernel has it. The exceptions are that systemd took over, and that the process to
  execute did not start, which is a panic with one of the messages in the code; no value is
  unwrapped that is absent.
\<close>

theorem init_powers_off:
  assumes "init_start env tr = (r, u)"
    and "ie_op env (WriteFile ''/proc/sys/kernel/sysrq'' (''1'' @ [newline])) = Inr ()"
    and "ie_op env (WriteFile ''/proc/sysrq-trigger'' (''o'' @ [newline])) = Inr ()"
  shows "(r = Inr () \<and> (\<exists>v. u = v @ power_off))
    \<or> (r = Inr () \<and> (\<exists>v envs. u = v @ [ExecSystemd envs] \<and> ie_op env (ExecSystemd envs) = Inr ()))
    \<or> (\<exists>m\<in>expect_msgs. r = Inl (Panic m))"
  using assms(1)
proof (cases rule: init_start_cases)
  case replaced
  with init_main_replaced show ?thesis by blast
next
  case (panic m)
  with throws_init_main have "expected (Panic m)" by (meson throwsD)
  with panic show ?thesis by auto
next
  case (off x v)
  with assms(2,3) have "u = v @ power_off" by (simp add: init_shutdown_def do_op_def seqE_def power_off_def)
  with off show ?thesis by blast
qed

theorem init_mounts_before_witness:
  "\<exists>r tr. init_start sample_env [] = (r, tr) \<and> (\<exists>envs. SpawnShell envs ''setsid'' shell_args \<in> set tr)
    \<and> prefix (mount_acts init_mounts) tr \<and> list_all (mounted sample_env) init_mounts"
proof -
  obtain r tr envs where s: "init_start sample_env [] = (r, tr)" and e: "SpawnShell envs ''setsid'' shell_args \<in> set tr"
    using sample_start by (cases "init_start sample_env []") auto
  have "\<not> mount_act (SpawnShell envs p args)" "SpawnShell envs p args \<notin> set power_off" for p args by (simp_all add: power_off_def)
  from init_mounts_before [OF s e this] s e show ?thesis by blast
qed

theorem init_powers_off_witness:
  "\<exists>r u. init_start sample_env [] = (r, u) \<and> r = Inr ()
    \<and> ((\<exists>v. u = v @ power_off) \<or> (\<exists>v envs. u = v @ [ExecSystemd envs] \<and> ie_op sample_env (ExecSystemd envs) = Inr ()))"
proof -
  obtain r u where s: "init_start sample_env [] = (r, u)" "r = Inr ()"
    using sample_start by (cases "init_start sample_env []") auto
  have "ie_op sample_env a = Inr ()" for a by (simp add: sample_env_def)
  from init_powers_off [OF s(1) this this] s show ?thesis by auto
qed

end
