(* ===== verification/Shared_Conf.thy ===== *)
theory Shared_Conf
  imports Cut_Run Cut_Kmods Cut_Frame Init_Run
begin

text \<open>
  One configuration file, two readers: \<^verbatim>\<open>rapido-cut\<close> (and \<^verbatim>\<open>rapido-vm\<close>) read it on top of the
  defaults, \<^verbatim>\<open>rapido-init\<close> without them. The readings agree on what the file says, and so do
  the tools on the kernel modules that go into the archive and are loaded from it.
\<close>

section \<open>Reading a file on top of defaults\<close>

lemma kv_var_sub_mono: "kv_var_sub b m = Inr x \<Longrightarrow> m \<subseteq>\<^sub>m m' \<Longrightarrow> kv_var_sub b m' = Inr x"
  by (auto simp: kv_var_sub_def map_le_def dom_def split: list.splits if_splits option.splits sum.splits)

lemma kv_block_mono:
  assumes "kv_block m b st = Inr z" and "m \<subseteq>\<^sub>m m'"
  shows "kv_block m' b st = Inr z"
proof (cases "escape_next st \<or> comment_next st \<or> \<not> var_next st")
  case True
  then have "kv_block m' b st = kv_block m b st"
    by (cases "escape_next st"; cases "comment_next st"; simp add: kv_block_def)
  with assms(1) show ?thesis by simp
next
  case False
  with assms(1) obtain x where "kv_var_sub b m = Inr x" by (auto simp: kv_block_def split: sum.splits)
  with kv_var_sub_mono [OF this assms(2)] False assms(1) show ?thesis by (simp add: kv_block_def)
qed

lemma kv_blocks_mono: "kv_blocks m bs st = Inr z \<Longrightarrow> m \<subseteq>\<^sub>m m' \<Longrightarrow> kv_blocks m' bs st = Inr z"
proof (induction bs arbitrary: st)
  case (Cons b bs)
  then obtain st1 brk where "kv_block m b st = Inr (st1, brk)" by (auto split: sum.splits)
  with kv_block_mono [OF this Cons.prems(2)] Cons show ?case by (auto split: if_splits)
qed simp

lemma kv_process_mono:
  assumes "kv_process line m = (Inr z, buf)" and "m \<subseteq>\<^sub>m m'"
  shows "kv_process line m' = (Inr z, buf)"
proof (cases "trim_start line = [] \<or> starts_with ''#'' (trim_start line)")
  case True
  with assms(1) show ?thesis by (simp add: kv_process_def)
next
  case False
  with assms(1) obtain key val st where k: "split_once (\<lambda>c. c = CHR ''='') (trim_start line) = Some (key, val)"
    and ok: "key \<noteq> []" "\<not> list_ex is_key_bad key"
    and st: "kv_blocks m (split_inclusive is_special val) kv_scan_init = Inr st"
    by (auto simp: kv_process_def Let_def split: option.splits sum.splits if_splits)
  from kv_blocks_mono [OF st assms(2)] assms(1) False k ok st show ?thesis by (simp add: kv_process_def Let_def)
qed

lemma kv_append_loop_defaults:
  "kv_append_loop linenum rdr buf m = (Inr (), m2) \<Longrightarrow> kv_append_loop linenum rdr buf (d ++ m) = (Inr (), d ++ m2)"
proof (induction linenum rdr buf m rule: kv_append_loop.induct)
  case (1 linenum rdr buf m)
  obtain r rdr1 buf1 where l: "kv_read_line rdr linenum buf = (r, rdr1, buf1)" by (metis prod_cases3)
  with 1 obtain n where n: "r = Inr n"
    by (cases r) (auto simp: kv_append_loop.simps [of linenum rdr buf m])
  show ?case
  proof (cases "n = 0")
    case True
    with 1 l n show ?thesis by (auto simp: kv_append_loop.simps [of linenum rdr buf])
  next
    case False
    obtain p buf2 where p: "kv_process buf1 m = (p, buf2)" by fastforce
    with "1.prems" l n False obtain kv where kv: "p = Inr kv"
      by (cases p) (auto simp: kv_append_loop.simps [of linenum rdr buf m])
    let ?put = "\<lambda>m. case kv of Some (k, v) \<Rightarrow> m(k \<mapsto> v) | None \<Rightarrow> m"
    have "kv_append_loop (linenum + 1) rdr1 buf2 (?put m) = (Inr (), m2)"
      using "1.prems" l n False p kv by (simp add: kv_append_loop.simps [of linenum rdr buf m])
    with "1.IH" l n False p kv have "kv_append_loop (linenum + 1) rdr1 buf2 (d ++ ?put m) = (Inr (), d ++ m2)" by simp
    moreover have "d ++ ?put m = ?put (d ++ m)" by (auto split: option.splits)
    moreover have "kv_process buf1 (d ++ m) = (Inr kv, buf2)"
      using kv_process_mono [of buf1 m kv buf2 "d ++ m"] p kv by simp
    ultimately show ?thesis using l n False by (simp add: kv_append_loop.simps [of linenum rdr buf "d ++ m"])
  qed
qed

lemma kv_conf_defaults:
  assumes "kv_conf_process f = Inr m"
  shows "kv_conf_process_append f d = (Inr (), d ++ m)"
  using assms kv_append_loop_defaults [of 1 f "[]" Map.empty m d]
  by (auto simp: kv_conf_process_def kv_conf_process_append_def split: prod.splits sum.splits)


section \<open>The modules of a configuration\<close>

lemma conf_kmod_deps_defaults: "set (conf_kmod_deps m) \<subseteq> set (conf_kmod_deps (conf_defaults ++ m))"
proof -
  have v: "(conf_defaults ++ m) ''VIRTFS_SHARE_PATH'' = m ''VIRTFS_SHARE_PATH''"
    by (simp add: map_add_def conf_defaults_def split: option.splits)
  show ?thesis
  proof (cases "m ''QEMU_EXTRA_ARGS''")
    case None
    with v show ?thesis unfolding conf_kmod_deps_def by simp
  next
    case (Some a)
    then have "(conf_defaults ++ m) ''QEMU_EXTRA_ARGS'' = Some a" by simp
    with Some v show ?thesis unfolding conf_kmod_deps_def by simp
  qed
qed

section \<open>The module database of a run\<close>

definition same_gk :: "cut \<Rightarrow> cut \<Rightarrow> bool" where
  "same_gk s t \<longleftrightarrow> cu_gk t = cu_gk s"

interpretation gk: cut_frame same_gk
  by unfold_locales (simp_all add: same_gk_def)

lemma ensure_gk_sets: "ensure_gk h conf s = (Inr gk, t) \<Longrightarrow> cu_gk t = Some gk"
  by (auto simp: ensure_gk_def bindE_Inr_iff seqE_Inr_iff split: option.splits)

lemma cut_body_kmods:
  assumes "cut_body fuel h conf cf s = (Inr n, t)" and "steady h"
  shows "\<exists>gk. cu_gk t = Some gk \<and> (\<forall>name\<in>set (conf_kmod_deps conf). \<exists>m. find_kmod (kmod_ctx gk) name = Some m
    \<and> (km_status m = Builtin \<or> components (kmod_dst gk (rel_path m)) \<in> paths_seen t))"
proof -
  from assms(1) obtain u v w where k: "gather_archive_kmods h conf (conf_kmod_deps conf) False u = (Inr (), v)"
    and p: "populate_default_symlinks v = (Inr (), w)" and t: "on_cpio archive_trailer w = (Inr n, t)"
    unfolding cut_body_def by (auto simp: seqE_Inr_iff)
  from gather_kmods_marks [OF k assms(2)] obtain gk z where e: "ensure_gk h conf u = (Inr gk, z)"
    and m: "\<forall>name\<in>set (conf_kmod_deps conf). \<exists>m. find_kmod (kmod_ctx gk) name = Some m
      \<and> (km_status m = Builtin \<or> components (kmod_dst gk (rel_path m)) \<in> paths_seen v)" by blast
  from k e have "for_each (conf_kmod_deps conf) (archive_kmod_named h gk False) z = (Inr (), v)"
    by (auto simp: gather_archive_kmods_def bindE_Inr_iff)
  then have "same_gk z v" by (rule framesD [rotated]) (intro frame_intro)
  then have "cu_gk t = Some gk"
    using ensure_gk_sets [OF e] framesD [OF gk.frames_symlinks p] framesD [OF gk.frames_cut(1) t] by (simp add: same_gk_def)
  moreover obtain ops where "seen_grows v ops w"
    using p by (rule logsE [OF grow.logs_populate_default_symlinks]) simp
  moreover have "paths_seen t = paths_seen w" using t by (auto simp: on_cpio_Inr_iff)
  ultimately show ?thesis using m by (fastforce simp: seen_grows_def)
qed

section \<open>The modules that init loads\<close>

definition modprobe_ok :: "conf \<Rightarrow> init_act \<Rightarrow> bool" where
  "modprobe_ok conf a \<longleftrightarrow> (\<forall>vars args. a = RunCmd vars ''modprobe'' args \<longrightarrow>
    (\<exists>net. args = ''-a'' # conf_kmod_deps conf @ net \<and> set net \<subseteq> {''virtio_net'', ''af_packet''}))"

lemma modprobe_ok_simps [simp]:
  "modprobe_ok conf (CreateDirAll d)" "modprobe_ok conf (Symlink x y)" "modprobe_ok conf (WriteFile x y)"
  "modprobe_ok conf (AppendOpen b x)" "modprobe_ok conf (AppendWrite x y)" "modprobe_ok conf (ExecSystemd e)"
  "modprobe_ok conf (SpawnShell e p args)" "modprobe_ok conf (Sleep n)" "p \<noteq> ''modprobe'' \<Longrightarrow> modprobe_ok conf (RunCmd vars p args)"
  by (simp_all add: modprobe_ok_def)

lemma extends_init_body:
  "extends (modprobe_ok conf) (init_prepare env conf n)" "extends (modprobe_ok conf) (init_run env n sd a)"
proof -
  show "extends (modprobe_ok conf) (init_prepare env conf n)"
    unfolding init_prepare_def init_mount_def kmods_load_def by (intro extends_intro; simp) (auto simp: modprobe_ok_def)
  show "extends (modprobe_ok conf) (init_run env n sd a)"
    unfolding init_run_def init_hostname_def unwrap_num_def init_net_conf_def append_mac_def append_text_def Let_def
      init_exec_systemd_def init_net_service_def init_shell_def
    by (intro extends_intro; simp)
qed

lemma init_modprobe:
  assumes "init_start env [] = (r, tr)" and "RunCmd vars ''modprobe'' args \<in> set tr"
    and "h_open (ie_host env) RAPIDO_CONF = Inr (md, f)" and "kv_conf_process f = Inr conf"
  shows "\<exists>net. args = ''-a'' # conf_kmod_deps conf @ net \<and> set net \<subseteq> {''virtio_net'', ''af_packet''}"
proof -
  have main: "extends (modprobe_ok conf) (bindE (lift_res (os (h_open (ie_host env) RAPIDO_CONF))) (\<lambda>(_, f).
      bindE (lift_res (kv_conf_process f)) k))" if "\<And>c. kv_conf_process f = Inr c \<Longrightarrow> extends (modprobe_ok conf) (k c)" for k
    using assms(3,4) that by (auto simp: extends_def bindE_def)
  have "extends (modprobe_ok conf) (init_main env)"
    unfolding init_main_def Let_def
    by (intro main extends_intro) (use assms(4) extends_init_body in auto)
  note [extends_intro] = this
  have "extends (modprobe_ok conf) (init_shutdown env)"
    by (rule extends_mono [OF init_shutdown_extends]) (auto simp: power_off_def)
  note [extends_intro] = this
  have "extends (modprobe_ok conf) (init_start env)"
    unfolding init_start_def by (intro extends_intro) (auto split: fault.splits init_end.splits intro!: extends_intro)
  then obtain z where "tr = [] @ z" "list_all (modprobe_ok conf) z" using assms(1) by (rule extendsE)
  with assms(2) show ?thesis by (auto simp: list_all_iff modprobe_ok_def)
qed

text \<open>
  C8. The tools agree on the kernel modules: when \<^verbatim>\<open>rapido-cut\<close> succeeds with a configuration
  file and the virtual machine boots with the same file as \<^verbatim>\<open>/rapido.conf\<close>, every module that
  \<^verbatim>\<open>rapido-init\<close> asks \<^verbatim>\<open>modprobe\<close> for, except the two network modules, is known to the module
  database of the run and built in, or its file was marked as gathered.
\<close>

theorem init_modules_gathered:
  assumes "cut_main fuel h dbg out_open args = (Inr n, Some (p, s))" and "steady h"
    and "host_rapido_conf_open h RAPIDO_CONF_PATH = Inr ((md, f), q)" and "kv_conf_process f = Inr conf"
    and "init_start env [] = (r, tr)" and "h_open (ie_host env) RAPIDO_CONF = Inr (md', f)"
    and "RunCmd vars ''modprobe'' (''-a'' # kmods) \<in> set tr"
  shows "\<exists>gk. cu_gk s = Some gk \<and> (\<forall>name\<in>set kmods. name \<in> {''virtio_net'', ''af_packet''}
    \<or> (\<exists>m. find_kmod (kmod_ctx gk) name = Some m
        \<and> (km_status m = Builtin \<or> components (kmod_dst gk (rel_path m)) \<in> paths_seen s)))"
proof -
  from init_modprobe [OF assms(5,7,6,4)] have k: "set kmods \<subseteq> set (conf_kmod_deps conf) \<union> {''virtio_net'', ''af_packet''}"
    by auto
  have "cut_conf h = Inr (c, cf) \<Longrightarrow> c = conf_defaults ++ conf" for c cf
    using assms(3) kv_conf_defaults [OF assms(4), of conf_defaults] by (auto simp: cut_conf_def bindR_Inr_iff)
  with assms(1) obtain w cf fests where
    "cut_body fuel h (conf_defaults ++ conf) cf (cut_start (w\<lparr>w_buf := []\<rparr>) fests) = (Inr n, s)"
    by (fastforce simp: cut_main_def split: sum.splits arg_error.splits prod.splits)
  from cut_body_kmods [OF this assms(2)] obtain gk where gk: "cu_gk s = Some gk"
    and g: "\<forall>name\<in>set (conf_kmod_deps (conf_defaults ++ conf)). \<exists>m. find_kmod (kmod_ctx gk) name = Some m
    \<and> (km_status m = Builtin \<or> components (kmod_dst gk (rel_path m)) \<in> paths_seen s)" by blast
  with k conf_kmod_deps_defaults [of conf] show ?thesis by blast
qed

end
