(* ===== verification/Cut_Elfs.thy ===== *)
theory Cut_Elfs
  imports Cut_Dirs Cut_Frame Cut_Run
begin

text \<open>
  Binaries and the libraries they need: what \<^verbatim>\<open>gather_archive_elfs\<close> looks up for an executable
  file that it archives, the libraries that its dynamic section names.
\<close>

section \<open>What an ELF file needs\<close>

fun lib_name :: "GatherEnt \<Rightarrow> bytes option" where
  "lib_name (GLib n) = Some n"
| "lib_name (GLibRunPath n paths) = Some n"
| "lib_name _ = None"

definition elf_needs :: "host \<Rightarrow> bytes \<Rightarrow> bytes set" where
  "elf_needs h content =
    (case h_elf h content of
       None \<Rightarrow> {}
     | Some f \<Rightarrow>
       (case (ev_dynamic f, ev_strs f) of
          (Some (Some dynamics), Some (Some strs)) \<Rightarrow> set (List.map_filter strs (dyn_offs DT_NEEDED dynamics))
        | _ \<Rightarrow> {}))"

definition elf_readable :: "host \<Rightarrow> bytes \<Rightarrow> bool" where
  \<comment> \<open>every needed library of the ELF file has a name in its string table\<close>
  "elf_readable h c \<longleftrightarrow>
    (\<forall>f dynamics strs. h_elf h c = Some f \<longrightarrow> ev_dynamic f = Some (Some dynamics) \<longrightarrow> ev_strs f = Some (Some strs)
      \<longrightarrow> (\<forall>off\<in>set (dyn_offs DT_NEEDED dynamics). strs off \<noteq> None))"

definition elf_intact :: "host \<Rightarrow> bool" where
  \<comment> \<open>all the files of the host are so\<close>
  "elf_intact h \<longleftrightarrow> (\<forall>p md c k. h_open h p = Inr (md, c, k) \<longrightarrow> elf_readable h c)"

lemma needed_libs_spec:
  assumes "\<forall>off\<in>set offs. strs off \<noteq> None"
  shows "\<exists>ds. needed_libs strs rp offs acc L = (Inr (acc @ ds), L \<union> set (List.map_filter strs offs))
    \<and> set (List.map_filter strs offs) - L \<subseteq> {l. \<exists>e\<in>set ds. lib_name e = Some l}"
  using assms
proof (induction offs arbitrary: acc L)
  case (Cons off offs)
  then obtain n where n: "strs off = Some n" by auto
  show ?case
  proof (cases "n \<in> L")
    case True
    with Cons.IH [of acc L] Cons.prems n show ?thesis by (auto simp: List.map_filter_simps insert_absorb)
  next
    case False
    let ?d = "if rp \<noteq> [] then GLibRunPath n rp else GLib n"
    from Cons.IH [of "acc @ [?d]" "insert n L"] Cons.prems obtain ds where
      ds: "needed_libs strs rp offs (acc @ [?d]) (insert n L)
          = (Inr ((acc @ [?d]) @ ds), insert n L \<union> set (List.map_filter strs offs))"
        "set (List.map_filter strs offs) - insert n L \<subseteq> {l. \<exists>e\<in>set ds. lib_name e = Some l}" by auto
    show ?thesis
      using ds False n by (intro exI [of _ "?d # ds"]) (auto simp: List.map_filter_simps)
  qed
qed (simp add: List.map_filter_simps)

lemma elf_deps_spec:
  assumes "elf_deps h c L = (r, L')" and "elf_readable h c"
  shows "L' = L \<union> elf_needs h c" and "elf_needs h c - L \<subseteq> {l. \<exists>ds e. r = Inr ds \<and> e \<in> set ds \<and> lib_name e = Some l}"
proof -
  have "L' = L \<union> elf_needs h c \<and> elf_needs h c - L \<subseteq> {l. \<exists>ds e. r = Inr ds \<and> e \<in> set ds \<and> lib_name e = Some l}"
  proof (cases "\<exists>f dynamics strs. h_elf h c = Some f \<and> ev_dynamic f = Some (Some dynamics) \<and> ev_strs f = Some (Some strs)")
    case True
    then obtain f dynamics strs where
      f: "h_elf h c = Some f" "ev_dynamic f = Some (Some dynamics)" "ev_strs f = Some (Some strs)" by blast
    with assms(2) have "\<forall>off\<in>set (dyn_offs DT_NEEDED dynamics). strs off \<noteq> None" unfolding elf_readable_def by blast
    from needed_libs_spec [OF this] obtain ds where
      "needed_libs strs (List.map_filter strs (dyn_offs DT_RUNPATH dynamics)) (dyn_offs DT_NEEDED dynamics) [] L
        = (Inr ds, L \<union> elf_needs h c)" "elf_needs h c - L \<subseteq> {l. \<exists>e\<in>set ds. lib_name e = Some l}"
      unfolding elf_needs_def by (fastforce simp: f)
    moreover from this assms(1) have "r = Inr ds" and "L' = L \<union> elf_needs h c" by (simp_all add: elf_deps_def f)
    ultimately show ?thesis by blast
  next
    case False
    with assms(1) show ?thesis
      by (auto simp: elf_deps_def elf_needs_def split: option.splits)
  qed
  then show "L' = L \<union> elf_needs h c"
    and "elf_needs h c - L \<subseteq> {l. \<exists>ds e. r = Inr ds \<and> e \<in> set ds \<and> lib_name e = Some l}" by blast+
qed

section \<open>One round\<close>

definition ent_dst :: "GatherEnt \<Rightarrow> Fsent \<Rightarrow> bytes" where
  "ent_dst ent got = (case ent of GNameDst _ d \<Rightarrow> d | _ \<Rightarrow> fe_path got)"

definition files_linked :: "host \<Rightarrow> archive_op list \<Rightarrow> cut \<Rightarrow> bool" where
  "files_linked h ops t \<longleftrightarrow>
    (\<forall>p amd rd. ArchiveFile p amd rd \<in> set ops \<longrightarrow> md_mode amd AND 0x49 \<noteq> 0 \<longrightarrow> elf_needs h (fst rd) \<subseteq> libs_seen t)"

lemma files_linked_append:
  "files_linked h xs s \<Longrightarrow> files_linked h ys t \<Longrightarrow> libs_seen s \<subseteq> libs_seen t \<Longrightarrow> files_linked h (xs @ ys) t"
  unfolding files_linked_def set_append by blast

definition elf_op :: "host \<Rightarrow> archive_op \<Rightarrow> bool" where
  \<comment> \<open>an entry without data, or a link or file as the host has it where some entry was found\<close>
  "elf_op h x \<longleftrightarrow>
    (case x of
       ArchivePath p amd \<Rightarrow> True
     | ArchiveSymlink p amd tgt \<Rightarrow>
         \<exists>ent got. path_stat h ent = Inr got \<and> p = ent_dst ent got \<and> h_canon h (fe_path got) = Inr tgt
     | ArchiveFile p amd rd \<Rightarrow>
         \<exists>ent got md. path_stat h ent = Inr got \<and> p = ent_dst ent got \<and> h_open h (fe_path got) = Inr (md, rd))"

definition linked_run :: "host \<Rightarrow> cut \<Rightarrow> cut \<Rightarrow> bool" where
  "linked_run h s t \<longleftrightarrow> (\<exists>ops. performs ops s t \<and> files_linked h ops t \<and> list_all (elf_op h) ops
    \<and> paths_seen t = paths_seen s \<union> op_key ` set ops)"

lemma linked_run_trans:
  assumes "linked_run h s t" and "linked_run h t u" and "libs_seen t \<subseteq> libs_seen u"
  shows "linked_run h s u"
proof -
  from assms obtain xs ys where xs: "performs xs s t" "files_linked h xs t" "list_all (elf_op h) xs"
      "paths_seen t = paths_seen s \<union> op_key ` set xs"
    and ys: "performs ys t u" "files_linked h ys u" "list_all (elf_op h) ys" "paths_seen u = paths_seen t \<union> op_key ` set ys"
    unfolding linked_run_def by blast
  have "performs (xs @ ys) s u" using xs(1) ys(1) by (rule performs_append)
  moreover have "files_linked h (xs @ ys) u" using xs(2) ys(2) assms(3) by (rule files_linked_append)
  ultimately show ?thesis unfolding linked_run_def using xs(3,4) ys(3,4) by (intro exI [of _ "xs @ ys"]) auto
qed

lemma linked_run_paths: "linked_run h s t \<Longrightarrow> paths_seen s \<subseteq> paths_seen t"
  unfolding linked_run_def by blast

definition advance :: "host \<Rightarrow> GatherEnt list \<Rightarrow> cut \<Rightarrow> cut \<Rightarrow> bool" where
  \<comment> \<open>from \<open>s\<close> to \<open>t\<close>, leaving the entries \<open>new\<close> to be gathered\<close>
  "advance h new s t \<longleftrightarrow> linked_run h s t \<and> libs_seen s \<subseteq> libs_seen t
    \<and> (\<forall>l\<in>libs_seen t - libs_seen s. \<exists>e\<in>set new. lib_name e = Some l)"

lemma linked_run_refl: "linked_run h s s"
  unfolding linked_run_def by (intro exI [of _ "[]"]) (simp add: files_linked_def)

lemma advance_refl: "advance h [] s s"
  by (simp add: advance_def linked_run_refl)

lemma advance_trans:
  assumes "advance h xs s t" and "advance h ys t u"
  shows "advance h (xs @ ys) s u"
proof -
  have "linked_run h s u" using assms linked_run_trans unfolding advance_def by blast
  moreover have "\<exists>e\<in>set (xs @ ys). lib_name e = Some l" if "l \<in> libs_seen u - libs_seen s" for l
    using that assms unfolding advance_def set_append by (cases "l \<in> libs_seen t") blast+
  ultimately show ?thesis using assms unfolding advance_def by blast
qed

text \<open>An operation whose path is marked as seen before or after it.\<close>

lemma advance_op:
  assumes "on_cpio (run_op x) u = (Inr (), v)" and "cu_cpio u = cu_cpio s" and "libs_seen u = libs_seen s"
    and "cu_cpio t = cu_cpio v" and "libs_seen t = libs_seen v" and "paths_seen t = insert (op_key x) (paths_seen s)"
    and "files_linked h [x] s" and "elf_op h x"
  shows "advance h [] s t"
proof -
  from assms have "performs [x] s t" "libs_seen t = libs_seen s"
    by (auto simp: on_cpio_def performs_def split: prod.splits)
  moreover from this assms(7) have "files_linked h [x] t" by (simp add: files_linked_def)
  ultimately show ?thesis
    using assms(6,8) unfolding advance_def linked_run_def by (intro conjI exI [of _ "[x]"]) simp_all
qed

abbreviation mark :: "bytes \<Rightarrow> cut \<Rightarrow> cut" where
  "mark p s \<equiv> s\<lparr>paths_seen := insert (components p) (paths_seen s)\<rparr>"

lemma advance_dirs_push:
  assumes "dirs_loop amd (Normal c # cs) here s = (Inr (), t)"
    and IH: "\<And>u. dirs_loop amd cs (path_join here c) u = (Inr (), t) \<Longrightarrow> advance h [] u t"
  shows "advance h [] s t"
proof (cases "seen (path_join here c) s")
  case True
  with assms(1) have "dirs_loop amd cs (path_join here c) s = (Inr (), t)"
    by (simp add: see_def seen_def bindE_def Let_def insert_absorb)
  then show ?thesis by (rule IH)
next
  case False
  let ?x = "ArchivePath (path_join here c) amd"
  from False assms(1) obtain v where v: "on_cpio (run_op ?x) (mark (path_join here c) s) = (Inr (), v)"
    and t: "dirs_loop amd cs (path_join here c) v = (Inr (), t)"
    by (auto simp: see_def bindE_def Let_def seqE_def split: prod.splits sum.splits)
  from v have "paths_seen v = insert (op_key ?x) (paths_seen s)"
    by (auto simp: on_cpio_def split: prod.splits)
  then have "advance h [] s v" using v by (intro advance_op [OF v]) (simp_all add: files_linked_def elf_op_def)
  from advance_trans [OF this IH [OF t]] show ?thesis by simp
qed

lemma advance_dirs_loop: "dirs_loop amd cs here s = (Inr (), t) \<Longrightarrow> advance h [] s t"
proof (induction amd cs here arbitrary: s rule: dirs_loop.induct)
  case (4 amd cs here)
  show ?case
  proof (cases "path_pop here")
    case (Pair q b)
    with 4 show ?thesis by (cases b) simp_all
  qed
next
  case (5 amd c cs here)
  show ?case by (rule advance_dirs_push [OF 5(3)]) (use 5 in blast)
qed (simp_all add: advance_refl)

lemma advance_dirs: "gather_archive_dirs p amd s = (Inr (), t) \<Longrightarrow> advance h [] s t"
  by (auto simp: gather_archive_dirs_def bindE_def advance_refl advance_dirs_loop split: option.splits if_splits)

lemma advance_libs:
  assumes "on_libs (elf_deps h c) s = (r, t)" and "elf_readable h c"
  shows "advance h (case r of Inr d \<Rightarrow> d | Inl _ \<Rightarrow> []) s t" and "elf_needs h c \<subseteq> libs_seen t"
proof -
  from assms(1) obtain L' where l: "elf_deps h c (libs_seen s) = (r, L')" and t: "t = s\<lparr>libs_seen := L'\<rparr>"
    by (auto simp: on_libs_def split: prod.splits)
  note d = elf_deps_spec [OF l assms(2)]
  show "elf_needs h c \<subseteq> libs_seen t" using d(1) t by simp
  have "\<exists>e\<in>set (case r of Inr d \<Rightarrow> d | Inl _ \<Rightarrow> []). lib_name e = Some n" if "n \<in> L' - libs_seen s" for n
  proof -
    from that d obtain ds e where "r = Inr ds" "e \<in> set ds" "lib_name e = Some n" by blast
    then show ?thesis by auto
  qed
  then show "advance h (case r of Inr d \<Rightarrow> d | Inl _ \<Rightarrow> []) s t"
    unfolding advance_def linked_run_def using d(1) t by (auto simp: files_linked_def intro!: exI [of _ "[]"])
qed

lemma advance_weaken: "advance h xs s t \<Longrightarrow> set xs \<subseteq> set ys \<Longrightarrow> advance h ys s t"
  unfolding advance_def by blast

lemma advance_plain:
  "on_cpio (archive_path p amd) s = (Inr (), t) \<Longrightarrow> advance h new s (mark p t)"
  "on_cpio (archive_symlink p amd tgt) s = (Inr (), t) \<Longrightarrow> elf_op h (ArchiveSymlink p amd tgt) \<Longrightarrow>
    advance h new s (mark p t)"
  using advance_op [of "ArchivePath p amd" s t s "mark p t" h] advance_op [of "ArchiveSymlink p amd tgt" s t s "mark p t" h]
  by (auto simp: files_linked_def on_cpio_def elf_op_def [of h "ArchivePath p amd"] split: prod.splits
      intro: advance_weaken [of h "[]"])

lemma advance_file:
  assumes "bindE (lift_res (os (h_open h src))) (\<lambda>(_, f).
       bindE (if md_mode amd AND 0x49 \<noteq> 0 \<or> is_lib_ent ent
              then tryE (on_libs (elf_deps h (fst f))) (\<lambda>r. case r of Inr d \<Rightarrow> ret d | Inl _ \<Rightarrow> ret [])
              else ret []) (\<lambda>deps.
       seqE (on_cpio (archive_file dst amd f)) (ret (Some deps)))) s = (Inr p, t)"
    and "elf_intact h" and "path_stat h ent = Inr got" and "src = fe_path got" and "dst = ent_dst ent got"
  shows "\<exists>new. p = Some new \<and> advance h new s (mark dst t)"
proof -
  from assms(1) obtain md f deps u where
    u: "(if md_mode amd AND 0x49 \<noteq> 0 \<or> is_lib_ent ent
         then tryE (on_libs (elf_deps h (fst f))) (\<lambda>r. case r of Inr d \<Rightarrow> ret d | Inl _ \<Rightarrow> ret [])
         else ret []) s = (Inr deps, u)"
    and t: "on_cpio (run_op (ArchiveFile dst amd f)) u = (Inr (), t)" and p: "p = Some deps"
    and o: "h_open h src = Inr (md, f)"
    by (cases "h_open h src") (auto simp: bindE_Inr_iff seqE_Inr_iff)
  have rd: "elf_readable h (fst f)" using assms(2) o unfolding elf_intact_def by (metis prod.collapse)
  have op: "elf_op h (ArchiveFile dst amd f)" using assms(3-5) o by (auto simp: elf_op_def)
  have "advance h deps s u \<and> files_linked h [ArchiveFile dst amd f] u"
  proof (cases "md_mode amd AND 0x49 \<noteq> 0 \<or> is_lib_ent ent")
    case True
    then obtain r where r: "on_libs (elf_deps h (fst f)) s = (r, u)" and d: "deps = (case r of Inr d \<Rightarrow> d | Inl _ \<Rightarrow> [])"
      using u by (auto simp: tryE_def split: prod.splits sum.splits)
    from advance_libs [OF r rd] show ?thesis by (simp add: d files_linked_def)
  next
    case False
    with u have "u = s" "deps = []" by simp_all
    with False show ?thesis by (simp add: advance_refl files_linked_def)
  qed
  moreover have "paths_seen t = paths_seen u" using t by (auto simp: on_cpio_def split: prod.splits)
  ultimately have du: "advance h deps s u" and "advance h [] u (mark dst t)"
    using advance_op [OF t, of u "mark dst t" h] op by simp_all
  from advance_trans [OF this] p show ?thesis by simp
qed

lemma advance_archive_elf:
  assumes "archive_elf h ent src dst amd s = (Inr p, t)" and "elf_intact h"
    and "path_stat h ent = Inr got" and "src = fe_path got" and "dst = ent_dst ent got"
  shows "p = None \<and> t = s \<and> md_mode amd AND S_IFMT = S_IFLNK \<and> (\<exists>e. h_canon h src = Inl e)
    \<or> (\<exists>new. p = Some new \<and> advance h new s (mark dst t))"
proof -
  let ?fmt = "md_mode amd AND S_IFMT"
  consider "?fmt = S_IFLNK" | "?fmt \<noteq> S_IFLNK" "?fmt = S_IFREG \<and> md_len amd > 0" | "?fmt \<noteq> S_IFLNK" "\<not> (?fmt = S_IFREG \<and> md_len amd > 0)" by blast
  then show ?thesis
  proof cases
    case 1
    have "elf_op h (ArchiveSymlink dst amd tgt)" if "h_canon h src = Inr tgt" for tgt
      using assms(3-5) that by (auto simp: elf_op_def)
    with 1 show ?thesis using assms(1)
      by (cases ent; cases "h_canon h src")
        (auto simp: archive_elf_def Let_def seqE_Inr_iff advance_plain split: if_splits)
  next
    case 2
    with assms(1) have "bindE (lift_res (os (h_open h src))) (\<lambda>(_, f).
       bindE (if md_mode amd AND 0x49 \<noteq> 0 \<or> is_lib_ent ent
              then tryE (on_libs (elf_deps h (fst f))) (\<lambda>r. case r of Inr d \<Rightarrow> ret d | Inl _ \<Rightarrow> ret [])
              else ret []) (\<lambda>deps.
       seqE (on_cpio (archive_file dst amd f)) (ret (Some deps)))) s = (Inr p, t)"
      unfolding archive_elf_def Let_def by (simp cong: if_cong)
    from advance_file [OF this assms(2-5)] show ?thesis by blast
  next
    case 3
    then show ?thesis using assms(1)
      by (auto simp: archive_elf_def Let_def seqE_Inr_iff bindE_Inr_iff advance_plain split: if_splits)
  qed
qed

section \<open>The loop\<close>

text \<open>
  An entry is \<open>gathered\<close> when it was found on the host and its destination is marked as seen: it is
  archived, or it was filtered or archived before. A dangling link counts too: it is found, but
  the code archives nothing for it and does not mark it.
\<close>

definition gathered :: "host \<Rightarrow> GatherEnt \<Rightarrow> cut \<Rightarrow> bool" where
  "gathered h ent t \<longleftrightarrow>
    (\<exists>got. path_stat h ent = Inr got \<and>
      (seen (ent_dst ent got) t \<or> st_mode (fe_md got) AND S_IFMT = S_IFLNK \<and> (\<exists>e. h_canon h (fe_path got) = Inl e)))"

definition missing_try :: "host \<Rightarrow> GatherEnt \<Rightarrow> bool" where
  \<comment> \<open>an entry of \<^verbatim>\<open>try-bin\<close> that is not there, which is passed over\<close>
  "missing_try h ent \<longleftrightarrow> (\<exists>n e. ent = GNameTry n \<and> path_stat h ent = Inl e \<and> err_kind e \<noteq> None)"

lemma gathered_mono: "gathered h ent s \<Longrightarrow> paths_seen s \<subseteq> paths_seen t \<Longrightarrow> gathered h ent t"
  by (auto simp: gathered_def seen_def)

lemma archive_md_mode: "archive_md md s = (Inr amd, t) \<Longrightarrow> md_mode amd = st_mode md \<and> t = s"
  by (auto simp: archive_md_def bindE_Inr_iff ArchiveMd_from_def bindR_def Let_def
      split: sum.splits option.splits prod.splits if_splits)

text \<open>A round of an entry that is found: nothing when it was seen, or one entry archived.\<close>

lemma elf_step_found:
  assumes "elf_step h ent s = (Inr new, t)" and "path_stat h ent = Inr got"
  obtains (again) "seen (ent_dst ent got) s" and "new = []" and "t = s"
  | (first) amd u v pushed where "\<not> seen (ent_dst ent got) s" and "md_mode amd = st_mode (fe_md got)"
      and "gather_archive_dirs (parent (ent_dst ent got)) amd s = (Inr (), u)"
      and "archive_elf h ent (fe_path got) (ent_dst ent got) amd u = (Inr pushed, v)"
      and "case pushed of None \<Rightarrow> new = [] \<and> t = v | Some ents \<Rightarrow> new = ents \<and> t = mark (ent_dst ent got) v"
proof -
  let ?dst = "ent_dst ent got"
  have step: "bindE (getE (seen ?dst)) (\<lambda>b.
       if b then ret [] else
         bindE (archive_md (fe_md got)) (\<lambda>amd.
         seqE (gather_archive_dirs (parent ?dst) amd) (
         bindE (archive_elf h ent (fe_path got) ?dst amd) (\<lambda>pushed.
         case pushed of None \<Rightarrow> ret [] | Some ents \<Rightarrow> bindE (see ?dst) (\<lambda>_. ret ents))))) s = (Inr new, t)"
    using assms by (simp add: elf_step_def ent_dst_def Let_def split: if_splits)
  show thesis
  proof (cases "seen ?dst s")
    case True
    with step show thesis by (intro again) (simp_all add: bindE_def)
  next
    case False
    with step obtain amd s' u v pushed where amd: "archive_md (fe_md got) s = (Inr amd, s')"
      and u: "gather_archive_dirs (parent ?dst) amd s' = (Inr (), u)"
      and v: "archive_elf h ent (fe_path got) ?dst amd u = (Inr pushed, v)"
      and t: "(case pushed of None \<Rightarrow> ret [] | Some ents \<Rightarrow> bindE (see ?dst) (\<lambda>_. ret ents)) v = (Inr new, t)"
      by (auto simp: bindE_Inr_iff seqE_Inr_iff)
    from archive_md_mode [OF amd] u v t show thesis
      by (intro first [OF False, of amd u pushed v]) (auto simp: see_def bindE_def split: option.splits)
  qed
qed

lemma elf_step_advance:
  assumes "elf_step h ent s = (Inr new, t)" and "elf_intact h"
  shows "advance h new s t" and "gathered h ent t \<or> missing_try h ent"
proof -
  have "advance h new s t \<and> (gathered h ent t \<or> missing_try h ent)"
  proof (cases "path_stat h ent")
    case (Inl e)
    with assms(1) show ?thesis by (cases ent) (auto simp: elf_step_def advance_refl missing_try_def split: if_splits)
  next
    case (Inr got)
    let ?dst = "ent_dst ent got"
    from assms(1) Inr show ?thesis
    proof (cases rule: elf_step_found)
      case again
      with Inr show ?thesis by (auto simp: gathered_def advance_refl)
    next
      case (first amd u v pushed)
      note su = advance_dirs [OF first(3), of h]
      from advance_archive_elf [OF first(4) assms(2) Inr refl refl] show ?thesis
      proof
        assume p: "pushed = None \<and> v = u \<and> md_mode amd AND S_IFMT = S_IFLNK \<and> (\<exists>e. h_canon h (fe_path got) = Inl e)"
        with first su Inr show ?thesis by (auto simp: gathered_def)
      next
        assume "\<exists>ents. pushed = Some ents \<and> advance h ents u (mark ?dst v)"
        with first(5) have ut: "advance h new u t" and tv: "t = mark ?dst v" by auto
        from advance_trans [OF su ut] have "advance h new s t" by simp
        moreover have "gathered h ent t" using Inr tv by (auto simp: gathered_def seen_def)
        ultimately show ?thesis by blast
      qed
    qed
  qed
  then show "advance h new s t" and "gathered h ent t \<or> missing_try h ent" by blast+
qed

definition libs_found :: "host \<Rightarrow> cut \<Rightarrow> bool" where
  \<comment> \<open>an invariant of the set of libraries that are not looked for again: each of them was gathered.
      It says nothing of a library that was never looked for\<close>
  "libs_found h s \<longleftrightarrow> (\<forall>l\<in>libs_seen s. \<exists>ent. lib_name ent = Some l \<and> gathered h ent s)"

lemma gather_elfs_loop_spec:
  assumes "gather_elfs_loop n h work s = (Inr (), t)" and "elf_intact h"
  shows "linked_run h s t \<and> libs_seen s \<subseteq> libs_seen t
    \<and> (\<forall>ent\<in>set work. gathered h ent t \<or> missing_try h ent)
    \<and> (\<forall>l\<in>libs_seen t - libs_seen s. \<exists>ent. lib_name ent = Some l \<and> gathered h ent t)"
  using assms(1)
proof (induction n arbitrary: work s)
  case (Suc n)
  show ?case
  proof (cases work)
    case Nil
    with Suc.prems show ?thesis by (simp add: linked_run_refl)
  next
    case (Cons ent elfs)
    with Suc.prems obtain new u where u: "elf_step h ent s = (Inr new, u)"
      and t: "gather_elfs_loop n h (rev new @ elfs) u = (Inr (), t)"
      by (auto simp: bindE_Inr_iff)
    note su = elf_step_advance [OF u assms(2)] and ut = Suc.IH [OF t]
    have "linked_run h s t" "libs_seen s \<subseteq> libs_seen t"
      using su(1) ut linked_run_trans unfolding advance_def by blast+
    moreover have "gathered h e t \<or> missing_try h e" if "e \<in> set work" for e
      using that Cons ut su(2) gathered_mono [of h ent u t] linked_run_paths [of h u t] by auto
    moreover have "\<exists>e. lib_name e = Some l \<and> gathered h e t" if l: "l \<in> libs_seen t - libs_seen s" for l
    proof (cases "l \<in> libs_seen u")
      case True
      with l su(1) obtain e where "e \<in> set new" and e: "lib_name e = Some l" unfolding advance_def by blast
      moreover from e have "\<not> missing_try h e" by (auto simp: missing_try_def)
      ultimately show ?thesis using ut by auto
    qed (use l ut in blast)
    ultimately show ?thesis by blast
  qed
qed simp

lemma libs_found_elfs:
  assumes "gather_archive_elfs n h elfs s = (Inr (), t)" and "libs_found h s" and "elf_intact h"
  shows "linked_run h s t" and "libs_found h t"
    and "\<forall>ent\<in>set elfs. gathered h ent t \<or> missing_try h ent"
proof -
  note r = gather_elfs_loop_spec [OF assms(1) [unfolded gather_archive_elfs_def] assms(3)]
  show "linked_run h s t" and "\<forall>ent\<in>set elfs. gathered h ent t \<or> missing_try h ent"
    using r by simp_all
  have "\<exists>e. lib_name e = Some l \<and> gathered h e t" if "l \<in> libs_seen t" for l
  proof (cases "l \<in> libs_seen s")
    case True
    with assms(2) obtain e where "lib_name e = Some l" "gathered h e s" unfolding libs_found_def by blast
    with gathered_mono [of h e s t] linked_run_paths [of h s t] r show ?thesis by blast
  qed (use that r in blast)
  then show "libs_found h t" by (simp add: libs_found_def)
qed

lemma elfs_linked:
  assumes "gather_archive_elfs fuel h elfs s = (Inr (), t)" and "libs_found h s" and "elf_intact h"
  shows "\<exists>ops. performs ops s t \<and> paths_seen t = paths_seen s \<union> op_key ` set ops \<and> libs_found h t
    \<and> list_all (elf_op h) ops
    \<and> (\<forall>ent\<in>set elfs. gathered h ent t \<or> missing_try h ent)
    \<and> (\<forall>p amd rd l. ArchiveFile p amd rd \<in> set ops \<longrightarrow> md_mode amd AND 0x49 \<noteq> 0 \<longrightarrow> l \<in> elf_needs h (fst rd)
        \<longrightarrow> (\<exists>ent. lib_name ent = Some l \<and> gathered h ent t))"
proof -
  note r = libs_found_elfs [OF assms]
  from r(1) obtain ops where ops: "performs ops s t" "files_linked h ops t" "list_all (elf_op h) ops"
    "paths_seen t = paths_seen s \<union> op_key ` set ops"
    unfolding linked_run_def by blast
  moreover have "\<exists>ent. lib_name ent = Some l \<and> gathered h ent t"
    if "ArchiveFile p amd rd \<in> set ops" "md_mode amd AND 0x49 \<noteq> 0" "l \<in> elf_needs h (fst rd)" for p amd rd l
    using that ops(2) r(2) unfolding files_linked_def libs_found_def by blast
  ultimately show ?thesis using r(2,3) by (intro exI [of _ ops] conjI) blast+
qed

text \<open>Names that cannot be read, and names that are not new.\<close>

lemma needed_libs_bad:
  assumes "\<forall>a\<in>set as. strs a \<noteq> None" and "strs b = None"
  shows "needed_libs strs rp (as @ b # cs) acc L = (err InvalidData, L \<union> set (List.map_filter strs as))"
  using assms by (induction as arbitrary: acc L) (auto simp: List.map_filter_simps insert_absorb)

lemma needed_libs_none:
  "set (List.map_filter strs offs) \<subseteq> L \<Longrightarrow> fst (needed_libs strs rp offs acc L) \<in> {Inr acc, err InvalidData}"
  by (induction offs) (auto simp: List.map_filter_simps split: option.splits)

lemma elf_deps_none:
  assumes "elf_needs h c \<subseteq> L"
  shows "(case fst (elf_deps h c L) of Inr d \<Rightarrow> d | Inl _ \<Rightarrow> []) = []"
proof (cases "\<exists>f dynamics strs. h_elf h c = Some f \<and> ev_dynamic f = Some (Some dynamics) \<and> ev_strs f = Some (Some strs)")
  case True
  then obtain f dynamics strs where
    f: "h_elf h c = Some f" "ev_dynamic f = Some (Some dynamics)" "ev_strs f = Some (Some strs)" by blast
  with assms have "set (List.map_filter strs (dyn_offs DT_NEEDED dynamics)) \<subseteq> L" by (simp add: elf_needs_def)
  from needed_libs_none [OF this, of "List.map_filter strs (dyn_offs DT_RUNPATH dynamics)" "[]"] f show ?thesis
    by (auto simp: elf_deps_def)
next
  case False
  then show ?thesis by (auto simp: elf_deps_def split: option.splits)
qed

lemma archive_elf_file:
  assumes "archive_elf h ent src dst amd s = (Inr pushed, t)" and "h_open h src = Inr (md, c, k)"
    and "md_mode amd AND S_IFMT = S_IFREG" and "0 < md_len amd"
  shows "if md_mode amd AND 0x49 \<noteq> 0 \<or> is_lib_ent ent
    then libs_seen t = snd (elf_deps h c (libs_seen s))
      \<and> pushed = Some (case fst (elf_deps h c (libs_seen s)) of Inr d \<Rightarrow> d | Inl _ \<Rightarrow> [])
    else pushed = Some []"
proof -
  have "S_IFREG \<noteq> S_IFLNK" by (simp add: S_IF_defs)
  with assms show ?thesis
    by (cases "elf_deps h c (libs_seen s)")
      (auto simp: archive_elf_def Let_def bindE_Inr_iff seqE_Inr_iff tryE_def on_libs_def on_cpio_def
        split: if_splits sum.splits prod.splits)
qed


text \<open>
  C33. When reading the names of the needed libraries of a file fails part-way, the names before the bad
  one stay marked as seen although their entries are dropped: the bad file is archived and
  pushes no entry at all, and neither does any file that is archived later and needs no more than
  these libraries and the ones seen before. So these libraries are never looked for.
\<close>

theorem elf_deps_forgets:
  assumes "h_elf h bad = Some f" and "ev_dynamic f = Some (Some dynamics)" and "ev_strs f = Some (Some strs)"
    and "dyn_offs DT_NEEDED dynamics = as @ b # cs" and "\<forall>a\<in>set as. strs a \<noteq> None" and "strs b = None"
    and "h_open h src = Inr (md, bad, k)" and "md_mode amd AND S_IFMT = S_IFREG" and "0 < md_len amd"
    and "md_mode amd AND 0x49 \<noteq> 0 \<or> is_lib_ent ent"
    and "archive_elf h ent src dst amd s = (Inr pushed, t)"
    and "elf_needs h good \<subseteq> libs_seen s \<union> set (List.map_filter strs as)" and "libs_seen t \<subseteq> libs_seen u"
    and "h_open h src' = Inr (md', good, k')" and "md_mode amd' AND S_IFMT = S_IFREG" and "0 < md_len amd'"
    and "archive_elf h ent' src' dst' amd' u = (Inr pushed', v)"
  shows "libs_seen t = libs_seen s \<union> set (List.map_filter strs as) \<and> pushed = Some [] \<and> pushed' = Some []"
proof -
  have bad: "elf_deps h bad (libs_seen s) = (err InvalidData, libs_seen s \<union> set (List.map_filter strs as))"
    using assms(1-4,6) needed_libs_bad [OF assms(5)] by (simp add: elf_deps_def)
  have "libs_seen t = libs_seen s \<union> set (List.map_filter strs as) \<and> pushed = Some []"
    using archive_elf_file [OF assms(11,7-9)] assms(10) bad by simp
  moreover have "pushed' = Some []"
  proof -
    have "elf_needs h good \<subseteq> libs_seen u" using assms(12,13) calculation by blast
    from archive_elf_file [OF assms(17,14-16)] elf_deps_none [OF this] show ?thesis by (simp split: if_splits)
  qed
  ultimately show ?thesis by blast
qed

section \<open>A whole run\<close>

definition same_libs :: "cut \<Rightarrow> cut \<Rightarrow> bool" where
  \<comment> \<open>libraries stay as they are and no path is forgotten\<close>
  "same_libs s t \<longleftrightarrow> libs_seen t = libs_seen s \<and> paths_seen s \<subseteq> paths_seen t"

interpretation libs: cut_frame same_libs
  by unfold_locales (auto simp: same_libs_def)

lemma frame_state [frame_intro]:
  "frames same_libs (modifyE (\<lambda>s. s\<lparr>cu_fests := f s\<rparr>))" "frames same_libs (modifyE (\<lambda>s. s\<lparr>autorun_idx := i s\<rparr>))"
  "frames same_libs (modifyE (\<lambda>s. s\<lparr>cu_gk := g s\<rparr>))" "frames same_libs manifest_read"
  by (rule framesI, auto simp: same_libs_def manifest_read_def split: prod.splits list.splits sum.splits)+

lemma frame_kmods [frame_intro]: "frames same_libs (gather_archive_kmods h conf kmods ignore)"
  unfolding gather_archive_kmods_def ensure_gk_def by (intro frame_intro)

lemma frame_data_step [frame_intro]: "frames same_libs (data_step h item)"
  unfolding data_step_def archive_data_def Let_def by (intro frame_intro)

lemma frame_data [frame_intro]: "frames same_libs (gather_archive_data n h items)"
proof -
  have "frames same_libs (gather_data_loop n h items)" for n items
    by (induction n h items rule: gather_data_loop.induct; simp only: gather_data_loop.simps; intro frame_intro; simp)
  then show ?thesis by (simp add: gather_archive_data_def)
qed

lemma frame_directives [frame_intro]:
  "frames same_libs (manifest_dir h conf p)" "frames same_libs (manifest_slink h conf p q)" "frames same_libs (manifest_include h conf p)"
  "frames same_libs (manifest_file h conf p q)" "frames same_libs (manifest_autoruns h conf ps)" "frames same_libs (manifest_tree n h conf p q)" "frames same_libs (see_quietly d)"
  unfolding manifest_dir_def manifest_slink_def manifest_include_def manifest_file_def manifest_autoruns_def
    manifest_autorun_def manifest_tree_def see_quietly_def
  by (intro frame_intro)+

lemma frame_run [frame_intro]:
  "frames same_libs (archive_conf cf)" "frames same_libs (archive_rc h)"
  unfolding archive_conf_def archive_rc_def
  by (intro frame_intro)+

lemma libs_found_frame: "frames same_libs m \<Longrightarrow> m s = (r, t) \<Longrightarrow> libs_found h s \<Longrightarrow> libs_found h t"
  unfolding libs_found_def using framesD [of same_libs m s r t] gathered_mono [of h _ s t] by (metis same_libs_def)

lemma libs_found_directive:
  assumes "snd (directive n h conf etype ws) s = (Inr (), t)" and "libs_found h s" and "elf_intact h"
  shows "libs_found h t"
proof (cases "etype = ''bin'' \<or> etype = ''try-bin''")
  case True
  with assms(1) obtain elfs where "gather_archive_elfs n h elfs s = (Inr (), t)"
    by (auto simp: directive_def bindE_Inr_iff)
  from libs_found_elfs(2) [OF this assms(2,3)] show ?thesis .
next
  case False
  then have "etype \<noteq> ''bin''" "etype \<noteq> ''try-bin''" by simp_all
  then have "frames same_libs (snd (directive n h conf etype ws))"
    unfolding directive_def by (simp only: if_False snd_conv if_distrib [of snd] cong: if_cong) (intro frame_intro)
  then show ?thesis using assms(1,2) by (rule libs_found_frame)
qed

lemma libs_found_line:
  assumes "manifest_parse_one n h conf line s = (Inr (), t)" and "libs_found h s" and "elf_intact h"
  shows "libs_found h t"
proof -
  have "s = t \<or> (\<exists>etype ws. snd (directive n h conf etype ws) s = (Inr (), t))"
    using assms(1) by (auto simp: manifest_parse_one_def seqE_Inr_iff split: list.splits if_splits prod.splits) (metis snd_conv)+
  then show ?thesis using assms(2,3) libs_found_directive by blast
qed

lemma libs_found_manifest:
  assumes "manifest_loop k n h conf s = (Inr (), t)" and "libs_found h s" and "elf_intact h"
  shows "libs_found h t"
  using assms(1,2)
proof (induction k arbitrary: s)
  case (Suc k)
  show ?case
  proof (cases "cu_fests s = []")
    case False
    with Suc.prems(1) obtain l u where l: "manifest_read s = (Inr l, u)" and
      u: "(case l of None \<Rightarrow> manifest_loop k n h conf
        | Some line \<Rightarrow> seqE (manifest_parse_one n h conf line) (manifest_loop k n h conf)) u = (Inr (), t)"
      by (auto simp: bindE_Inr_iff)
    from frame_state(4) l Suc.prems(2) have "libs_found h u" by (rule libs_found_frame)
    then show ?thesis
      using u Suc.IH libs_found_line [OF _ _ assms(3)] by (cases l) (auto simp: seqE_Inr_iff)
  qed (use Suc.prems in \<open>simp add: bindE_def\<close>)
qed simp

lemma run_prefix_performs:
  assumes "archive_conf cf s = (Inr (), s1)" and "manifest_parse fuel h conf s1 = (Inr (), s2)"
    and "archive_rc h s2 = (Inr (), s3)" and "steady h"
  shows "\<exists>ops. performs ops s s3"
proof -
  from archive_conf_performs [OF assms(1)] obtain x where x: "performs [x] s s1" by blast
  from grow.logs_manifest_parse [OF assms(4)] assms(2) obtain xs where xs: "performs xs s1 s2" by (rule logsE) simp
  from archive_rc_performs [OF assms(3)] obtain y where y: "performs [y] s2 s3" by blast
  from performs_append [OF x performs_append [OF xs y]] show ?thesis by blast
qed

lemma libs_found_run:
  assumes "archive_conf cf s = (Inr (), s1)" and "manifest_parse fuel h conf s1 = (Inr (), s2)"
    and "archive_rc h s2 = (Inr (), s3)" and "libs_found h s" and "elf_intact h"
  shows "libs_found h s3"
proof -
  from frame_run(1) assms(1,4) have "libs_found h s1" by (rule libs_found_frame)
  then have "libs_found h (s1\<lparr>autorun_idx := 0\<rparr>)" by (simp add: libs_found_def gathered_def seen_def)
  moreover have "manifest_loop fuel fuel h conf (s1\<lparr>autorun_idx := 0\<rparr>) = (Inr (), s2)"
    using assms(2) by (simp add: manifest_parse_def seqE_def bindE_def)
  ultimately have "libs_found h s2" using assms(5) libs_found_manifest by blast
  with frame_run(2) assms(3) show ?thesis by (rule libs_found_frame)
qed


end
