(* ===== verification/Cut_Elfs_End.thy ===== *)
theory Cut_Elfs_End
  imports Cut_Elfs Cut_Data
begin

text \<open>
  The work list of \<^verbatim>\<open>gather_archive_elfs\<close> is empty after finitely many rounds when finitely many
  entries can be pushed: an entry pushes others only in the round that marks its destination.
\<close>

section \<open>Paths are not forgotten\<close>

definition more_paths :: "cut \<Rightarrow> cut \<Rightarrow> bool" where
  "more_paths s t \<longleftrightarrow> paths_seen s \<subseteq> paths_seen t"

interpretation paths: cut_frame more_paths
  by unfold_locales (auto simp: more_paths_def)

lemma more_paths_libs [frame_intro]: "frames more_paths (on_libs m)"
  by (rule framesI) (simp add: on_libs_def more_paths_def split: prod.splits)

lemma more_paths_archive_elf [frame_intro]: "frames more_paths (archive_elf h ent src dst amd)"
  unfolding archive_elf_def Let_def
  by (cases ent; simp only: GatherEnt.case; intro frame_intro)

lemma more_paths_elf_step: "frames more_paths (elf_step h ent)"
  unfolding elf_step_def Let_def
  by (cases ent; simp only: GatherEnt.case; intro frame_intro)

section \<open>What an entry can push\<close>

definition elf_libs :: "host \<Rightarrow> bytes \<Rightarrow> GatherEnt set" where
  "elf_libs h content = {e. \<exists>L ds L'. elf_deps h content L = (Inr ds, L') \<and> e \<in> set ds}"

definition elf_pushes :: "host \<Rightarrow> GatherEnt \<Rightarrow> GatherEnt set" where
  "elf_pushes h ent =
    (case path_stat h ent of
       Inl _ \<Rightarrow> {}
     | Inr got \<Rightarrow>
       (let src = fe_path got; fmt = st_mode (fe_md got) AND S_IFMT
        in if fmt = S_IFLNK then (case h_canon h src of Inl _ \<Rightarrow> {} | Inr tgt \<Rightarrow> {GLib tgt, GName tgt})
           else if fmt = S_IFREG then (case h_open h src of Inl _ \<Rightarrow> {} | Inr (_, f) \<Rightarrow> elf_libs h (fst f))
           else if fmt = S_IFDIR then
             (case read_dir h src of Inl _ \<Rightarrow> {} | Inr names \<Rightarrow> (\<lambda>n. GPath (path_join src n)) ` set names)
           else {}))"

definition settled :: "host \<Rightarrow> cut \<Rightarrow> GatherEnt \<Rightarrow> bool" where
  "settled h s ent \<longleftrightarrow> (\<forall>got. path_stat h ent = Inr got \<longrightarrow> seen (ent_dst ent got) s)"

lemma settled_mono: "settled h s ent \<Longrightarrow> more_paths s t \<Longrightarrow> settled h t ent"
  by (auto simp: settled_def seen_def more_paths_def)

lemma archive_elf_pushes:
  assumes "archive_elf h ent (fe_path got) dst amd s = (Inr (Some new), t)" and "path_stat h ent = Inr got"
    and "md_mode amd = st_mode (fe_md got)"
  shows "set new \<subseteq> elf_pushes h ent"
proof -
  let ?fmt = "md_mode amd AND S_IFMT"
  consider "?fmt = S_IFLNK" | "?fmt = S_IFREG" "?fmt \<noteq> S_IFLNK" | "?fmt = S_IFDIR" "?fmt \<noteq> S_IFLNK" "?fmt \<noteq> S_IFREG"
    | "?fmt \<noteq> S_IFLNK" "?fmt \<noteq> S_IFREG" "?fmt \<noteq> S_IFDIR" by blast
  then show ?thesis
  proof cases
    case 1
    with assms show ?thesis
      by (cases ent; cases "h_canon h (fe_path got)") (auto simp: archive_elf_def elf_pushes_def Let_def seqE_Inr_iff split: if_splits)
  next
    case 2
    have d: "S_IFREG \<noteq> S_IFDIR" by (simp add: S_IF_defs)
    have l: "tryE (on_libs (elf_deps h c)) (\<lambda>r. case r of Inr d \<Rightarrow> ret d | Inl _ \<Rightarrow> ret []) u = (Inr ds, v) \<Longrightarrow> x \<in> set ds \<Longrightarrow> x \<in> elf_libs h c"
      for c u ds v x
      by (auto simp: tryE_def on_libs_def elf_libs_def split: prod.splits sum.splits)
    from 2 assms d show ?thesis
      by (auto simp: archive_elf_def elf_pushes_def Let_def seqE_Inr_iff bindE_Inr_iff split: if_splits sum.splits dest: l)
  next
    case 3
    with assms show ?thesis
      by (auto simp: archive_elf_def elf_pushes_def Let_def seqE_Inr_iff bindE_Inr_iff)
  next
    case 4
    with assms show ?thesis by (auto simp: archive_elf_def Let_def seqE_Inr_iff)
  qed
qed

lemma elf_step_pushes:
  assumes "elf_step h ent s = (Inr new, t)"
  shows "new = [] \<or> set new \<subseteq> elf_pushes h ent \<and> \<not> settled h s ent \<and> settled h t ent"
proof (cases "path_stat h ent")
  case (Inl e)
  with assms show ?thesis by (cases ent) (auto simp: elf_step_def split: if_splits)
next
  case (Inr got)
  from assms this show ?thesis
  proof (cases rule: elf_step_found)
    case (first amd u v pushed)
    show ?thesis
    proof (cases pushed)
      case (Some ents)
      with first(5) have "new = ents" and "seen (ent_dst ent got) t" by (simp_all add: seen_def)
      with first Some archive_elf_pushes [OF _ Inr first(2)] Inr show ?thesis by (auto simp: settled_def)
    qed (use first(5) in simp)
  qed blast
qed

section \<open>The loop ends\<close>

lemma path_stat_in_time: "path_stat h ent = Inl e \<Longrightarrow> in_time e"
  by (cases ent) (auto simp: path_stat_def stat_name_def bindR_def os_def split: if_splits sum.splits option.splits)

lemma query_in_time: "os z = Inl e \<Longrightarrow> in_time e" "read_dir h p = Inl e \<Longrightarrow> in_time e"
  using throwsD [OF cut_steps_in_time(3), of z s e s] throwsD [OF read_dir_in_time, of h p s e s] by simp_all

lemma elf_deps_tried_in_time [throws_intro]:
  "throws in_time (tryE m (\<lambda>r. case r of Inr d \<Rightarrow> ret d | Inl _ \<Rightarrow> ret []))"
  by (auto simp: throws_def tryE_def split: prod.splits sum.splits)

lemma throws_ent_case [throws_intro]:
  "throws F m \<Longrightarrow> throws F n \<Longrightarrow> throws F (case ent of GNameDst _ _ \<Rightarrow> m | _ \<Rightarrow> n)"
  by (cases ent) simp_all

lemma archive_elf_in_time [throws_intro]: "throws in_time (archive_elf h ent src dst amd)"
  unfolding archive_elf_def Let_def
  by (intro throws_intro; (erule query_in_time | simp))

lemma elf_step_in_time: "throws in_time (elf_step h ent)"
  unfolding elf_step_def Let_def
  by (cases ent; simp only: GatherEnt.case; intro throws_intro; (erule path_stat_in_time | simp))

definition unsettled :: "host \<Rightarrow> GatherEnt set \<Rightarrow> cut \<Rightarrow> nat" where
  "unsettled h E s = card {e \<in> E. \<not> settled h s e}"

lemma unsettled_less:
  assumes "finite E" and "more_paths s t" and "e \<in> E" and "\<not> settled h s e" and "settled h t e"
  shows "unsettled h E t < unsettled h E s"
  unfolding unsettled_def
  by (rule psubset_card_mono) (use assms settled_mono in \<open>auto\<close>)

lemma unsettled_mono: "finite E \<Longrightarrow> more_paths s t \<Longrightarrow> unsettled h E t \<le> unsettled h E s"
  unfolding unsettled_def by (rule card_mono) (auto dest: settled_mono)

lemma gather_elfs_loop_ends:
  assumes "finite E" and "\<forall>e\<in>E. elf_pushes h e \<subseteq> E" and "set todo \<subseteq> E"
  shows "\<exists>N. \<forall>n\<ge>N. fst (gather_elfs_loop n h todo s) \<noteq> Inl OutOfFuel"
  using assms(3)
proof (induction "(s, todo)" arbitrary: s todo
    rule: wf_induct_rule [OF wf_measures [of "[\<lambda>(s, w). unsettled h E s, \<lambda>(s, w). length w]"]])
  case less: 1
  show ?case
  proof (cases todo)
    case Nil
    have "fst (gather_elfs_loop n h [] s) \<noteq> Inl OutOfFuel" if "n \<ge> 1" for n using that by (cases n) simp_all
    with Nil show ?thesis by blast
  next
    case (Cons ent rest)
    show ?thesis
    proof (cases "elf_step h ent s")
      case (Pair r t)
      have again: "\<exists>N. \<forall>n\<ge>N. fst (gather_elfs_loop n h (rev new @ rest) t) \<noteq> Inl OutOfFuel" if "r = Inr new" for new
      proof (rule less.hyps)
        from Pair that have st: "elf_step h ent s = (Inr new, t)" by simp
        have m: "more_paths s t" using framesD [OF more_paths_elf_step st] .
        have E: "ent \<in> E" using less.prems Cons by simp
        show "((t, rev new @ rest), (s, todo)) \<in> measures [\<lambda>(s, w). unsettled h E s, \<lambda>(s, w). length w]"
          using elf_step_pushes [OF st] unsettled_mono [OF assms(1) m] unsettled_less [OF assms(1) m E] Cons
          by (auto simp: le_less)
        show "set (rev new @ rest) \<subseteq> E" using elf_step_pushes [OF st] assms(2) E less.prems Cons by auto
      qed
      show ?thesis
      proof (cases r)
        case (Inl e)
        with Pair elf_step_in_time have "e \<noteq> OutOfFuel" by (auto dest: throwsD)
        then have "fst (gather_elfs_loop n h todo s) \<noteq> Inl OutOfFuel" if "n \<ge> 1" for n
          using that Cons Pair Inl by (cases n) (simp_all add: bindE_def)
        then show ?thesis by blast
      next
        case (Inr new)
        then obtain N where N: "\<forall>n\<ge>N. fst (gather_elfs_loop n h (rev new @ rest) t) \<noteq> Inl OutOfFuel" using again by blast
        have "fst (gather_elfs_loop n h todo s) \<noteq> Inl OutOfFuel" if "n \<ge> Suc N" for n
          using that Cons Pair Inr N by (cases n) (simp_all add: bindE_def)
        then show ?thesis by blast
      qed
    qed
  qed
qed

text \<open>
  C18. \<^verbatim>\<open>gather_archive_elfs\<close> ends: when the entries it is given belong to a finite set that is
  closed under what an entry can push (the target of a link, the libraries of a file, the
  entries of a directory), some bound on its rounds is enough, in every state. Cycles
  among links and libraries are no obstacle.
\<close>

theorem gather_elfs_ends:
  assumes "finite E" and "\<forall>e\<in>E. elf_pushes h e \<subseteq> E" and "set elfs \<subseteq> E"
  shows "\<exists>N. \<forall>fuel\<ge>N. fst (gather_archive_elfs fuel h elfs s) \<noteq> Inl OutOfFuel"
  unfolding gather_archive_elfs_def using assms by (intro gather_elfs_loop_ends [of E]) simp_all

end
