(* ===== verification/Cut_Samples.thy ===== *)
theory Cut_Samples
  imports Shared_Conf Cut_Elfs_End "HOL-Library.Code_Target_Nat" "HOL-Library.Code_Target_Int"
begin

text \<open>
  Concrete runs of \<^verbatim>\<open>rapido-cut\<close> on small hosts, at which the theorems about it are applied.
\<close>

lemma gather_elfs_loop_code [code]:
  "gather_elfs_loop n h elfs =
    (if n = 0 then throw OutOfFuel
     else case elfs of [] \<Rightarrow> ret ()
       | ent # es \<Rightarrow> bindE (elf_step h ent) (\<lambda>new. gather_elfs_loop (n - 1) h (rev new @ es)))"
  by (cases n; cases elfs; simp)

lemma gather_data_loop_code [code]:
  "gather_data_loop n h items =
    (if n = 0 then throw OutOfFuel
     else case items of [] \<Rightarrow> ret ()
       | item # is \<Rightarrow> bindE (data_step h item) (\<lambda>new. gather_data_loop (n - 1) h (rev new @ is)))"
  by (cases n; cases items; simp)

lemma fst_Inr: "fst z = Inr () \<Longrightarrow> \<exists>t. z = (Inr (), t)"
  by (cases z) auto

lemma files_host_steady: "steady (files_host fs)"
  by (auto simp: steady_def files_host_def split: option.splits)

text \<open>An unlimited output, and a run that has seen the given paths.\<close>

definition big_disk :: writer where "big_disk = \<lparr>w_buf = [], w_room = None\<rparr>"

definition seen_run :: "bytes list \<Rightarrow> cut" where
  "seen_run ps = (cut_start big_disk [])\<lparr>paths_seen := set (map components ps)\<rparr>"

section \<open>Directories\<close>

lemma dirs_sample: "fst (gather_archive_dirs (Some ''/usr/bin'') CPIO_AMD_DEFAULT (seen_run [''/usr''])) = Inr ()"
  by code_simp

lemma dirs_sample_names: "components ''/usr/bin'' = RootDir # map Normal [''usr'', ''bin'']"
  by code_simp

theorem gather_archive_dirs_exact_witness:
  "\<exists>t ops. gather_archive_dirs (Some ''/usr/bin'') CPIO_AMD_DEFAULT (seen_run [''/usr'']) = (Inr (), t)
    \<and> performs ops (seen_run [''/usr'']) t \<and> map op_key ops = [components ''/usr/bin'']"
proof -
  obtain t where t: "gather_archive_dirs (Some ''/usr/bin'') CPIO_AMD_DEFAULT (seen_run [''/usr'']) = (Inr (), t)"
    using fst_Inr [OF dirs_sample] by blast
  have "new_dirs (paths_seen (seen_run [''/usr''])) [''usr'', ''bin''] = [components ''/usr/bin'']"
    by code_simp
  with gather_archive_dirs_exact [OF t dirs_sample_names] t show ?thesis by auto
qed

section \<open>A binary and its library\<close>

definition elf_host :: host where
  "elf_host = (files_host [(''/bin/x'', ''X''), (''/lib/l'', ''L'')])
    \<lparr>h_lstat := (\<lambda>p. if p = ''/bin/x'' \<or> p = ''/lib/l'' then Inr ((file_meta ''X'')\<lparr>st_mode := 0x81ED\<rparr>) else Inl NotFound),
     h_elf := [''X'' \<mapsto> \<lparr>ev_dynamic = Some (Some [(1, 0)]), ev_strs = Some (Some (\<lambda>_. Some ''l''))\<rparr>]\<rparr>"

lemma elf_sample: "fst (gather_archive_elfs 3 elf_host [GName ''x''] (seen_run [''/bin'', ''/lib''])) = Inr ()"
  by code_simp

lemma elf_host_intact: "elf_intact elf_host"
  by (auto simp: elf_intact_def elf_readable_def elf_host_def split: if_splits)

lemma elf_host_needs: "elf_needs elf_host ''X'' = {''l''}"
  by code_simp

lemma elf_sample_seen: "libs_seen (snd (gather_archive_elfs 3 elf_host [GName ''x''] (seen_run [''/bin'', ''/lib'']))) = {''l''}"
  by code_simp


text \<open>A file whose second needed library has no name, and one that needs the first.\<close>

definition bad_elf_host :: host where
  "bad_elf_host = (files_host [(''/b'', ''B''), (''/g'', ''G'')])
    \<lparr>h_elf := [''B'' \<mapsto> \<lparr>ev_dynamic = Some (Some [(1, 0), (1, 9)]), ev_strs = Some (Some [0 \<mapsto> ''libc.so.6''])\<rparr>,
               ''G'' \<mapsto> \<lparr>ev_dynamic = Some (Some [(1, 0)]), ev_strs = Some (Some [0 \<mapsto> ''libc.so.6''])\<rparr>]\<rparr>"

definition exec_md :: ArchiveMd where
  "exec_md = CPIO_AMD_DEFAULT\<lparr>md_len := 1\<rparr>"

abbreviation after_bad :: "GatherEnt list option res \<times> cut" where
  "after_bad \<equiv> archive_elf bad_elf_host (GName ''b'') ''/b'' ''/b'' exec_md (seen_run [])"

lemma bad_elf_sample:
  "case after_bad of (Inr _, t) \<Rightarrow>
     (case archive_elf bad_elf_host (GName ''g'') ''/g'' ''/g'' exec_md t of (Inr _, _) \<Rightarrow> True | _ \<Rightarrow> False)
   | _ \<Rightarrow> False"
  by code_simp

theorem elf_deps_forgets_witness:
  "\<exists>t v. archive_elf bad_elf_host (GName ''b'') ''/b'' ''/b'' exec_md (seen_run []) = (Inr (Some []), t)
    \<and> libs_seen t = {''libc.so.6''}
    \<and> archive_elf bad_elf_host (GName ''g'') ''/g'' ''/g'' exec_md t = (Inr (Some []), v)"
proof -
  let ?h = bad_elf_host and ?strs = "[0 \<mapsto> ''libc.so.6''] :: nat \<Rightarrow> bytes option"
  obtain r t where t: "after_bad = (Inr r, t)" using bad_elf_sample by (auto split: prod.splits sum.splits)
  then obtain r' v where v: "archive_elf ?h (GName ''g'') ''/g'' ''/g'' exec_md t = (Inr r', v)"
    using bad_elf_sample by (auto split: prod.splits sum.splits)
  have offs: "dyn_offs DT_NEEDED [(1, 0), (1, 9)] = [0] @ 9 # []" by (simp add: dyn_offs_def DT_NEEDED_def)
  have needs: "elf_needs ?h ''G'' \<subseteq> libs_seen (seen_run []) \<union> set (List.map_filter ?strs [0])"
    by (simp add: elf_needs_def bad_elf_host_def dyn_offs_def DT_NEEDED_def List.map_filter_simps)
  have md: "md_mode exec_md AND S_IFMT = S_IFREG" "md_mode exec_md AND 0x49 \<noteq> 0" "0 < md_len exec_md" by code_simp+
  have o: "h_open ?h ''/b'' = Inr (file_meta ''B'', ''B'', None)" "h_open ?h ''/g'' = Inr (file_meta ''G'', ''G'', None)"
    by (simp_all add: bad_elf_host_def files_host_def)
  have b: "h_elf ?h ''B'' = Some \<lparr>ev_dynamic = Some (Some [(1, 0), (1, 9)]), ev_strs = Some (Some ?strs)\<rparr>"
    by (simp add: bad_elf_host_def)
  have "libs_seen t = libs_seen (seen_run []) \<union> set (List.map_filter ?strs [0]) \<and> r = Some [] \<and> r' = Some []"
    by (rule elf_deps_forgets [OF b _ _ offs _ _ o(1) md(1,3) _ t needs subset_refl o(2) md(1,3) v]) (simp_all add: md)
  then show ?thesis using t v by (auto simp: seen_run_def cut_start_def List.map_filter_simps)
qed

lemma elf_sample_found:
  "path_stat elf_host (GName ''x'') = Inr \<lparr>fe_path = ''/bin/x'', fe_md = (file_meta ''X'')\<lparr>st_mode := 0x81ED\<rparr>\<rparr>"
  "path_stat elf_host (GLib ''l'') = Inr \<lparr>fe_path = ''/lib/l'', fe_md = (file_meta ''X'')\<lparr>st_mode := 0x81ED\<rparr>\<rparr>"
  by code_simp+

lemma elf_sample_libs: "elf_libs elf_host ''X'' \<subseteq> {GLib ''l''}" "elf_libs elf_host ''L'' = {}"
  by (auto simp: elf_libs_def elf_deps_def elf_host_def dyn_offs_def DT_NEEDED_def DT_RUNPATH_def List.map_filter_simps
      files_host_def split: if_splits)

theorem gather_elfs_ends_witness:
  "\<exists>N. \<forall>fuel\<ge>N. fst (gather_archive_elfs fuel elf_host [GName ''x''] (seen_run [])) \<noteq> Inl OutOfFuel"
proof (rule gather_elfs_ends [where E = "{GName ''x'', GLib ''l''}"])
  have o: "h_open elf_host ''/bin/x'' = Inr (file_meta ''X'', ''X'', None)" "h_open elf_host ''/lib/l'' = Inr (file_meta ''L'', ''L'', None)"
    by (simp_all add: elf_host_def files_host_def)
  show "\<forall>e\<in>{GName ''x'', GLib ''l''}. elf_pushes elf_host e \<subseteq> {GName ''x'', GLib ''l''}"
    using elf_sample_libs by (auto simp: elf_pushes_def elf_sample_found S_IF_defs o)
qed simp_all

section \<open>A tree of a directory and a file\<close>

definition dir_meta :: Metadata where
  "dir_meta = (file_meta [])\<lparr>st_mode := S_IFDIR OR 0x1ED, st_nlink := 2\<rparr>"

definition tree_host :: host where
  "tree_host = (files_host [(''/s/f'', ''hello'')])
    \<lparr>h_lstat := (\<lambda>p. if p = ''/s'' then Inr dir_meta else if p = ''/s/f'' then Inr (file_meta ''hello'') else Inl NotFound),
     h_readdir := (\<lambda>p. if p = ''/s'' then Inr [Inr ''f''] else Inl NotFound)\<rparr>"

definition tree_item :: GatherItem where
  "tree_item = \<lparr>gi_src = ''/s'', gi_dst = ''/d'', gi_flags = 0\<rparr>"

lemma tree_sample: "fst (gather_archive_data 3 tree_host [tree_item] (seen_run [])) = Inr ()"
  by code_simp

lemma tree_host_plain: "plain_dirs tree_host"
  by (auto simp: plain_dirs_def tree_host_def files_host_def plain_name_def split: if_splits)

lemma tree_item_ok: "item_ok S tree_item"
proof -
  have "components ''/d'' = RootDir # map Normal [''d'']" by code_simp
  then show ?thesis unfolding item_ok_def tree_item_def by (intro exI [of _ "[''d'']"]) simp
qed


theorem gather_archive_data_ends_witness:
  "sum_opt (map (\<lambda>i. tree_entries 2 tree_host (gi_src i)) [tree_item]) = Some 2
    \<and> fst (gather_archive_data 3 tree_host [tree_item] (seen_run [])) \<noteq> Inl OutOfFuel"
proof -
  have "sum_opt (map (\<lambda>i. tree_entries 2 tree_host (gi_src i)) [tree_item]) = Some 2" by code_simp
  with gather_archive_data_ends [of 2 tree_host "[tree_item]" 2 3 "seen_run []"] show ?thesis by simp
qed

section \<open>A module with a dependency and a soft dependency\<close>

definition sample_gk :: GatherKmods where
  "sample_gk = \<lparr>kmod_dst_root = ''/m'', kmod_ctx =
    \<lparr>modules_hash = [''a'' \<mapsto> (new_module LoadableModule ''a.ko'' [''b.ko''])\<lparr>soft_deps_pre := [''c'']\<rparr>,
                     ''c'' \<mapsto> new_module LoadableModule ''c.ko'' []],
     alias_map = Map.empty, module_root = ''/s''\<rparr>\<rparr>"

definition sample_kmod :: KmodModule where
  "sample_kmod = (new_module LoadableModule ''a.ko'' [''b.ko''])\<lparr>soft_deps_pre := [''c'']\<rparr>"

definition kmod_host :: host where
  "kmod_host = files_host [(''/s/a.ko'', ''A''), (''/s/b.ko'', ''B'')]"

lemma kmod_sample: "fst (gather_archive_kmod_and_deps kmod_host ''a'' sample_gk (seen_run [''/m''])) = Inr ()"
  by code_simp

lemma kmod_sample_found:
  "find_kmod (kmod_ctx sample_gk) ''a'' = Some sample_kmod"
  "find_kmod (kmod_ctx sample_gk) ''c'' = Some (new_module LoadableModule ''c.ko'' [])"
  by code_simp+


theorem gather_archive_kmods_named_witness:
  "\<exists>t gk u m. gather_archive_kmods kmod_host Map.empty [''a''] False ((seen_run [''/m/a.ko''])\<lparr>cu_gk := Some sample_gk\<rparr>) = (Inr (), t)
    \<and> ensure_gk kmod_host Map.empty ((seen_run [''/m/a.ko''])\<lparr>cu_gk := Some sample_gk\<rparr>) = (Inr gk, u)
    \<and> find_kmod (kmod_ctx gk) ''a'' = Some m
    \<and> (km_status m = Builtin \<or> components (kmod_dst gk (rel_path m)) \<in> paths_seen t)"
proof -
  let ?s = "(seen_run [''/m/a.ko''])\<lparr>cu_gk := Some sample_gk\<rparr>"
  have "fst (gather_archive_kmods kmod_host Map.empty [''a''] False ?s) = Inr ()" by code_simp
  then obtain t where t: "gather_archive_kmods kmod_host Map.empty [''a''] False ?s = (Inr (), t)"
    using fst_Inr by blast
  have "steady kmod_host" unfolding kmod_host_def by (rule files_host_steady)
  from gather_archive_kmods_named [OF t this] t show ?thesis by auto
qed

theorem kmod_soft_shadows_witness:
  "\<exists>u. archive_soft_mod kmod_host sample_gk ''c'' (seen_run [''/m'']) = (Inr (), u)
    \<and> h_open kmod_host (kmod_src sample_gk ''c.ko'') = Inl NotFound
    \<and> gather_archive_kmod_and_deps kmod_host ''c'' sample_gk u = (Inr (), u)"
proof -
  have "fst (archive_soft_mod kmod_host sample_gk ''c'' (seen_run [''/m''])) = Inr ()" by code_simp
  then obtain u where u: "archive_soft_mod kmod_host sample_gk ''c'' (seen_run [''/m'']) = (Inr (), u)"
    using fst_Inr by blast
  have "h_open kmod_host (kmod_src sample_gk ''c.ko'') = Inl NotFound"
    by (simp add: kmod_host_def files_host_def kmod_src_def sample_gk_def path_join_def)
  moreover have "steady kmod_host" unfolding kmod_host_def by (rule files_host_steady)
  ultimately show ?thesis
    using kmod_soft_shadows [OF u kmod_sample_found(2)] u by (simp add: new_module_def)
qed

section \<open>A whole run\<close>

text \<open>
  A manifest that filters the core programs except \<^verbatim>\<open>rapido-init\<close>, the module database and three of the
  default links, on a host where every program exists and the one module is built in;
  \<^verbatim>\<open>rapido-init\<close> is an ELF file that needs a library.
\<close>

definition text_lines :: "bytes list \<Rightarrow> bytes" where
  "text_lines ls = concat (map (\<lambda>l. l @ [newline]) ls)"

definition rng_conf :: bytes where
  "rng_conf = ''QEMU_EXTRA_ARGS=virtio-rng-pci''"

definition cut_host :: host where
  "cut_host = (files_host
    [(''/m/f'', text_lines [''filter /usr/bin/mount'', ''filter /usr/bin/setsid'', ''filter /usr/bin/bash'',
        ''filter /usr/bin/stty'', ''filter /usr/bin/modprobe'', ''filter /usr/lib/modules/6/modules.builtin'',
        ''filter /lib64'', ''filter /bin'', ''filter /sbin'']),
     (''/work/target/release/rapido-init'', ''X''), (''/lib/l'', ''L''), (''/usr/bin/mount'', ''x''), (''/usr/bin/setsid'', ''x''),
     (''/usr/bin/bash'', ''x''), (''/usr/bin/stty'', ''x''), (''/usr/bin/modprobe'', ''x''),
     (''vm_autorun.env'', ''hi''), (''/proc/version'', ''Linux version 6 x''),
     (''/lib/modules/6/modules.builtin'', text_lines [''kernel/virtio_rng.ko'']), (''rapido.conf'', rng_conf)])
    \<lparr>h_lstat := (\<lambda>p. if p = RAPIDO_INIT_PATH then Inr ((file_meta ''X'')\<lparr>st_mode := 0x81ED\<rparr>)
        else if p \<in> {''/lib/l'', ''/usr/bin/mount'', ''/usr/bin/setsid'', ''/usr/bin/bash'', ''/usr/bin/stty'', ''/usr/bin/modprobe'',
          ''/m/f'', ''/lib/modules/6/modules.builtin''} then Inr (file_meta ''x'')
        else Inl NotFound),
     h_elf := [''X'' \<mapsto> \<lparr>ev_dynamic = Some (Some [(1, 0)]), ev_strs = Some (Some (\<lambda>_. Some ''l''))\<rparr>]\<rparr>"

lemma cut_host_steady: "steady cut_host"
  using files_host_steady unfolding steady_def cut_host_def by simp

lemma cut_sample:
  "case cut_main 30 cut_host (\<lambda>_. []) (\<lambda>_. Inr big_disk) [''--manifest=/m/f''] of
     (Inr n, Some (p, s)) \<Rightarrow> libs_seen s = {''l''} | _ \<Rightarrow> False"
  by code_simp

lemma cut_run:
  obtains n p s where "cut_main 30 cut_host (\<lambda>_. []) (\<lambda>_. Inr big_disk) [''--manifest=/m/f''] = (Inr n, Some (p, s))"
    and "libs_seen s = {''l''}"
  using cut_sample
  by (cases "cut_main 30 cut_host (\<lambda>_. []) (\<lambda>_. Inr big_disk) [''--manifest=/m/f'']")
    (auto split: sum.splits option.splits)


theorem cut_main_archive_witness:
  "\<exists>n p s. cut_main 30 cut_host (\<lambda>_. []) (\<lambda>_. Inr big_disk) [''--manifest=/m/f''] = (Inr n, Some (p, s))
    \<and> n = of_nat (length (w_buf (c_out (cu_cpio s))))"
proof -
  obtain n p s where r: "cut_main 30 cut_host (\<lambda>_. []) (\<lambda>_. Inr big_disk) [''--manifest=/m/f''] = (Inr n, Some (p, s))"
    by (rule cut_run)
  from cut_main_archive [OF r cut_host_steady] r show ?thesis by auto
qed


text \<open>The machine booted with the same configuration.\<close>

definition rng_env :: init_env where
  "rng_env =
    \<lparr>ie_host = files_host [(''/rapido.conf'', rng_conf), (''/proc/cmdline'', ''rapido.vm_num=1'')],
     ie_op = (\<lambda>_. Inr ()), ie_cmd = (\<lambda>_. Inr True)\<rparr>"

lemma rng_sample:
  "RunCmd [(''PATH'', ''/usr/sbin:/usr/bin:/sbin:/bin'')] ''modprobe'' [''-a'', ''virtio_rng''] \<in> set (snd (init_start rng_env []))"
  "case kv_conf_process (rng_conf, None) of Inr m \<Rightarrow> True | Inl _ \<Rightarrow> False"
  by code_simp+

theorem init_modules_gathered_witness:
  "\<exists>n p s r tr gk m. cut_main 30 cut_host (\<lambda>_. []) (\<lambda>_. Inr big_disk) [''--manifest=/m/f''] = (Inr n, Some (p, s))
    \<and> init_start rng_env [] = (r, tr) \<and> RunCmd [(''PATH'', ''/usr/sbin:/usr/bin:/sbin:/bin'')] ''modprobe'' [''-a'', ''virtio_rng''] \<in> set tr
    \<and> cu_gk s = Some gk \<and> find_kmod (kmod_ctx gk) ''virtio_rng'' = Some m
    \<and> (km_status m = Builtin \<or> components (kmod_dst gk (rel_path m)) \<in> paths_seen s)"
proof -
  obtain n p s where c: "cut_main 30 cut_host (\<lambda>_. []) (\<lambda>_. Inr big_disk) [''--manifest=/m/f''] = (Inr n, Some (p, s))"
    by (rule cut_run)
  obtain r tr where i: "init_start rng_env [] = (r, tr)" by fastforce
  obtain conf where k: "kv_conf_process (rng_conf, None) = Inr conf" using rng_sample(2) by (auto split: sum.splits)
  have h: "host_rapido_conf_open cut_host RAPIDO_CONF_PATH = Inr ((file_meta rng_conf, rng_conf, None), ''rapido.conf'')"
    by (simp add: host_rapido_conf_open_def cut_host_def files_host_def RAPIDO_CONF_PATH_def RAPIDO_INIT_PATH_def)
  have o: "h_open (ie_host rng_env) RAPIDO_CONF = Inr (file_meta rng_conf, rng_conf, None)"
    by (simp add: rng_env_def files_host_def RAPIDO_CONF_def)
  note cut_host_steady
  moreover have "RunCmd [(''PATH'', ''/usr/sbin:/usr/bin:/sbin:/bin'')] ''modprobe'' (''-a'' # [''virtio_rng'']) \<in> set tr" using rng_sample(1) i by simp
  ultimately obtain gk where gk: "cu_gk s = Some gk" "\<forall>name\<in>set [''virtio_rng'']. name \<in> {''virtio_net'', ''af_packet''}
    \<or> (\<exists>m. find_kmod (kmod_ctx gk) name = Some m
        \<and> (km_status m = Builtin \<or> components (kmod_dst gk (rel_path m)) \<in> paths_seen s))"
    using init_modules_gathered [OF c _ h k i o] by blast
  then obtain m where "find_kmod (kmod_ctx gk) ''virtio_rng'' = Some m
    \<and> (km_status m = Builtin \<or> components (kmod_dst gk (rel_path m)) \<in> paths_seen s)" by auto
  with c i rng_sample(1) gk(1) show ?thesis by auto
qed

end
