(* ===== verification/Dracut_Cpio.thy ===== *)
theory Dracut_Cpio
  imports Cpio_Walk Host Argument
begin

text \<open>
  The tools \<^verbatim>\<open>src/bin/dracut-cpio.rs\<close>, which archives the paths listed on its standard
  input, and \<^verbatim>\<open>src/bin/lscpio.rs\<close>, which lists an archive.
\<close>

section \<open>dracut-cpio: the archive loop\<close>

definition LIST_SEPARATOR :: byte where "LIST_SEPARATOR = newline"

definition read_list_entry :: "reader \<Rightarrow> bytes res \<times> reader" where
  \<comment> \<open>\<^verbatim>\<open>reader.by_ref().take(PATH_MAX).read_until(LIST_SEPARATOR, ..)\<close>\<close>
  "read_list_entry rd =
    (let l = fst (read_until LIST_SEPARATOR (take PATH_MAX (fst rd)))
     in if length l < PATH_MAX \<and> line_error l (snd rd) \<noteq> None
        then (err (the (snd rd)), [], snd rd)
        else (Inr l, drop (length l) (fst rd), snd rd))"

definition archive_listed :: "host \<Rightarrow> bytes \<Rightarrow> (cpio, unit) eff" where
  "archive_listed h path =
    bindE (lift_res (os (h_lstat h path))) (\<lambda>md.
    bindE (getE (\<lambda>c. ArchiveMd_from (c_state c) md)) (\<lambda>r.
    bindE (lift_res r) (\<lambda>amd.
    if md_mode amd AND S_IFMT = S_IFREG then
      bindE (lift_res (os (h_open h path))) (\<lambda>(_, f). archive_file path amd f)
    else if md_mode amd AND S_IFMT = S_IFLNK then
      bindE (lift_res (os (h_readlink h path))) (\<lambda>tgt. archive_symlink path amd tgt)
    else archive_path path amd)))"

lemma read_list_entry_shrinks:
  "read_list_entry rd = (Inr l, rd1) \<Longrightarrow> l \<noteq> [] \<Longrightarrow> length (fst rd1) < length (fst rd)"
  using read_until_length [of LIST_SEPARATOR "take PATH_MAX (fst rd)" l]
  by (cases "read_until LIST_SEPARATOR (take PATH_MAX (fst rd))")
    (auto simp: read_list_entry_def Let_def neq_Nil_conv split: if_splits)

function list_loop :: "host \<Rightarrow> reader \<Rightarrow> (cpio, unit) eff" where
  "list_loop h rd c =
    (case read_list_entry rd of
       (Inl e, _) \<Rightarrow> (Inl e, c)
     | (Inr linebuf, rd1) \<Rightarrow>
       if linebuf = [] then (Inr (), c)
       else if length linebuf \<ge> PATH_MAX then (err_msg InvalidInput ''path too long'', c)
       else
         (let path = (if last linebuf = LIST_SEPARATOR then butlast linebuf else linebuf)
          in if path = [] then list_loop h rd1 c
             else bindE (archive_listed h path) (\<lambda>_. list_loop h rd1) c))"
  by pat_completeness auto
termination
  by (relation "measure (\<lambda>(_, rd, _). length (fst rd))") (auto dest: read_list_entry_shrinks [OF sym])

declare list_loop.simps [simp del]

definition align_ok :: "ArchiveProperties \<Rightarrow> bool" where
  "align_ok props \<longleftrightarrow>
    \<not> (data_align props > 0 \<and> (initial_data_off props + ucast (data_align props)) mod 4 \<noteq> 0)"

definition block_pad :: "u64 \<Rightarrow> (cpio, u64) eff" where
  \<comment> \<open>zeros up to the block length of GNU cpio; the offset of the archive state stays\<close>
  "block_pad final_off =
    (let block_padlen = archive_padlen final_off 512 in
     if block_padlen > 0
     then seqE (emit (replicate (unat block_padlen) NUL)) (ret (final_off + block_padlen))
     else ret final_off)"

definition archive_loop :: "host \<Rightarrow> reader \<Rightarrow> ArchiveProperties \<Rightarrow> writer \<Rightarrow> u64 res \<times> cpio" where
  "archive_loop h rd props w =
    (let c = \<lparr>c_state = new_state props, c_out = w\<rparr> in
     if \<not> align_ok props then (err_msg InvalidInput ''data alignment must be a multiple of 4'', c)
     else bindE (list_loop h rd) (\<lambda>_. bindE archive_trailer block_pad) c)"

section \<open>dracut-cpio: parameters\<close>

definition dracut_params :: "Argument list" where
  "dracut_params =
    [Argument_positional ''OUTPUT'' ''Write cpio archive to this file path.'',
     Argument_value ''data-align'' ''ALIGNMENT'' ''Attempt to pad archive to achieve ALIGNMENT for file data.'',
     Argument_short_flag CHR ''0'' ''null'' ''Expect null delimeters in stdin filename list instead of newline.'',
     Argument_value ''mtime'' ''EPOCH'' ''Use EPOCH for archived mtime instead of filesystem reported values.'',
     Argument_value ''owner'' ''UID:GID'' ''Use UID and GID instead of filesystem reported owner values.'',
     Argument_flag ''truncate-existing'' ''Truncate and overwrite any existing OUTPUT file, instead of appending.'',
     Argument_short_flag CHR ''h'' ''help'' ''Print help message.'']"

record params_state =
  ps_props :: ArchiveProperties
  ps_positional :: nat
  ps_truncate :: bool

definition parse_u32 :: "bytes \<Rightarrow> u32 option" where
  "parse_u32 s = map_option of_nat (from_str_radix 32 10 s)"

fun parse_ids :: "bytes list \<Rightarrow> arg_error + u32 list" where
  "parse_ids [] = Inr []"
| "parse_ids (x # xs) =
    (case parse_u32 x of
       None \<Rightarrow> Inl (InvalidValue x ''uid/gid must be an integer'')
     | Some v \<Rightarrow> (case parse_ids xs of Inl e \<Rightarrow> Inl e | Inr vs \<Rightarrow> Inr (v # vs)))"

definition dracut_param :: "params_state callback" where
  "dracut_param name val s =
    (let no_value = (Inl (ArgPanic ''called unwrap on a None value''), s) in
     if name = [] then (Inr (), s\<lparr>ps_positional := ps_positional s + 1\<rparr>)
     else if name = ''data-align'' then
       (case val of
          None \<Rightarrow> no_value
        | Some v \<Rightarrow>
          (case parse_u32 v of
             None \<Rightarrow> (Inl (InvalidValue v ''data-align must be an integer''), s)
           | Some n \<Rightarrow> (Inr (), s\<lparr>ps_props := (ps_props s)\<lparr>data_align := n\<rparr>\<rparr>)))
     else if name = ''mtime'' then
       (case val of
          None \<Rightarrow> no_value
        | Some v \<Rightarrow>
          (case parse_u32 v of
             None \<Rightarrow> (Inl (InvalidValue v ''mtime must be an integer''), s)
           | Some n \<Rightarrow> (Inr (), s\<lparr>ps_props := (ps_props s)\<lparr>fixed_mtime := Some n\<rparr>\<rparr>)))
     else if name = ''owner'' then
       (case val of
          None \<Rightarrow> no_value
        | Some v \<Rightarrow>
          (case parse_ids (split_on (\<lambda>c. c = CHR '':'') v) of
             Inl e \<Rightarrow> (Inl e, s)
           | Inr [u, g] \<Rightarrow> (Inr (), s\<lparr>ps_props := (ps_props s)\<lparr>fixed_uid := Some u, fixed_gid := Some g\<rparr>\<rparr>)
           | Inr _ \<Rightarrow> (Inl (InvalidValue v ''owner must be UID:GID''), s)))
     else if name = ''truncate-existing'' then (Inr (), s\<lparr>ps_truncate := True\<rparr>)
     else if name = ''help'' then (Inl PrintHelp, s)
     else (Inl (ArgPanic ''internal error: entered unreachable code''), s))"

definition params_process :: "bytes list \<Rightarrow> arg_error + (bytes \<times> bool \<times> ArchiveProperties)" where
  \<comment> \<open>the output path is the last argument, whatever it was parsed as\<close>
  "params_process args =
    (case set_arguments args dracut_params dracut_param
            \<lparr>ps_props = default_props, ps_positional = 0, ps_truncate = False\<rparr> of
       (Inl e, _) \<Rightarrow> Inl e
     | (Inr _, s) \<Rightarrow>
       if ps_positional s \<noteq> 1 then Inl (ExpectedArgument ''one OUTPUT parameter required'')
       else Inr (last args, ps_truncate s, ps_props s))"

text \<open>
  \<^verbatim>\<open>main\<close>: opening the output for writing gives the length of its content, at whose end the
  archive is appended; with truncation the content is gone. The result is the writer.
\<close>

definition dracut_main :: "host \<Rightarrow> (bytes \<Rightarrow> error_kind + writer) \<Rightarrow> bytes list \<Rightarrow> reader \<Rightarrow> u64 res \<times> writer option" where
  "dracut_main h out_open args stdin =
    (case params_process args of
       Inl e \<Rightarrow>
         (case e of
            PrintHelp \<Rightarrow> (Inr 0, None)
          | ArgPanic m \<Rightarrow> (Inl (Panic m), None)
          | _ \<Rightarrow> (err_msg InvalidInput (arg_error_text e), None))
     | Inr (output_path, trunc, props) \<Rightarrow>
       (case out_open output_path of
          Inl k \<Rightarrow> (err k, None)
        | Inr w \<Rightarrow>
          (let w1 = (if trunc then w\<lparr>w_buf := []\<rparr> else w);
               props1 = (if trunc then props else props\<lparr>initial_data_off := of_nat (length (w_buf w1))\<rparr>)
           in case archive_loop h stdin props1 w1 of (r, c) \<Rightarrow> (r, Some (c_out c)))))"

section \<open>lscpio\<close>

definition ls_entry :: "ArchiveEnt \<Rightarrow> bytes res" where
  "ls_entry ent =
    (if \<not> utf8_valid (ae_name ent) then err InvalidData
     else case split_once (\<lambda>c. c = NUL) (ae_name ent) of
       None \<Rightarrow> err InvalidData
     | Some (n, _) \<Rightarrow> Inr (pad_right 9 (fmt_dec (unat (md_len (ae_md ent)))) @ '' '' @ n @ [newline]))"

fun ls_loop :: "ArchiveEnt res list \<Rightarrow> unit res \<times> bytes" where
  \<comment> \<open>the result and what was printed\<close>
  "ls_loop [] = (Inr (), [])"
| "ls_loop (item # items) =
    (case bindR item ls_entry of
       Inl e \<Rightarrow> (Inl e, [])
     | Inr line \<Rightarrow> (case ls_loop items of (r, out) \<Rightarrow> (r, line @ out)))"

definition lscpio_main :: "host \<Rightarrow> bytes list \<Rightarrow> unit res \<times> bytes" where
  \<comment> \<open>the arguments after the program name\<close>
  "lscpio_main h args =
    (case args of
       [p] \<Rightarrow>
         (case h_open h p of
            Inl k \<Rightarrow> (err k, [])
          | Inr (_, rd) \<Rightarrow> ls_loop (archive_walk rd))
     | _ \<Rightarrow> (err InvalidInput, ''Usage: lscpio INITRAMFS'' @ [newline]))"

section \<open>The parameters of dracut-cpio\<close>

text \<open>Parameters change the alignment and the fixed values only.\<close>

definition base_props :: "ArchiveProperties \<Rightarrow> bool" where
  "base_props p \<longleftrightarrow> p\<lparr>data_align := 0, fixed_mtime := None, fixed_uid := None, fixed_gid := None\<rparr> = default_props"

interpretation dracut_args: callback dracut_param dracut_params "\<lambda>st. base_props (ps_props st)"
  "\<lambda>e. is_arg_panic e \<longrightarrow> e = ArgPanic ''internal error: entered unreachable code''"
proof unfold_locales
  show "\<forall>a\<in>set dracut_params. arg_wf a" by (simp add: dracut_params_def arg_wf_constructors)
  fix name val s r t
  assume v: "valid_call dracut_params name val" and p: "base_props (ps_props s)" and c: "dracut_param name val s = (r, t)"
  have ids: "parse_ids xs = Inl e \<Longrightarrow> \<not> is_arg_panic e" for xs e
    by (induction xs) (auto simp: is_arg_panic_def split: option.splits sum.splits)
  from v have "name \<in> {[], ''null'', ''truncate-existing'', ''help''}
      \<or> name \<in> {''data-align'', ''mtime''} \<and> val \<noteq> None \<or> name = ''owner'' \<and> val \<noteq> None"
    unfolding valid_call_def dracut_params_def list.set bex_simps(5,7)
      Argument_value_def Argument_positional_def Argument_flag_def Argument_short_flag_def
    by (elim disjE; clarsimp)
  then show "base_props (ps_props t)
      \<and> (\<forall>e. r = Inl e \<longrightarrow> is_arg_panic e \<longrightarrow> e = ArgPanic ''internal error: entered unreachable code'')"
  proof (elim disjE conjE)
    assume "name \<in> {[], ''null'', ''truncate-existing'', ''help''}"
    with c p show ?thesis by (auto simp: dracut_param_def Let_def base_props_def is_arg_panic_def)
  next
    assume "name \<in> {''data-align'', ''mtime''}" "val \<noteq> None"
    with c p show ?thesis
      by (auto simp: dracut_param_def Let_def base_props_def is_arg_panic_def split: option.splits)
  next
    assume "name = ''owner''" "val \<noteq> None"
    with c p show ?thesis
      by (cases "parse_ids (split_on (\<lambda>c. c = CHR '':'') (the val))")
        (auto simp: dracut_param_def Let_def base_props_def ids, auto simp: is_arg_panic_def split: list.splits)
  qed
qed (simp_all add: is_arg_panic_def)

lemma params_process_props:
  assumes "params_process args = Inr (out, trunc, props)" and "\<forall>a\<in>set args. \<forall>c\<in>set a. \<not> cont_byte c"
  shows "base_props props"
proof -
  obtain r t where s: "set_arguments args dracut_params dracut_param
      \<lparr>ps_props = default_props, ps_positional = 0, ps_truncate = False\<rparr> = (r, t)" by fastforce
  have "base_props default_props" by (simp add: base_props_def default_props_def)
  with dracut_args.set_arguments_ok [OF s] assms s show ?thesis
    by (cases r) (auto simp: params_process_def split: if_splits)
qed

text \<open>
  C30. The documented flag \<^verbatim>\<open>-0\<close> (\<^verbatim>\<open>--null\<close>) of \<^verbatim>\<open>dracut-cpio\<close> is declared but not handled: giving
  it first always panics in the catch-all arm that is marked as unreachable.
\<close>

theorem dracut_null_panics:
  "params_process (''-0'' # rest) = Inl (ArgPanic ''internal error: entered unreachable code'')"
proof -
  let ?s = "\<lparr>ps_props = default_props, ps_positional = 0, ps_truncate = False\<rparr>"
  have "top_step (checked_call dracut_params dracut_param) ''-0'' ?s
      = (Inl (ArgPanic ''internal error: entered unreachable code''), ?s)"
    by code_simp
  then show ?thesis by (simp add: params_process_def set_arguments_def parse_arguments_def arg_step_def)
qed

end
