(* ===== verification/Dracut_Run.thy ===== *)
theory Dracut_Run
  imports Dracut_Cpio "HOL-Library.Code_Target_Nat" "HOL-Library.Code_Target_Int"
begin

text \<open>
  What \<^verbatim>\<open>dracut-cpio\<close> and \<^verbatim>\<open>lscpio\<close> guarantee: the archive of a list of paths, its listing, and a
  gap in the guard on the data alignment.
\<close>

section \<open>The archive of a list\<close>

definition listed :: "host \<Rightarrow> ArchiveProperties \<Rightarrow> bytes \<Rightarrow> archive_op \<Rightarrow> bool" where
  \<comment> \<open>the operation that archives a path of the list: by the type and metadata of the file\<close>
  "listed h props p x \<longleftrightarrow> (\<exists>md amd. h_lstat h p = Inr md \<and> ArchiveMd_from (new_state props) md = Inr amd \<and>
    (if md_mode amd AND S_IFMT = S_IFREG then \<exists>md' f. h_open h p = Inr (md', f) \<and> x = ArchiveFile p amd f
     else if md_mode amd AND S_IFMT = S_IFLNK then \<exists>tgt. h_readlink h p = Inr tgt \<and> x = ArchiveSymlink p amd tgt
     else x = ArchivePath p amd))"

definition list_paths :: "bytes \<Rightarrow> bytes list" where
  "list_paths stdin = filter (\<lambda>p. p \<noteq> []) (split_on (\<lambda>c. c = newline) stdin)"

lemma ArchiveMd_from_props:
  assumes "as_props st = as_props st'"
  shows "ArchiveMd_from st md = ArchiveMd_from st' md"
  unfolding ArchiveMd_from_def assms ..

lemma archive_listed_op:
  assumes "archive_listed h p c = (Inr (), c')" and "as_props (c_state c) = props"
  shows "\<exists>x. listed h props p x \<and> run_op x c = (Inr (), c')"
proof -
  have "ArchiveMd_from (c_state c) md = ArchiveMd_from (new_state props) md" for md
    using assms(2) by (intro ArchiveMd_from_props) (simp add: new_state_def)
  with assms(1) obtain md amd where md: "h_lstat h p = Inr md" "ArchiveMd_from (new_state props) md = Inr amd"
    and m: "(if md_mode amd AND S_IFMT = S_IFREG then bindE (lift_res (os (h_open h p))) (\<lambda>(_, f). archive_file p amd f)
      else if md_mode amd AND S_IFMT = S_IFLNK then bindE (lift_res (os (h_readlink h p))) (archive_symlink p amd)
      else archive_path p amd) c = (Inr (), c')"
    by (auto simp: archive_listed_def bindE_Inr_iff os_def split: sum.splits)
  show ?thesis
  proof (cases "md_mode amd AND S_IFMT = S_IFREG")
    case True
    with m obtain md' f where "h_open h p = Inr (md', f)" "archive_file p amd f c = (Inr (), c')"
      by (auto simp: bindE_Inr_iff os_def split: sum.splits)
    with True md show ?thesis by (intro exI [of _ "ArchiveFile p amd f"]) (auto simp: listed_def)
  next
    case reg: False
    show ?thesis
    proof (cases "md_mode amd AND S_IFMT = S_IFLNK")
      case True
      with reg m obtain tgt where "h_readlink h p = Inr tgt" "archive_symlink p amd tgt c = (Inr (), c')"
        by (auto simp: bindE_Inr_iff os_def split: sum.splits)
      with True reg md show ?thesis by (intro exI [of _ "ArchiveSymlink p amd tgt"]) (auto simp: listed_def)
    next
      case False
      with reg m md show ?thesis by (intro exI [of _ "ArchivePath p amd"]) (auto simp: listed_def)
    qed
  qed
qed

lemma read_list_entry_cases:
  assumes "read_list_entry rd = (Inr l, rd1)" and "l \<noteq> []" and "length l < PATH_MAX"
  obtains (line) p where "l = p @ [newline]" and "newline \<notin> set p" and "fst rd = p @ newline # fst rd1"
  | (rest) "l = fst rd" and "newline \<notin> set l" and "fst rd1 = []"
proof -
  obtain r where r: "read_until newline (take PATH_MAX (fst rd)) = (l, r)"
    using assms(1) by (cases "read_until newline (take PATH_MAX (fst rd))")
      (auto simp: read_list_entry_def LIST_SEPARATOR_def Let_def split: if_splits)
  have rd1: "fst rd1 = drop (length l) (fst rd)"
    using assms(1) r by (auto simp: read_list_entry_def LIST_SEPARATOR_def Let_def split: if_splits)
  from r show thesis
  proof (cases rule: read_until_cases)
    case (line p)
    then have "fst rd = p @ newline # (r @ drop PATH_MAX (fst rd))"
      by (metis append.assoc append_Cons append_take_drop_id)
    with line rd1 that(1) [of p] show ?thesis by (metis append.assoc append_Cons append_Nil append_eq_conv_conj)
  next
    case rest
    with assms(3) have "take PATH_MAX (fst rd) = fst rd" by (metis length_take min_def nat_less_le take_all_iff nat_le_linear)
    with rest rd1 that(2) show ?thesis by simp
  qed
qed


lemma list_paths_line: "newline \<notin> set p \<Longrightarrow> list_paths (p @ newline # s) = (if p = [] then [] else [p]) @ list_paths s"
  by (simp add: list_paths_def split_on_char)

lemma list_loop_ops:
  assumes "list_loop h rd c = (Inr (), c')" and "ready c" and "as_props (c_state c) = props"
  shows "\<exists>ops. list_all2 (listed h props) (list_paths (fst rd)) ops \<and> for_each ops run_op c = (Inr (), c')"
  using assms
proof (induction h rd c rule: list_loop.induct)
  case (1 h rd c)
  obtain r rd1 where rd: "read_list_entry rd = (r, rd1)" by (cases "read_list_entry rd")
  with "1.prems"(1) obtain l where l: "r = Inr l" by (cases r) (auto simp: list_loop.simps [of h rd])
  show ?case
  proof (cases "l = []")
    case True
    have "fst rd = []"
      using rd l True by (auto simp: read_list_entry_def LIST_SEPARATOR_def Let_def read_until_empty PATH_MAX_def
          split: if_splits) (metis fst_conv read_until_empty surj_pair take_eq_Nil zero_neq_numeral)
    with "1.prems"(1) rd l True show ?thesis
      by (intro exI [of _ "[]"]) (auto simp: list_loop.simps [of h rd] list_paths_def)
  next
    case False
    with "1.prems"(1) rd l have short: "length l < PATH_MAX"
      by (auto simp: list_loop.simps [of h rd] not_less split: if_splits)
    let ?path = "if last l = LIST_SEPARATOR then butlast l else l"
    have paths: "list_paths (fst rd) = (if ?path = [] then [] else [?path]) @ list_paths (fst rd1)"
      using rd [unfolded l] False short
    proof (cases rule: read_list_entry_cases)
      case (line p)
      then show ?thesis by (simp add: LIST_SEPARATOR_def list_paths_line)
    next
      case rest
      then have "last l \<noteq> newline" using False last_in_set by metis
      with rest False show ?thesis by (simp add: LIST_SEPARATOR_def list_paths_def split_on_char)
    qed
    show ?thesis
    proof (cases "?path = []")
      case True
      with "1.prems"(1) rd l False short have "list_loop h rd1 c = (Inr (), c')"
        by (simp add: list_loop.simps [of h rd])
      from "1.IH"(1) [OF rd [symmetric] l False _ refl True this] short "1.prems"(2,3) paths True show ?thesis by auto
    next
      case pathy: False
      with "1.prems"(1) rd l False short obtain u where a: "archive_listed h ?path c = (Inr (), u)"
        and rest: "list_loop h rd1 u = (Inr (), c')"
        by (auto simp: list_loop.simps [of h rd] bindE_Inr_iff Let_def split: if_splits)
      from archive_listed_op [OF a "1.prems"(3)] obtain x where x: "listed h props ?path x" "run_op x c = (Inr (), u)" by blast
      have "ready u" "as_props (c_state u) = props"
        using op_archiver.stays_ready [OF x(2) "1.prems"(2)] op_archiver.props_kept [OF x(2) "1.prems"(2)] "1.prems"(3) by simp_all
      then obtain ops where "list_all2 (listed h props) (list_paths (fst rd1)) ops" "for_each ops run_op u = (Inr (), c')"
        using "1.IH"(2) [OF rd [symmetric] l False _ refl pathy rest] short by auto
      with x paths pathy show ?thesis by (intro exI [of _ "x # ops"]) simp
    qed
  qed
qed


lemma emit_out: "emit z c = (Inr (), c') \<Longrightarrow> w_buf (c_out c') = w_buf (c_out c) @ z"
  using wrote_emit by (fastforce simp: wrote_def)

lemma pad_mod: "0 < b \<Longrightarrow> (a + (b - a mod b) mod b) mod b = (0 :: nat)"
proof -
  assume "0 < b"
  then have "a mod b + (b - a mod b) = b" by simp
  then have "(a mod b + (b - a mod b)) mod b = 0" by simp
  then show ?thesis by (simp only: mod_add_left_eq mod_add_right_eq)
qed

lemma block_pad_Inr:
  assumes "block_pad off c = (Inr n, c')"
  shows "\<exists>k. w_buf (c_out c') = w_buf (c_out c) @ replicate k NUL \<and> n = off + of_nat k \<and> (unat off + k) mod 512 = 0"
proof -
  let ?p = "archive_padlen off 512"
  have p: "unat ?p = (512 - unat off mod 512) mod 512" using archive_padlen_pow2 [of 9 off] by simp
  have m: "(unat off + unat ?p) mod 512 = 0" unfolding p by (rule pad_mod) simp
  show ?thesis
  proof (cases "?p > 0")
    case True
    with assms have "emit (replicate (unat ?p) NUL) c = (Inr (), c')" "n = off + ?p"
      by (auto simp: block_pad_def Let_def seqE_Inr_iff)
    moreover have "w_buf (c_out c') = w_buf (c_out c) @ replicate (unat ?p) NUL"
      using \<open>emit (replicate (unat ?p) NUL) c = (Inr (), c')\<close> by (rule emit_out)
    ultimately show ?thesis using m by (intro exI [of _ "unat ?p"]) simp
  next
    case False
    then have "?p = 0" by (simp add: word_gt_0)
    with assms m show ?thesis by (intro exI [of _ 0]) (simp add: block_pad_def)
  qed
qed

text \<open>
  C10. A successful run of the archive loop of \<^verbatim>\<open>dracut-cpio\<close> has archived exactly the paths
  listed on its input, one per line and in order, empty lines skipped, each by its type and
  metadata, and appended them, the trailer and zeros to what the output held. The number it
  returns is the number of bytes appended, which is a multiple of the block length, and
  walking these bytes gives the operations back.
\<close>

theorem dracut_archive_loop:
  assumes "archive_loop h rd props w = (Inr n, c)" and "unat (namesize_max props) \<le> PATH_MAX"
  shows "\<exists>ops z u. list_all2 (listed h props) (list_paths (fst rd)) ops
    \<and> for_each ops run_op \<lparr>c_state = new_state props, c_out = w\<rparr> = (Inr (), u)
    \<and> w_buf (c_out c) = w_buf w @ z \<and> n = of_nat (length z) \<and> length z mod 512 = 0
    \<and> ((\<forall>x\<in>set ops. NUL \<notin> set (arch_name (op_path x)) \<and> arch_name (op_path x) \<noteq> trailer_name) \<longrightarrow>
        list_all2 reads_back ops (archive_walk (z, None)))"
proof -
  let ?c = "\<lparr>c_state = new_state props, c_out = w\<rparr>"
  from assms(1) obtain u off v where l: "list_loop h rd ?c = (Inr (), u)" and t: "archive_trailer u = (Inr off, v)"
    and b: "block_pad off v = (Inr n, c)"
    by (auto simp: archive_loop_def Let_def bindE_Inr_iff split: if_splits)
  have "ready ?c" "as_props (c_state ?c) = props" using assms(2) by (simp_all add: ready_def new_state_def)
  from list_loop_ops [OF l this] obtain ops where ops: "list_all2 (listed h props) (list_paths (fst rd)) ops"
    and run: "for_each ops run_op ?c = (Inr (), u)" by blast
  from archive_run_length [OF run t assms(2)] obtain z0 where z0: "w_buf (c_out v) = w_buf w @ z0" "off = of_nat (length z0)"
    by blast
  obtain k where k: "w_buf (c_out c) = w_buf (c_out v) @ replicate k NUL"
    "n = off + of_nat k" "(unat off + k) mod 512 = 0"
    using block_pad_Inr [OF b] by (elim exE conjE)
  have "(length z0 + k) mod 512 = 0"
  proof -
    have "unat off = length z0 mod 2 ^ 64" using z0(2) by (simp add: unat_of_nat take_bit_eq_mod)
    moreover have "length z0 mod 2 ^ 64 mod 512 = length z0 mod 512" by (rule mod_mod_cancel) simp
    ultimately have "(length z0 mod 512 + k) mod 512 = 0" using k(3) by (simp only: mod_add_left_eq [of "length z0 mod 2 ^ 64", symmetric])
    then show ?thesis by (simp only: mod_add_left_eq)
  qed
  moreover have "list_all2 reads_back ops (archive_walk (z0 @ replicate k NUL, None))"
    if "\<forall>x\<in>set ops. NUL \<notin> set (arch_name (op_path x)) \<and> arch_name (op_path x) \<noteq> trailer_name"
    using archive_run_walk [OF run t assms(2) that, of "replicate k NUL" None] z0 by auto
  ultimately show ?thesis
    using ops run z0 k by (intro exI [of _ ops] exI [of _ "z0 @ replicate k NUL"] exI [of _ u]) simp
qed


lemma dracut_sample:
  "case archive_loop (files_host [(''/f'', ''hi'')]) ([newline] @ ''/f'', None) default_props \<lparr>w_buf = ''old!'', w_room = None\<rparr> of
     (Inr n, c) \<Rightarrow> n = 512 | _ \<Rightarrow> False"
  by code_simp

theorem dracut_archive_loop_witness:
  "\<exists>n c ops z. archive_loop (files_host [(''/f'', ''hi'')]) ([newline] @ ''/f'', None) default_props \<lparr>w_buf = ''old!'', w_room = None\<rparr> = (Inr n, c)
    \<and> list_all2 (listed (files_host [(''/f'', ''hi'')]) default_props) (list_paths ([newline] @ ''/f'')) ops
    \<and> w_buf (c_out c) = ''old!'' @ z \<and> length z mod 512 = 0"
proof -
  obtain n c where r: "archive_loop (files_host [(''/f'', ''hi'')]) ([newline] @ ''/f'', None) default_props
      \<lparr>w_buf = ''old!'', w_room = None\<rparr> = (Inr n, c)"
    using dracut_sample by (auto split: prod.splits sum.splits)
  have "unat (namesize_max default_props) \<le> PATH_MAX" by (simp add: default_props_def PATH_MAX_def)
  from dracut_archive_loop [OF r this] r show ?thesis by auto
qed

section \<open>The alignment guard\<close>

lemma archive_file_panics:
  assumes "free c" and "path_trim_prefixes p = Inr f" and "md_mode md AND S_IFMT = S_IFREG"
    and "data_align_seek (c_state c) f md = das" and "0 < das"
    and "archive_padlen (as_off (c_state c) + of_nat NEWC_HDR_LEN + of_nat (length f) + (1 + ucast das)) 4 \<noteq> 0"
  shows "fst (archive_file p md rd c) = Inl (Panic ''assertion failed: archive_padlen(state.off + seek_len, 4) == 0'')"
  using assms by (simp add: archive_file_def step_simps name_zeros_def)

definition odd_props :: ArchiveProperties where
  \<comment> \<open>appending to a file of two bytes with \<^verbatim>\<open>--data-align 2\<close>\<close>
  "odd_props = default_props\<lparr>data_align := 2, initial_data_off := 2\<rparr>"

text \<open>
  The guard of \<^verbatim>\<open>dracut-cpio\<close> that the data alignment must be a multiple of 4 tests the sum of
  the alignment and the length of the existing output, not each of them: an alignment of 2 on
  an output of two bytes passes the guard, and then archiving a file whose name has an even
  length fails the assertion in the archive library, a panic.
\<close>

theorem dracut_align_guard_gap:
  "align_ok odd_props
    \<and> fst (archive_loop (files_host [(''ff'', ''hello'')]) (''ff'', None) odd_props \<lparr>w_buf = ''xx'', w_room = None\<rparr>)
      = Inl (Panic ''assertion failed: archive_padlen(state.off + seek_len, 4) == 0'')"
proof -
  let ?c = "\<lparr>c_state = new_state odd_props, c_out = \<lparr>w_buf = ''xx'', w_room = None\<rparr>\<rparr>"
  let ?h = "files_host [(''ff'', ''hello'')]"
  have ok: "align_ok odd_props" by code_simp
  have md: "ArchiveMd_from (new_state odd_props) (file_meta ''hello'') = Inr (sample_md 0x81A4 5)" by code_simp
  have reg: "md_mode (sample_md 0x81A4 5) AND S_IFMT = S_IFREG" by code_simp
  have das: "data_align_seek (new_state odd_props) ''ff'' (sample_md 0x81A4 5) = 1" by code_simp
  have pad: "archive_padlen (0 + of_nat NEWC_HDR_LEN + of_nat (length ''ff'') + (1 + ucast (1 :: u32))) 4 \<noteq> 0" by code_simp
  have trim: "path_trim_prefixes ''ff'' = Inr ''ff''" by code_simp
  have rd: "read_list_entry (''ff'', None) = (Inr ''ff'', [], None)" by code_simp
  have "fst (archive_file ''ff'' (sample_md 0x81A4 5) (''hello'', None) ?c)
      = Inl (Panic ''assertion failed: archive_padlen(state.off + seek_len, 4) == 0'')" (is "fst ?r = Inl ?e")
    using das pad by (intro archive_file_panics [OF _ trim reg, where das = "1 :: u32"]) (simp_all add: new_state_def)
  then obtain t where "?r = (Inl ?e, t)" by (cases ?r) simp
  moreover have "archive_listed ?h ''ff'' ?c = ?r" using md reg by (simp add: archive_listed_def files_host_def)
  ultimately have a: "archive_listed ?h ''ff'' ?c = (Inl ?e, t)" by simp
  have "list_loop ?h (''ff'', None) ?c = bindE (archive_listed ?h ''ff'') (\<lambda>_. list_loop ?h ([], None)) ?c"
    using rd by (simp add: list_loop.simps [of ?h "(''ff'', None)"] LIST_SEPARATOR_def newline_def PATH_MAX_def Let_def)
  with a have "list_loop ?h (''ff'', None) ?c = (Inl ?e, t)" by simp
  with ok show ?thesis by (simp add: archive_loop_def)
qed

section \<open>Listing an archive\<close>

definition ls_line :: "archive_op \<Rightarrow> bytes" where
  "ls_line x = pad_right 9 (fmt_dec (unat (md_len (op_md x)))) @ '' '' @ arch_name (op_path x) @ [newline]"

lemma ls_entry_ent_of:
  assumes "entry_wf e" and "NUL \<notin> set (e_name e)"
  shows "ls_entry (ent_of e) =
    (if utf8_valid (e_name e)
     then Inr (pad_right 9 (fmt_dec (unat (md_len (e_md e)))) @ '' '' @ e_name e @ [newline])
     else err InvalidData)"
proof -
  have "PATH_MAX + 1 - length (e_name e) = Suc (PATH_MAX - length (e_name e))"
    using assms(1) by (simp add: entry_wf_def e_namesize_def Suc_diff_le)
  then have n: "ae_name (ent_of e) = e_name e @ NUL # replicate (PATH_MAX - length (e_name e)) NUL"
    by (simp add: ent_of_def)
  have a: "byte_in 0 127 NUL" by (simp add: byte_in_def byte_val_def)
  have "split_once (\<lambda>c. c = NUL) (ae_name (ent_of e)) = Some (e_name e, replicate (PATH_MAX - length (e_name e)) NUL)"
    unfolding n using assms(2) by (intro split_once_first) auto
  moreover have "utf8_valid (ae_name (ent_of e)) = utf8_valid (e_name e)"
    unfolding n
  proof
    assume "utf8_valid (e_name e)"
    moreover have "utf8_valid (NUL # replicate m NUL)" for m using a by (intro utf8_valid_ascii) auto
    ultimately show "utf8_valid (e_name e @ NUL # replicate (PATH_MAX - length (e_name e)) NUL)"
      by (simp only: utf8_valid_append)
  qed (rule utf8_valid_ascii_end [OF a])
  ultimately show ?thesis by (simp add: ls_entry_def) (simp add: ent_of_def)
qed

lemma ls_loop_entries:
  assumes "list_all2 (\<lambda>x e. entry_wf e \<and> NUL \<notin> set (e_name e) \<and> e_md e = op_md x \<and> e_name e = arch_name (op_path x)) ops es"
  shows "ls_loop (map (\<lambda>e. Inr (ent_of e)) es) =
    (if \<forall>x\<in>set ops. utf8_valid (arch_name (op_path x)) then Inr () else err InvalidData,
     concat (map ls_line (takeWhile (\<lambda>x. utf8_valid (arch_name (op_path x))) ops)))"
  using assms
proof (induction ops es rule: list_all2_induct)
  case (Cons x ops e es)
  then have "ls_entry (ent_of e) =
      (if utf8_valid (arch_name (op_path x)) then Inr (ls_line x) else err InvalidData)"
    by (subst ls_entry_ent_of) (auto simp: ls_line_def)
  with Cons show ?case by simp
qed simp

text \<open>
  C38. \<^verbatim>\<open>lscpio\<close> on an archive that was written by any successful sequence of archiving operations
  and the trailer, whatever follows it, prints one line per operation, in order, with the
  length of its data and its name, up to the first name that is not UTF-8: it succeeds when
  there is none, and fails with \<^verbatim>\<open>InvalidData\<close> there otherwise (names that hold no nul and are
  not that of the trailer).
\<close>

theorem lscpio_lists:
  assumes "for_each ops run_op \<lparr>c_state = new_state props, c_out = w\<rparr> = (Inr (), c)"
    and "archive_trailer c = (Inr n, c')" and "unat (namesize_max props) \<le> PATH_MAX" and "w_buf w = []"
    and "\<forall>x\<in>set ops. NUL \<notin> set (arch_name (op_path x)) \<and> arch_name (op_path x) \<noteq> trailer_name"
    and "h_open h p = Inr (md, w_buf (c_out c') @ rest, k)"
  shows "lscpio_main h [p] =
    (if \<forall>x\<in>set ops. utf8_valid (arch_name (op_path x)) then Inr () else err InvalidData,
     concat (map ls_line (takeWhile (\<lambda>x. utf8_valid (arch_name (op_path x))) ops)))"
proof -
  obtain z es where z: "w_buf (c_out c') = w_buf w @ z" "\<forall>rest k. archive_walk (z @ rest, k) = map (\<lambda>e. Inr (ent_of e)) es"
    "list_all2 (\<lambda>x e. entry_wf e \<and> NUL \<notin> set (e_name e) \<and> e_md e = op_md x \<and> e_name e = arch_name (op_path x)) ops es"
    by (rule archive_run_entries [OF assms(1-3,5)])
  with ls_loop_entries [OF z(3)] assms(4,6) show ?thesis by (simp add: lscpio_main_def)
qed

theorem lscpio_lists_witness:
  "\<exists>z. lscpio_main (files_host [(''a'', z)]) [''a''] = (Inr (), concat (map ls_line sample_ops)) \<and> z \<noteq> []"
proof -
  let ?w = "\<lparr>w_buf = [], w_room = None\<rparr>"
  have names: "\<forall>x\<in>set sample_ops. NUL \<notin> set (arch_name (op_path x)) \<and> arch_name (op_path x) \<noteq> trailer_name"
    by (simp add: sample_ops_def arch_name_def sample_names trailer_name_def)
  have u: "\<forall>x\<in>set sample_ops. utf8_valid (arch_name (op_path x))"
    by (auto simp: sample_ops_def arch_name_def sample_names intro!: utf8_valid_ascii) (simp_all add: byte_in_def byte_val_def)
  obtain c n c' where r: "for_each sample_ops run_op \<lparr>c_state = new_state default_props, c_out = ?w\<rparr> = (Inr (), c)"
    and t: "archive_trailer c = (Inr n, c')"
    using archive_ops_run [OF _ _ sample_ok, of default_props ?w]
    by (auto simp: props_aligned_def default_props_def PATH_MAX_def)
  let ?z = "w_buf (c_out c')"
  have o: "h_open (files_host [(''a'', ?z)]) ''a'' = Inr (file_meta ?z, ?z @ [], None)" by (simp add: files_host_def)
  have tw: "takeWhile (\<lambda>x. utf8_valid (arch_name (op_path x))) sample_ops = sample_ops"
    using u by (simp add: takeWhile_eq_all_conv)
  have "lscpio_main (files_host [(''a'', ?z)]) [''a''] = (Inr (), concat (map ls_line sample_ops))"
    using lscpio_lists [OF r t _ _ names o, unfolded tw] u by (simp add: default_props_def PATH_MAX_def)
  moreover have "concat (map ls_line sample_ops) \<noteq> []" by (simp add: sample_ops_def ls_line_def)
  moreover have "lscpio_main (files_host [(''a'', [])]) [''a''] = (Inr (), [])"
    by (simp add: lscpio_main_def files_host_def archive_walk_unfold archive_next_def read_exact_def NEWC_HDR_LEN_def err_kind_def)
  ultimately show ?thesis by (metis prod.inject)
qed

end
