(* ===== verification/Vm.thy ===== *)
theory Vm
  imports Rapido_Lib Cpio_Walk Dracut_Cpio
begin

text \<open>
  The tool \<^verbatim>\<open>src/bin/rapido-vm.rs\<close>: it picks the first virtual machine number that is not
  running, reads the resources that the initramfs asks for and starts QEMU with a kernel
  command line that the init program in the initramfs parses. What the tool asks the host
  for beyond files are arguments: the output of \<^verbatim>\<open>stty size\<close>, the hash function of the
  standard library (whose algorithm is unspecified) and the outcome of spawning QEMU.
\<close>

section \<open>Running machines and MAC addresses\<close>

definition vm_is_running :: "host \<Rightarrow> bytes \<Rightarrow> bool res" where
  "vm_is_running h vm_pid_file =
    (case h_open h vm_pid_file of
       Inl k \<Rightarrow> if k = NotFound then Inr False else err k
     | Inr (_, f) \<Rightarrow>
       (case read_line f of
          (Inl e, _) \<Rightarrow> Inl e
        | (Inr l, _) \<Rightarrow>
          (let n = length l; pid = trim_end l in
           if n < 1 \<or> n > 16 \<or> from_str_radix 64 10 pid = None then err InvalidInput
           else (case h_lstat h (''/proc/'' @ pid) of
               Inl k \<Rightarrow> if k = NotFound then Inr False else err k
             | Inr _ \<Rightarrow> Inr True))))"

type_synonym hasher = "u64 \<Rightarrow> bytes \<Rightarrow> u64"

definition mac_byte :: "u64 \<Rightarrow> nat \<Rightarrow> bytes" where
  "mac_byte x k = '':'' @ fmt_hex 2 (unat (drop_bit k x AND 0xff))"

definition vm_mac_gen :: "hasher \<Rightarrow> u64 \<Rightarrow> bytes \<Rightarrow> bytes" where
  "vm_mac_gen hash vm_num vm_tap =
    (let x = hash vm_num vm_tap
     in ''b8'' @ mac_byte x 0 @ mac_byte x 8 @ mac_byte x 16 @ mac_byte x 24 @ mac_byte x 32)"

section \<open>Resources\<close>

record VmResources =
  vr_cpus :: u32
  vr_mem :: bytes
  vr_net :: bool

definition mem_ok :: "bytes \<Rightarrow> bool" where
  "mem_ok s =
    (case rsplit_once (\<lambda>c. c = CHR ''m'' \<or> c = CHR ''M'' \<or> c = CHR ''g'' \<or> c = CHR ''G'') s of
       None \<Rightarrow> from_str_radix 64 10 s \<noteq> None
     | Some (n, u) \<Rightarrow> from_str_radix 64 10 n \<noteq> None \<and> u = [])"

definition vm_resource_line_process :: "bytes \<Rightarrow> (VmResources, bool) eff" where
  "vm_resource_line_process line rscs =
    (case strip_prefix ''rapido-rsc/cpu/'' line of
       Some val \<Rightarrow>
         (if utf8_valid val then
            (case parse_u32 val of
               Some n \<Rightarrow> (Inr True, rscs\<lparr>vr_cpus := n\<rparr>)
             | None \<Rightarrow> (err InvalidData, rscs))
          else (err InvalidData, rscs))
     | None \<Rightarrow>
       (case strip_prefix ''rapido-rsc/mem/'' line of
          Some val \<Rightarrow>
            (if utf8_valid val \<and> mem_ok val then (Inr True, rscs\<lparr>vr_mem := val\<rparr>) else (err InvalidData, rscs))
        | None \<Rightarrow>
          if line = ''rapido-rsc/qemu/custom_args'' then (Inr True, rscs)
          else if line = ''rapido-rsc/net'' then (Inr True, rscs\<lparr>vr_net := True\<rparr>)
          else if starts_with ''rapido-rsc'' line then (Inr True, rscs)
          else (Inr False, rscs)))"

definition default_rscs :: VmResources where
  "default_rscs = \<lparr>vr_cpus = 2, vr_mem = ''512M'', vr_net = False\<rparr>"

fun resources_loop :: "ArchiveEnt res list \<Rightarrow> bool \<Rightarrow> VmResources \<Rightarrow> VmResources res" where
  "resources_loop [] in_rsc rscs = Inr rscs"
| "resources_loop (Inl e # items) in_rsc rscs = Inl e"
| "resources_loop (Inr ent # items) in_rsc rscs =
    (case vm_resource_line_process (take (unat (ae_namesize ent) - 1) (ae_name ent)) rscs of
       (Inl e, _) \<Rightarrow> Inl e
     | (Inr True, rscs1) \<Rightarrow> resources_loop items True rscs1
     | (Inr False, rscs1) \<Rightarrow> if in_rsc then Inr rscs1 else resources_loop items False rscs1)"

definition vm_resources_get :: "host \<Rightarrow> bytes \<Rightarrow> VmResources res" where
  "vm_resources_get h initramfs_img =
    bindR (os (h_open h initramfs_img)) (\<lambda>(_, f).
    resources_loop (archive_walk f) False default_rscs)"

section \<open>Kernel and architecture\<close>

record QemuArgs =
  qemu_bin :: bytes
  kernel_img :: bytes
  qa_console :: bytes
  qa_params :: "bytes list"

fun first_file :: "host \<Rightarrow> bytes list \<Rightarrow> bytes res" where
  "first_file h [] = err NotFound"
| "first_file h (p # ps) = (if is_file h p then Inr p else first_file h ps)"

definition ks_kernel_img :: "host \<Rightarrow> bytes option \<Rightarrow> bytes \<Rightarrow> bytes \<Rightarrow> bytes option \<Rightarrow> bytes res" where
  "ks_kernel_img h ksrc ks_relpath host_prefix krel =
    (let distro = (case krel of
         None \<Rightarrow> Inl (Panic ''called unwrap on a None value'')
       | Some rel \<Rightarrow>
         first_file h [''/boot/'' @ host_prefix @ ''-'' @ rel,
           ''/usr/lib/modules/'' @ rel @ ''/'' @ host_prefix, ''/boot/vmlinuz-'' @ rel])
     in case ksrc of
          Some ks \<Rightarrow> if ks \<noteq> [] then first_file h [ks @ ''/'' @ ks_relpath] else distro
        | None \<Rightarrow> distro)"

definition ok_lines :: "bytes res list \<Rightarrow> bytes list" where
  \<comment> \<open>\<^verbatim>\<open>lines().map_while(Result::ok)\<close>\<close>
  "ok_lines ls = map (\<lambda>r. case r of Inr l \<Rightarrow> l | Inl _ \<Rightarrow> []) (takeWhile (\<lambda>r. case r of Inr _ \<Rightarrow> True | Inl _ \<Rightarrow> False) ls)"

text \<open>Option, image below the kernel source, distribution image prefix, binary, console, extra parameters.\<close>

definition arch_table :: "(bytes \<times> bytes \<times> bytes \<times> bytes \<times> bytes \<times> bytes list) list" where
  "arch_table =
    [(''CONFIG_X86_64=y'', ''arch/x86/boot/bzImage'', ''vmlinuz'', ''qemu-system-x86_64'', ''ttyS0'', []),
     (''CONFIG_ARM64=y'', ''arch/arm64/boot/Image'', ''Image'', ''qemu-system-aarch64'', ''ttyAMA0'',
        [''-machine'', ''virt,gic-version=max'', ''-cpu'', ''max'']),
     (''CONFIG_PPC64=y'', ''arch/powerpc/boot/zimage'', ''vmlinux'', ''qemu-system-ppc64'', ''hvc0'', []),
     (''CONFIG_S390=y'', ''arch/s390/boot/bzImage'', ''bzImage'', ''qemu-system-s390x'', ''ttysclp0'', [])]"

fun arch_lines :: "host \<Rightarrow> bytes option \<Rightarrow> bytes option \<Rightarrow> bytes list \<Rightarrow> bytes list \<Rightarrow> QemuArgs res" where
  "arch_lines h ksrc krel params [] = err Unsupported"
| "arch_lines h ksrc krel params (line # ls) =
    (case map_of arch_table line of
       None \<Rightarrow> arch_lines h ksrc krel params ls
     | Some (relpath, pfx, bin, cons, extra) \<Rightarrow>
       bindR (ks_kernel_img h ksrc relpath pfx krel) (\<lambda>img.
       Inr \<lparr>qemu_bin = bin, kernel_img = img, qa_console = cons, qa_params = params @ extra\<rparr>))"

definition kconfig_open :: "host \<Rightarrow> conf \<Rightarrow> (reader \<times> bytes option) res" where
  "kconfig_open h conf =
    (let distro =
       bindR (case conf ''KERNEL_RELEASE'' of Some rel \<Rightarrow> Inr rel | None \<Rightarrow> host_kernel_vers h) (\<lambda>krel.
       case h_open h (''/boot/config-'' @ krel) of
         Inr (_, f) \<Rightarrow> Inr (f, Some krel)
       | Inl _ \<Rightarrow> bindR (os (h_open h (''/usr/lib/modules/'' @ krel @ ''/config''))) (\<lambda>(_, f). Inr (f, Some krel)))
     in case conf ''KERNEL_SRC'' of
          Some ks \<Rightarrow>
            if ks \<noteq> [] then bindR (os (h_open h (ks @ ''/.config''))) (\<lambda>(_, f). Inr (f, None)) else distro
        | None \<Rightarrow> distro)"

definition vm_qemu_args_get :: "host \<Rightarrow> conf \<Rightarrow> QemuArgs res" where
  "vm_qemu_args_get h conf =
    bindR (kconfig_open h conf) (\<lambda>(kconfig_f, krel).
    let params = (case h_lstat h ''/dev/kvm'' of
                    Inr md \<Rightarrow> if st_mode md AND S_IFMT = S_IFCHR then [''-machine'', ''accel=kvm''] else []
                  | Inl _ \<Rightarrow> [])
    in arch_lines h (conf ''KERNEL_SRC'') krel params (ok_lines (lines_of kconfig_f)))"

section \<open>The kernel command line and QEMU parameters\<close>

definition is_digit :: "byte \<Rightarrow> bool" where
  "is_digit c \<longleftrightarrow> byte_in 48 57 c"

definition host_stty_size :: "bytes option \<Rightarrow> bytes \<Rightarrow> bytes \<Rightarrow> bytes" where
  \<comment> \<open>the output of a successful \<^verbatim>\<open>stty size\<close>, the command line so far and the parameter to append\<close>
  "host_stty_size out kcmdline kparam =
    (case out of
       None \<Rightarrow> kcmdline
     | Some o1 \<Rightarrow>
       (case split_on (\<lambda>c. \<not> is_digit c) o1 of
          rows # cols # _ \<Rightarrow>
            if length rows < 1 \<or> length cols < 1 then kcmdline
            else kcmdline @ kparam @ rows @ '','' @ cols
        | _ \<Rightarrow> kcmdline))"

definition kcmdline_base :: "bytes \<Rightarrow> nat \<Rightarrow> bytes" where
  "kcmdline_base cons vm_num =
    ''rdinit=/rdinit console='' @ cons @ '' rapido.vm_num='' @ fmt_dec vm_num
    @ '' systemd.machine_id='' @ fmt_hex 32 vm_num"

definition tun_flags :: "host \<Rightarrow> bytes \<Rightarrow> nat option res" where
  \<comment> \<open>\<^const>\<open>None\<close>: the device is skipped\<close>
  "tun_flags h vm_tap =
    (let tp = path_join (path_join ''/sys/class/net/'' vm_tap) ''tun_flags'' in
     case fs_read h tp of
       Inl _ \<Rightarrow> Inr None
     | Inr flags \<Rightarrow>
       if \<not> utf8_valid flags then Inr None
       else (case strip_prefix ''0x'' flags of
           None \<Rightarrow> err InvalidData
         | Some s \<Rightarrow>
           (case from_str_radix 64 16 (trim_end s) of None \<Rightarrow> err InvalidData | Some v \<Rightarrow> Inr (Some v))))"

definition tap_of :: "bytes \<Rightarrow> bytes option" where
  \<comment> \<open>the stem of a \<^verbatim>\<open>.network\<close> file\<close>
  "tap_of path =
    (if extension path = Some ''network''
     then (case file_stem path of Some t \<Rightarrow> if utf8_valid t then Some t else None | None \<Rightarrow> None)
     else None)"

record net_acc =
  na_cmdline :: bytes
  na_params :: "bytes list"
  na_count :: nat

definition net_entry :: "host \<Rightarrow> hasher \<Rightarrow> nat \<Rightarrow> bytes \<Rightarrow> net_acc \<Rightarrow> net_acc res" where
  "net_entry h hash vm_num path acc =
    (case tap_of path of
       None \<Rightarrow> Inr acc
     | Some vm_tap \<Rightarrow>
       bindR (tun_flags h vm_tap) (\<lambda>fl. case fl of
         None \<Rightarrow> Inr acc
       | Some flags \<Rightarrow>
         if and flags 2 \<noteq> 2 then Inr acc
         else
           (let tap_mac = vm_mac_gen hash (of_nat vm_num) vm_tap; i = fmt_dec (na_count acc) in
            Inr \<lparr>na_cmdline = na_cmdline acc @ '' rapido.mac.'' @ vm_tap @ ''='' @ tap_mac,
                 na_params = na_params acc @
                   [''-device'', ''virtio-net,netdev=if'' @ i @ '',mac='' @ tap_mac @ '',romfile='',
                    ''-netdev'', ''tap,id=if'' @ i @ '',script=no,downscript=no,ifname='' @ vm_tap],
                 na_count = na_count acc + 1\<rparr>)))"

fun net_entries :: "host \<Rightarrow> hasher \<Rightarrow> nat \<Rightarrow> bytes \<Rightarrow> (error_kind + bytes) list \<Rightarrow> net_acc \<Rightarrow> net_acc res" where
  "net_entries h hash vm_num dir [] acc = Inr acc"
| "net_entries h hash vm_num dir (x # xs) acc =
    bindR (os x) (\<lambda>name.
    bindR (net_entry h hash vm_num (path_join dir name) acc) (\<lambda>acc1.
    net_entries h hash vm_num dir xs acc1))"

definition vm_net :: "host \<Rightarrow> hasher \<Rightarrow> nat \<Rightarrow> bytes \<Rightarrow> bool \<Rightarrow> bytes \<Rightarrow> net_acc res" where
  "vm_net h hash vm_num net_conf_dir net kcmdline =
    (if \<not> net then Inr \<lparr>na_cmdline = kcmdline, na_params = [], na_count = 0\<rparr>
     else
       bindR (os (h_readdir h net_conf_dir)) (\<lambda>es.
       net_entries h hash vm_num net_conf_dir es
         \<lparr>na_cmdline = kcmdline @ '' net.ifnames=0'', na_params = [], na_count = 0\<rparr>))"

definition hostname_param :: "host \<Rightarrow> bytes \<Rightarrow> bytes res" where
  "hostname_param h net_conf_dir =
    (case read_to_string h (net_conf_dir @ ''/hostname'') of
       Inl e \<Rightarrow> if err_kind e = Some NotFound then Inr [] else Inl e
     | Inr hn \<Rightarrow> Inr ('' rapido.hostname='' @ trim_end hn))"

definition vm_params :: "QemuArgs \<Rightarrow> VmResources \<Rightarrow> bytes \<Rightarrow> bytes \<Rightarrow> conf \<Rightarrow> net_acc \<Rightarrow> bytes list" where
  "vm_params qa rscs initramfs_img vm_pid_file conf net =
    (let cpus = fmt_dec (unat (vr_cpus rscs));
         kcmdline = na_cmdline net
           @ (case conf ''QEMU_EXTRA_KERNEL_PARAMS'' of Some kp \<Rightarrow> '' '' @ kp | None \<Rightarrow> [])
     in qa_params qa
        @ [''-smp'', cpus @ '',sockets='' @ cpus @ '',cores=1,threads=1'', ''-m'', vr_mem rscs,
           ''-kernel'', kernel_img qa, ''-initrd'', initramfs_img, ''-pidfile'', vm_pid_file]
        @ (if \<not> vr_net rscs then [''-net'', ''none''] else [])
        @ [''-append'', kcmdline]
        @ (case conf ''VIRTFS_SHARE_PATH'' of
             Some vsp \<Rightarrow> [''-virtfs'', ''local,path='' @ vsp @ '',mount_tag=host0,security_model=mapped,id=host0'']
           | None \<Rightarrow> [])
        @ (case conf ''QEMU_EXTRA_ARGS'' of
             Some qea \<Rightarrow> split_on (\<lambda>c. c = CHR '' '' \<or> c = newline) qea
           | None \<Rightarrow> [])
        @ na_params net)"

definition vm_command :: "host \<Rightarrow> bytes option \<Rightarrow> hasher \<Rightarrow> nat \<Rightarrow> bytes \<Rightarrow> bytes \<Rightarrow> conf \<Rightarrow> (bytes \<times> bytes list) res" where
  "vm_command h stty hash vm_num vm_pid_file initramfs_img conf =
    bindR (vm_qemu_args_get h conf) (\<lambda>qa.
    let kcmdline0 = host_stty_size stty (kcmdline_base (qa_console qa) vm_num) '' rapido.stty='' in
    case conf ''VM_NET_CONF'' of
      None \<Rightarrow> Inl (Panic ''VM_NET_CONF not set'')
    | Some vnc \<Rightarrow>
      (let net_conf_dir = vnc @ ''/vm'' @ fmt_dec vm_num in
       bindR (hostname_param h net_conf_dir) (\<lambda>hn.
       bindR (vm_resources_get h initramfs_img) (\<lambda>rscs.
       bindR (vm_net h hash vm_num net_conf_dir (vr_net rscs) (kcmdline0 @ hn)) (\<lambda>net.
       Inr (qemu_bin qa, vm_params qa rscs initramfs_img vm_pid_file conf net))))))"

text \<open>The outcome of QEMU: it could not be started, waiting failed, or it ended.\<close>

type_synonym spawner = "bytes \<Rightarrow> bytes list \<Rightarrow> error_kind + (error_kind + bool)"

definition vm_start :: "spawner \<Rightarrow> host \<Rightarrow> bytes option \<Rightarrow> hasher \<Rightarrow> nat \<Rightarrow> bytes \<Rightarrow> bytes \<Rightarrow> conf \<Rightarrow> unit res" where
  "vm_start spawn h stty hash vm_num vm_pid_file initramfs_img conf =
    bindR (vm_command h stty hash vm_num vm_pid_file initramfs_img conf) (\<lambda>(bin, params).
    case spawn bin params of
      Inl k \<Rightarrow> err k
    | Inr (Inl _) \<Rightarrow> err BrokenPipe
    | Inr (Inr _) \<Rightarrow> Inr ())"

section \<open>Main\<close>

definition pid_file :: "bytes \<Rightarrow> nat \<Rightarrow> bytes" where
  "pid_file pid_dir vm_num = pid_dir @ ''/rapido_vm'' @ fmt_dec vm_num @ ''.pid''"

fun vm_pick :: "host \<Rightarrow> bytes \<Rightarrow> nat list \<Rightarrow> nat option res" where
  \<comment> \<open>the first number whose machine is not running\<close>
  "vm_pick h pid_dir [] = Inr None"
| "vm_pick h pid_dir (n # ns) =
    bindR (vm_is_running h (pid_file pid_dir n)) (\<lambda>b. if b then vm_pick h pid_dir ns else Inr (Some n))"

definition vm_conf :: "host \<Rightarrow> conf res" where
  "vm_conf h =
    (case host_rapido_conf_open h RAPIDO_CONF_PATH of
       Inl e \<Rightarrow> if err_kind e = Some NotFound then Inr conf_defaults else Inl e
     | Inr ((_, f), _) \<Rightarrow>
       (case kv_conf_process_append f conf_defaults of (Inl e, _) \<Rightarrow> Inl e | (Inr _, c) \<Rightarrow> Inr c))"

definition vm_main :: "spawner \<Rightarrow> host \<Rightarrow> bytes option \<Rightarrow> hasher \<Rightarrow> unit res" where
  "vm_main spawn h stty hash =
    bindR (vm_conf h) (\<lambda>conf.
    case (conf ''QEMU_PID_DIR'', conf ''DRACUT_OUT'') of
      (Some pid_dir, Some img) \<Rightarrow>
        bindR (vm_pick h pid_dir [1..<1000]) (\<lambda>n. case n of
          None \<Rightarrow> Inr ()
        | Some vm_num \<Rightarrow> vm_start spawn h stty hash vm_num (pid_file pid_dir vm_num) img conf)
    | _ \<Rightarrow> Inl (Panic ''called unwrap on a None value''))"

end
