(* ===== verification/Vm_Run.thy ===== *)
theory Vm_Run
  imports Vm
begin

text \<open>
  What \<^verbatim>\<open>rapido-vm\<close> guarantees: which machine it starts, that leaving the walk over the
  initramfs early loses nothing, and the addresses it gives to network devices.
\<close>

section \<open>Picking a machine\<close>

lemma vm_pick_free:
  assumes "i \<le> n" and "n < k" and "vm_is_running h (pid_file d n) = Inr False"
    and "\<forall>m\<in>{i..<n}. vm_is_running h (pid_file d m) = Inr True"
  shows "vm_pick h d [i..<k] = Inr (Some n)"
proof -
  have "vm_pick h d (xs @ n # ys) = Inr (Some n)" if "\<forall>m\<in>set xs. vm_is_running h (pid_file d m) = Inr True" for xs ys
    using that assms(3) by (induction xs) auto
  moreover have "[i..<k] = [i..<n] @ n # [Suc n..<k]"
    using assms(1,2) by (metis append_assoc append_Cons append_Nil le_add_diff_inverse less_imp_le_nat upt_add_eq_append upt_conv_Cons)
  ultimately show ?thesis using assms(4) by simp
qed

lemma vm_pick_all_up:
  "\<forall>m\<in>set ns. vm_is_running h (pid_file d m) = Inr True \<Longrightarrow> vm_pick h d ns = Inr None"
  by (induction ns) auto

lemma vm_conf_keys:
  assumes "vm_conf h = Inr conf"
    and "k \<in> {''DRACUT_OUT'', ''QEMU_PID_DIR'', ''VM_NET_CONF'', ''QEMU_EXTRA_ARGS''}"
  shows "\<exists>v. conf k = Some v"
proof (cases "host_rapido_conf_open h RAPIDO_CONF_PATH")
  case (Inl e)
  with assms show ?thesis by (auto simp: vm_conf_def conf_defaults_def split: if_splits)
next
  case (Inr x)
  then obtain md f p where x: "x = ((md, f), p)" by (cases x) auto
  obtain r c where a: "kv_conf_process_append f conf_defaults = (r, c)" by fastforce
  with Inr x assms(1) have "c = conf" by (auto simp: vm_conf_def split: sum.splits)
  with conf_defaults_kept [OF a assms(2)] show ?thesis by simp
qed

text \<open>
  C35. The machine that \<^verbatim>\<open>rapido-vm\<close> starts is the one with the least number whose pid file
  names no running process, when no pid file before it is faulty; a configuration read without error holds the keys that \<^verbatim>\<open>main\<close>
  unwraps. When all 999 machines run, it ends with success and starts none.
\<close>

theorem vm_main_first_free:
  assumes "vm_conf h = Inr conf"
  shows "\<exists>pid_dir img. conf ''QEMU_PID_DIR'' = Some pid_dir \<and> conf ''DRACUT_OUT'' = Some img
    \<and> (\<forall>n. 1 \<le> n \<and> n < 1000 \<and> vm_is_running h (pid_file pid_dir n) = Inr False
          \<and> (\<forall>m\<in>{1..<n}. vm_is_running h (pid_file pid_dir m) = Inr True) \<longrightarrow>
          vm_main spawn h stty hash = vm_start spawn h stty hash n (pid_file pid_dir n) img conf)
    \<and> ((\<forall>m\<in>{1..<1000}. vm_is_running h (pid_file pid_dir m) = Inr True) \<longrightarrow>
          vm_main spawn h stty hash = Inr ())"
proof -
  obtain pid_dir img where k: "conf ''QEMU_PID_DIR'' = Some pid_dir" "conf ''DRACUT_OUT'' = Some img"
    using vm_conf_keys [OF assms] by (meson insertCI)
  then have main: "vm_main spawn h stty hash = bindR (vm_pick h pid_dir [1..<1000]) (\<lambda>n. case n of
      None \<Rightarrow> Inr () | Some vm_num \<Rightarrow> vm_start spawn h stty hash vm_num (pid_file pid_dir vm_num) img conf)"
    by (simp add: vm_main_def assms)
  have free: "vm_main spawn h stty hash = vm_start spawn h stty hash n (pid_file pid_dir n) img conf"
    if "1 \<le> n \<and> n < 1000 \<and> vm_is_running h (pid_file pid_dir n) = Inr False
          \<and> (\<forall>m\<in>{1..<n}. vm_is_running h (pid_file pid_dir m) = Inr True)" for n
    using vm_pick_free [of 1 n 1000 h pid_dir] that main by simp
  have "vm_main spawn h stty hash = Inr ()" if "\<forall>m\<in>{1..<1000}. vm_is_running h (pid_file pid_dir m) = Inr True"
    using vm_pick_all_up [of "[1..<1000]" h pid_dir] that main by simp
  with free k show ?thesis by blast
qed

theorem vm_main_first_free_witness:
  "vm_main (\<lambda>_ _. Inr (Inr True)) (files_host []) None (\<lambda>_ _. 0)
    = vm_start (\<lambda>_ _. Inr (Inr True)) (files_host []) None (\<lambda>_ _. 0) 1 ''initrds/rapido_vm1.pid'' ''initrds/myinitrd'' conf_defaults"
proof -
  have c: "vm_conf (files_host []) = Inr conf_defaults"
    by (simp add: vm_conf_def host_rapido_conf_open_def files_host_def os_def RAPIDO_CONF_PATH_def err_kind_def)
  have d: "conf_defaults ''QEMU_PID_DIR'' = Some ''initrds''" "conf_defaults ''DRACUT_OUT'' = Some ''initrds/myinitrd''"
    by (simp_all add: conf_defaults_def RAPIDO_QEMU_PID_DIR_def RAPIDO_DRACUT_OUT_def)
  have p: "pid_file ''initrds'' 1 = ''initrds/rapido_vm1.pid''" by code_simp
  have r: "vm_is_running (files_host []) (pid_file ''initrds'' 1) = Inr False"
    by (simp add: vm_is_running_def files_host_def)
  from vm_main_first_free [OF c] d obtain P Q where
    "\<forall>n. 1 \<le> n \<and> n < 1000 \<and> vm_is_running (files_host []) (pid_file ''initrds'' n) = Inr False
          \<and> (\<forall>m\<in>{1..<n}. vm_is_running (files_host []) (pid_file ''initrds'' m) = Inr True) \<longrightarrow>
          vm_main (\<lambda>_ _. Inr (Inr True)) (files_host []) None (\<lambda>_ _. 0)
    = vm_start (\<lambda>_ _. Inr (Inr True)) (files_host []) None (\<lambda>_ _. 0) n (pid_file ''initrds'' n) ''initrds/myinitrd'' conf_defaults"
    by fastforce
  from this [rule_format, of 1] r p show ?thesis by simp
qed

section \<open>Resources\<close>

definition rsc_line :: "ArchiveEnt \<Rightarrow> bytes" where
  "rsc_line ent = take (unat (ae_namesize ent) - 1) (ae_name ent)"

definition in_rsc :: "bytes \<Rightarrow> bool" where
  "in_rsc line \<longleftrightarrow> starts_with ''rapido-rsc'' line"

fun resources_scan :: "ArchiveEnt res list \<Rightarrow> VmResources \<Rightarrow> VmResources res" where
  \<comment> \<open>the reference: every entry of the archive is looked at\<close>
  "resources_scan [] rscs = Inr rscs"
| "resources_scan (Inl e # items) rscs = Inl e"
| "resources_scan (Inr ent # items) rscs =
    (case vm_resource_line_process (rsc_line ent) rscs of
       (Inl e, _) \<Rightarrow> Inl e
     | (Inr _, rscs1) \<Rightarrow> resources_scan items rscs1)"

definition plain_item :: "ArchiveEnt res \<Rightarrow> bool" where
  "plain_item item \<longleftrightarrow> (\<exists>ent. item = Inr ent \<and> \<not> in_rsc (rsc_line ent))"

definition rsc_item :: "ArchiveEnt res \<Rightarrow> bool" where
  "rsc_item item \<longleftrightarrow> (\<exists>ent. item = Inr ent \<and> in_rsc (rsc_line ent))"

lemma starts_with_longer: "starts_with (p @ q) s \<Longrightarrow> starts_with p s"
  by (metis append.assoc append_take_drop_id starts_with_def append_eq_conv_conj)

lemma rsc_prefixes:
  "starts_with ''rapido-rsc/cpu/'' line \<Longrightarrow> in_rsc line"
  "starts_with ''rapido-rsc/mem/'' line \<Longrightarrow> in_rsc line"
  "in_rsc ''rapido-rsc/net''" "in_rsc ''rapido-rsc/qemu/custom_args''"
  using starts_with_longer [of "''rapido-rsc''" "''/cpu/''" line] starts_with_longer [of "''rapido-rsc''" "''/mem/''" line]
  by (simp_all add: in_rsc_def) (simp_all add: starts_with_def)

lemma line_process_in_rsc: "vm_resource_line_process line r = (Inr b, r1) \<Longrightarrow> b = in_rsc line"
proof -
  assume p: "vm_resource_line_process line r = (Inr b, r1)"
  show ?thesis
  proof (cases "starts_with ''rapido-rsc/cpu/'' line \<or> starts_with ''rapido-rsc/mem/'' line")
    case True
    then have "in_rsc line" using rsc_prefixes(1,2) by blast
    with p True show ?thesis
      by (simp add: vm_resource_line_process_def strip_prefix_def split: if_splits option.splits)
  next
    case False
    with p show ?thesis
      by (simp add: vm_resource_line_process_def strip_prefix_def split: if_splits)
        (simp_all add: in_rsc_def starts_with_def)
  qed
qed

lemma line_process_out:
  assumes "\<not> in_rsc line"
  shows "vm_resource_line_process line r = (Inr False, r)"
proof -
  from assms rsc_prefixes have "\<not> starts_with ''rapido-rsc/cpu/'' line" "\<not> starts_with ''rapido-rsc/mem/'' line"
    "line \<noteq> ''rapido-rsc/net''" "line \<noteq> ''rapido-rsc/qemu/custom_args''" by blast+
  with assms show ?thesis by (simp add: vm_resource_line_process_def strip_prefix_def in_rsc_def)
qed

lemma loop_ent:
  "resources_loop (Inr ent # items) b r =
    (case vm_resource_line_process (rsc_line ent) r of
       (Inl e, _) \<Rightarrow> Inl e
     | (Inr True, rscs1) \<Rightarrow> resources_loop items True rscs1
     | (Inr False, rscs1) \<Rightarrow> if b then Inr rscs1 else resources_loop items False rscs1)"
  by (simp add: rsc_line_def)

lemmas loop_simps = resources_loop.simps(1,2) loop_ent
declare resources_loop.simps [simp del] loop_simps [simp]

lemma scan_plain: "list_all plain_item items \<Longrightarrow> resources_scan items r = Inr r"
  by (induction items) (auto simp: plain_item_def line_process_out)

lemma loop_plain: "list_all plain_item items \<Longrightarrow> resources_loop items b r = Inr r"
  by (induction items arbitrary: b) (auto simp: plain_item_def line_process_out)

lemma loop_rsc:
  assumes "list_all rsc_item xs" and "list_all plain_item ys"
  shows "resources_loop (xs @ ys) b r = resources_scan (xs @ ys) r"
  using assms(1)
proof (induction xs arbitrary: b r)
  case Nil
  with assms(2) show ?case by (simp add: loop_plain scan_plain)
next
  case (Cons x xs)
  then obtain ent where x: "x = Inr ent" "in_rsc (rsc_line ent)" by (auto simp: rsc_item_def)
  obtain z r1 where p: "vm_resource_line_process (rsc_line ent) r = (z, r1)" by fastforce
  with line_process_in_rsc [of "rsc_line ent" r _ r1] x(2) have "z \<noteq> Inr False" by auto
  with p x Cons show ?case by (cases z) (auto)
qed

text \<open>
  Leaving the loop over the initramfs at the first entry after the resource entries does
  not change what \<^verbatim>\<open>rapido-vm\<close> reads: when the resource entries stand together, as the comment
  demands, the result, errors included, is that of looking at every entry of the archive.
\<close>

theorem resources_early_break:
  assumes "list_all plain_item pre" and "list_all rsc_item xs" and "list_all plain_item post"
  shows "resources_loop (pre @ xs @ post) False rscs = resources_scan (pre @ xs @ post) rscs"
  using assms(1)
proof (induction pre)
  case Nil
  with loop_rsc [OF assms(2,3)] show ?case by simp
qed (auto simp: plain_item_def line_process_out)

definition sample_ent :: "bytes \<Rightarrow> ArchiveEnt" where
  "sample_ent n = \<lparr>ae_md = sample_md 0x81A4 0, ae_namesize = of_nat (length n) + 1, ae_name = n @ [NUL]\<rparr>"

theorem resources_early_break_witness:
  "resources_loop (map (Inr \<circ> sample_ent) [''rapido.conf'', ''rapido-rsc'', ''rapido-rsc/cpu'', ''rapido-rsc/cpu/8'', ''bin''])
      False default_rscs = Inr (default_rscs\<lparr>vr_cpus := 8\<rparr>)
    \<and> resources_scan (map (Inr \<circ> sample_ent) [''rapido.conf'', ''rapido-rsc'', ''rapido-rsc/cpu'', ''rapido-rsc/cpu/8'', ''bin''])
      default_rscs = Inr (default_rscs\<lparr>vr_cpus := 8\<rparr>)"
proof -
  let ?e = "Inr \<circ> sample_ent"
  have n: "rsc_line (sample_ent ''rapido.conf'') = ''rapido.conf''" "rsc_line (sample_ent ''rapido-rsc'') = ''rapido-rsc''"
    "rsc_line (sample_ent ''rapido-rsc/cpu'') = ''rapido-rsc/cpu''" "rsc_line (sample_ent ''rapido-rsc/cpu/8'') = ''rapido-rsc/cpu/8''"
    "rsc_line (sample_ent ''bin'') = ''bin''" by code_simp+
  have p: "list_all plain_item [?e ''rapido.conf'']" "list_all plain_item [?e ''bin'']"
    "list_all rsc_item [?e ''rapido-rsc'', ?e ''rapido-rsc/cpu'', ?e ''rapido-rsc/cpu/8'']"
    by (simp_all add: plain_item_def rsc_item_def n in_rsc_def starts_with_def)
  have l: "vm_resource_line_process ''rapido.conf'' r = (Inr False, r)" "vm_resource_line_process ''rapido-rsc'' r = (Inr True, r)"
    "vm_resource_line_process ''rapido-rsc/cpu'' r = (Inr True, r)" "vm_resource_line_process ''bin'' r = (Inr False, r)" for r
    by (simp_all add: vm_resource_line_process_def strip_prefix_def starts_with_def)
  have "utf8_valid ''8''" by code_simp
  moreover have "parse_u32 ''8'' = Some 8"
    by (simp add: parse_u32_def from_str_radix_def strip_plus_def digit_of_def byte_val_def Let_def)
  ultimately have "vm_resource_line_process ''rapido-rsc/cpu/8'' r = (Inr True, r\<lparr>vr_cpus := 8\<rparr>)" for r
    by (simp add: vm_resource_line_process_def strip_prefix_def starts_with_def)
  then have "resources_loop (map ?e [''rapido.conf'', ''rapido-rsc'', ''rapido-rsc/cpu'', ''rapido-rsc/cpu/8'', ''bin''])
      False default_rscs = Inr (default_rscs\<lparr>vr_cpus := 8\<rparr>)" by (simp add: n l)
  with resources_early_break [OF p(1,3,2), of default_rscs] show ?thesis by simp
qed


section \<open>MAC addresses\<close>

lemma fmt_hex_byte:
  assumes "v < 256"
  shows "length (fmt_hex 2 v) = 2" and "parse_digits 16 0 (fmt_hex 2 v) = Some v"
proof -
  have "length (nat_digits 16 v) \<le> 2" using nat_digits_length [of 16 v 1] assms by simp
  then show "length (fmt_hex 2 v) = 2" by (simp add: fmt_hex_def pad0_def)
  have "parse_digits 16 0 (fmt_hex 2 v) = parse_digits 16 0 (map digit_char (nat_digits 16 v))"
    unfolding fmt_hex_def pad0_def
    by (rule parse_digits_zeros) (simp add: digit_of_def byte_val_def Let_def)
  also have "\<dots> = Some v" by (rule parse_digits_nat_digits) (simp_all add: digit_of_digit_char)
  finally show "parse_digits 16 0 (fmt_hex 2 v) = Some v" .
qed

lemma octet_take_bit: "(x::u64) AND 0xff = take_bit 8 x"
  by (simp add: take_bit_eq_mask mask_eq_exp_minus_1)

lemma mac_octet_less: "unat (drop_bit k (x::u64) AND 0xff) < 256"
proof -
  have "unat (take_bit 8 (drop_bit k x)) < 2 ^ 8"
    unfolding unsigned_take_bit_eq by (rule take_bit_nat_less_exp)
  then show ?thesis by (simp only: octet_take_bit) simp
qed

lemma mac_byte_length: "length (mac_byte x k) = 3"
  by (simp add: mac_byte_def fmt_hex_byte mac_octet_less)

lemma mac_byte_eq_iff: "mac_byte x k = mac_byte y k \<longleftrightarrow> take_bit 8 (drop_bit k x) = take_bit 8 (drop_bit k y)"
proof -
  have "mac_byte x k = mac_byte y k \<longleftrightarrow> unat (drop_bit k x AND 0xff) = unat (drop_bit k y AND 0xff)"
    using fmt_hex_byte(2) [OF mac_octet_less [of k x]] fmt_hex_byte(2) [OF mac_octet_less [of k y]]
    unfolding mac_byte_def by (metis option.inject append_same_eq same_append_eq)
  then show ?thesis unfolding octet_take_bit by (simp add: word_unat_eq_iff)
qed

lemma all_octets: "(\<forall>j<5. P (8 * j)) \<longleftrightarrow> P 0 \<and> P 8 \<and> P 16 \<and> P 24 \<and> P (32::nat)"
proof -
  have "{..<5} = {0, 1, 2, 3, 4::nat}" by auto
  then have "(\<forall>j\<in>{..<5}. P (8 * j)) \<longleftrightarrow> P 0 \<and> P 8 \<and> P 16 \<and> P 24 \<and> P (32::nat)" by simp
  then show ?thesis unfolding Ball_def lessThan_iff .
qed

lemma take_bit_octets:
  fixes x y :: u64
  shows "take_bit 40 x = take_bit 40 y \<longleftrightarrow>
    (\<forall>j<5. take_bit 8 (drop_bit (8 * j) x) = take_bit 8 (drop_bit (8 * j) y))" (is "?l \<longleftrightarrow> ?r")
proof
  assume l: ?l
  show ?r
  proof (intro allI impI bit_eqI)
    fix j i assume "j < (5::nat)"
    then have "bit x (8 * j + i) = bit y (8 * j + i)" if "i < 8"
      using arg_cong [OF l, of "\<lambda>w. bit w (8 * j + i)"] that by (simp add: bit_take_bit_iff)
    then show "bit (take_bit 8 (drop_bit (8 * j) x)) i = bit (take_bit 8 (drop_bit (8 * j) y)) i"
      by (auto simp: bit_take_bit_iff bit_drop_bit_eq)
  qed
next
  assume r: ?r
  show ?l
  proof (rule bit_eqI)
    fix n
    have "bit x n = bit y n" if "n < 40"
    proof -
      have "bit (take_bit 8 (drop_bit (8 * (n div 8)) x)) (n mod 8) = bit (take_bit 8 (drop_bit (8 * (n div 8)) y)) (n mod 8)"
        using r that by (simp add: less_mult_imp_div_less)
      then show ?thesis by (simp add: bit_take_bit_iff bit_drop_bit_eq)
    qed
    then show "bit (take_bit 40 x) n = bit (take_bit 40 y) n" by (auto simp: bit_take_bit_iff)
  qed
qed

text \<open>
  C37. The address that \<^verbatim>\<open>vm_mac_gen\<close> makes for a tap device has the fixed first octet and is
  17 characters long, and two devices share an address exactly when the low 40 bits of their
  hashes agree.
\<close>

theorem vm_mac_gen_bits:
  "length (vm_mac_gen hash n tap) = 17 \<and> starts_with ''b8:'' (vm_mac_gen hash n tap)
    \<and> (vm_mac_gen hash n tap = vm_mac_gen hash m tap' \<longleftrightarrow> take_bit 40 (hash n tap) = take_bit 40 (hash m tap'))"
proof (intro conjI)
  let ?x = "hash n tap" and ?y = "hash m tap'"
  show "vm_mac_gen hash n tap = vm_mac_gen hash m tap' \<longleftrightarrow> take_bit 40 ?x = take_bit 40 ?y"
    unfolding take_bit_octets mac_byte_eq_iff [symmetric]
    by (simp add: vm_mac_gen_def Let_def mac_byte_length append_eq_append_conv
        all_octets [of "\<lambda>k. mac_byte ?x k = mac_byte ?y k"])
  show "starts_with ''b8:'' (vm_mac_gen hash n tap)" by (simp add: vm_mac_gen_def Let_def mac_byte_def starts_with_def)
qed (simp add: vm_mac_gen_def Let_def mac_byte_length)

end
