(* ===== verification/Boot.thy ===== *)
theory Boot
  imports Vm_Run Init_Run "HOL-Library.Code_Target_Nat" "HOL-Library.Code_Target_Int"
begin

text \<open>
  The kernel command line carries what \<^verbatim>\<open>rapido-vm\<close> knows to \<^verbatim>\<open>rapido-init\<close>: the writer of one
  program and the parser of the other agree.
\<close>

section \<open>Words of a command line\<close>

definition words_str :: "bytes list \<Rightarrow> bytes" where
  "words_str ws = concat (map (\<lambda>w. '' '' @ w) ws)"

lemma words_str_simps [simp]:
  "words_str [] = []" "words_str (w # ws) = CHR '' '' # w @ words_str ws" "words_str (xs @ ys) = words_str xs @ words_str ys"
  by (simp_all add: words_str_def)

lemma split_words:
  "word_ok w \<Longrightarrow> \<forall>x\<in>set ws. word_ok x \<Longrightarrow>
    split_on (\<lambda>c. c = CHR '' '' \<or> c = newline) (w @ words_str ws) = w # ws"
proof (induction ws arbitrary: w)
  case Nil
  then show ?case using word_ok_blank [of w] by (simp add: split_on_none)
next
  case (Cons x ws)
  moreover have "split_on (\<lambda>c. c = CHR '' '' \<or> c = newline) (w @ CHR '' '' # x @ words_str ws)
      = w # split_on (\<lambda>c. c = CHR '' '' \<or> c = newline) (x @ words_str ws)"
    using Cons.prems(1) word_ok_blank [of w] by (intro split_on_first) auto
  ultimately show ?case by simp
qed

lemma kcli_words_append: "kcli_words (xs @ ys) a = bindR (kcli_words xs a) (kcli_words ys)"
proof (induction xs arbitrary: a)
  case (Cons x xs)
  then show ?case by (cases "kcli_word x a") simp_all
qed simp

lemma digit_char_ok: "d < 16 \<Longrightarrow> byte_in 48 57 (digit_char d) \<or> byte_in 97 102 (digit_char d)"
  by (auto simp: digit_char_def byte_in_def byte_val_char_of)

lemma digit_char_dec: "d < 10 \<Longrightarrow> byte_in 48 57 (digit_char d)"
  by (auto simp: digit_char_def byte_in_def byte_val_char_of)

lemma fmt_hex_ok [simp]: "word_ok (fmt_hex w n)"
proof -
  have "byte_in 33 126 (digit_char d)" if "d \<in> set (nat_digits 16 n)" for d
    using nat_digits_less [of 16 d n] that digit_char_ok [of d] by (auto simp: byte_in_def)
  then show ?thesis by (auto simp: fmt_hex_def pad0_def word_ok_def) (simp add: byte_in_def byte_val_def)
qed

lemma fmt_dec_digits: "c \<in> set (fmt_dec n) \<Longrightarrow> byte_in 48 57 c"
  using nat_digits_less [of 10 _ n] digit_char_dec by (auto simp: fmt_dec_def)

lemma fmt_dec_ok [simp]: "word_ok (fmt_dec n)"
  using fmt_dec_digits [of _ n] by (fastforce simp: word_ok_def byte_in_def)

lemma vm_mac_gen_ok [simp]: "word_ok (vm_mac_gen hash n tap)"
  by (simp add: vm_mac_gen_def mac_byte_def Let_def) (simp add: byte_in_def byte_val_def)

lemma from_str_radix_fmt_dec:
  assumes "n < 2 ^ bits"
  shows "from_str_radix bits 10 (fmt_dec n) = Some n"
proof -
  have "parse_digits 10 0 (fmt_dec n) = Some n"
    by (simp add: fmt_dec_def parse_digits_nat_digits digit_of_digit_char)
  moreover have "strip_plus (fmt_dec n) = fmt_dec n"
    by (rule strip_plus_id) (use fmt_dec_digits [of "CHR ''+''" n] in \<open>auto simp: byte_in_def byte_val_def\<close>)
  moreover have "fmt_dec n \<noteq> []" by (simp add: fmt_dec_def)
  ultimately show ?thesis using assms by (simp add: from_str_radix_def)
qed

section \<open>The parts of the command line\<close>

definition size_out :: "nat \<times> nat \<Rightarrow> bytes" where
  \<comment> \<open>what \<^verbatim>\<open>stty size\<close> prints: the rows, a blank, the columns and a newline\<close>
  "size_out rc = fmt_dec (fst rc) @ '' '' @ fmt_dec (snd rc) @ [newline]"

definition stty_arg :: "nat \<times> nat \<Rightarrow> bytes" where
  "stty_arg rc = fmt_dec (fst rc) @ '','' @ fmt_dec (snd rc)"

lemma host_stty_size_words:
  "host_stty_size (map_option size_out sz) cl '' rapido.stty=''
    = cl @ words_str (case sz of None \<Rightarrow> [] | Some rc \<Rightarrow> [''rapido.stty='' @ stty_arg rc])"
proof (cases sz)
  case (Some rc)
  have d: "\<forall>c\<in>set (fmt_dec n). \<not> \<not> is_digit c" for n using fmt_dec_digits by (auto simp: is_digit_def)
  have n: "\<not> is_digit CHR '' ''" "\<not> is_digit newline" by (simp_all add: is_digit_def byte_in_def byte_val_def newline_def)
  have "split_on (\<lambda>c. \<not> is_digit c) (size_out rc) = [fmt_dec (fst rc), fmt_dec (snd rc), []]"
    using split_on_first [OF d [of "fst rc"], of "CHR '' ''" "fmt_dec (snd rc) @ [newline]"]
      split_on_first [OF d [of "snd rc"], of newline "[]"] n
    by (simp add: size_out_def)
  moreover have "fmt_dec m \<noteq> []" for m by (simp add: fmt_dec_def)
  ultimately show ?thesis by (simp add: Some host_stty_size_def stty_arg_def Suc_le_eq)
qed (simp add: host_stty_size_def)

lemma kcmdline_base_words:
  "kcmdline_base cons n = ''rdinit=/rdinit'' @ words_str [''console='' @ cons, ''rapido.vm_num='' @ fmt_dec n,
    ''systemd.machine_id='' @ fmt_hex 32 n]"
  by (simp add: kcmdline_base_def)

definition mac_word :: "hasher \<Rightarrow> nat \<Rightarrow> bytes \<Rightarrow> bytes" where
  "mac_word hash n tap = ''rapido.mac.'' @ tap @ ''='' @ vm_mac_gen hash (of_nat n) tap"

fun net_devices :: "hasher \<Rightarrow> nat \<Rightarrow> nat \<Rightarrow> bytes list \<Rightarrow> bytes list" where
  \<comment> \<open>the parameters of the network devices, numbered from \<open>i\<close>\<close>
  "net_devices hash n i [] = []"
| "net_devices hash n i (tap # taps) =
    [''-device'', ''virtio-net,netdev=if'' @ fmt_dec i @ '',mac='' @ vm_mac_gen hash (of_nat n) tap @ '',romfile='',
     ''-netdev'', ''tap,id=if'' @ fmt_dec i @ '',script=no,downscript=no,ifname='' @ tap]
    @ net_devices hash n (Suc i) taps"


text \<open>
  The network devices of a machine, from the files in its directory: the stems of the \<^verbatim>\<open>.network\<close>
  files, in the order of the directory, whose device on the host is a tap device.
\<close>

definition is_tap :: "host \<Rightarrow> bytes \<Rightarrow> bool" where
  "is_tap h tap \<longleftrightarrow> (case tun_flags h tap of Inr (Some v) \<Rightarrow> and v 2 = 2 | _ \<Rightarrow> False)"

definition host_taps :: "host \<Rightarrow> bytes \<Rightarrow> (error_kind + bytes) list \<Rightarrow> bytes list" where
  "host_taps h dir es =
    filter (is_tap h) (List.map_filter (\<lambda>e. case e of Inr name \<Rightarrow> tap_of (path_join dir name) | Inl _ \<Rightarrow> None) es)"

definition vm_taps :: "host \<Rightarrow> bytes \<Rightarrow> bool \<Rightarrow> bytes list" where
  "vm_taps h dir net = (if net then case h_readdir h dir of Inr es \<Rightarrow> host_taps h dir es | Inl _ \<Rightarrow> [] else [])"

lemma host_taps_Cons:
  "host_taps h dir (Inr name # es) =
    (case tap_of (path_join dir name) of
       None \<Rightarrow> []
     | Some tap \<Rightarrow> if is_tap h tap then [tap] else []) @ host_taps h dir es"
  by (simp add: host_taps_def List.map_filter_simps split: option.splits)

lemma net_entry_words:
  assumes "net_entry h hash n (path_join dir name) acc = Inr acc'"
  shows "\<exists>taps. host_taps h dir (Inr name # es) = taps @ host_taps h dir es
    \<and> na_cmdline acc' = na_cmdline acc @ words_str (map (mac_word hash n) taps)
    \<and> na_params acc' = na_params acc @ net_devices hash n (na_count acc) taps
    \<and> na_count acc' = na_count acc + length taps"
proof (cases "tap_of (path_join dir name)")
  case None
  with assms show ?thesis by (intro exI [of _ "[]"]) (simp add: net_entry_def host_taps_Cons)
next
  case (Some tap)
  show ?thesis
  proof (cases "is_tap h tap")
    case True
    with Some assms show ?thesis
      by (intro exI [of _ "[tap]"])
        (auto simp: net_entry_def host_taps_Cons is_tap_def mac_word_def Let_def split: option.splits sum.splits)
  next
    case False
    with Some assms have "acc' = acc"
      by (auto simp: net_entry_def is_tap_def bindR_Inr_iff split: option.splits if_splits)
    with Some False show ?thesis by (intro exI [of _ "[]"]) (simp add: host_taps_Cons)
  qed
qed

lemma net_devices_append:
  "net_devices hash n i (xs @ ys) = net_devices hash n i xs @ net_devices hash n (i + length xs) ys"
  by (induction xs arbitrary: i) simp_all

lemma net_entries_words:
  assumes "net_entries h hash n dir es acc = Inr acc'"
  shows "na_cmdline acc' = na_cmdline acc @ words_str (map (mac_word hash n) (host_taps h dir es))
    \<and> na_params acc' = na_params acc @ net_devices hash n (na_count acc) (host_taps h dir es)"
  using assms
proof (induction es arbitrary: acc)
  case Nil
  then show ?case by (simp add: host_taps_def List.map_filter_simps)
next
  case (Cons e es)
  then obtain name acc1 where e: "e = Inr name" and one: "net_entry h hash n (path_join dir name) acc = Inr acc1"
    and rest: "net_entries h hash n dir es acc1 = Inr acc'" by (auto simp: bindR_Inr_iff os_def split: sum.splits)
  from net_entry_words [OF one, of es] Cons.IH [OF rest] show ?case
    by (auto simp: e net_devices_append)
qed

lemma vm_net_words:
  assumes "vm_net h hash n dir net cl = Inr acc"
  shows "\<exists>ws. na_cmdline acc = cl @ words_str (ws @ map (mac_word hash n) (vm_taps h dir net))
    \<and> ws \<in> {[], [''net.ifnames=0'']} \<and> na_params acc = net_devices hash n 0 (vm_taps h dir net)"
proof (cases net)
  case False
  with assms show ?thesis by (intro exI [of _ "[]"]) (auto simp: vm_net_def vm_taps_def)
next
  case True
  with assms obtain es where es: "h_readdir h dir = Inr es"
    "net_entries h hash n dir es \<lparr>na_cmdline = cl @ '' net.ifnames=0'', na_params = [], na_count = 0\<rparr> = Inr acc"
    by (auto simp: vm_net_def bindR_Inr_iff os_def split: sum.splits)
  with net_entries_words [OF es(2)] True show ?thesis
    by (intro exI [of _ "[''net.ifnames=0'']"]) (simp add: vm_taps_def)
qed

section \<open>Parsing\<close>

definition tap_macs :: "KcliArgs \<Rightarrow> bytes \<Rightarrow> bytes option" where
  "tap_macs a = map_of (case k_tap_mac a of None \<Rightarrow> [] | Some m \<Rightarrow> m)"

lemma put_assoc_map: "map_of (put_assoc k v xs) = (map_of xs)(k \<mapsto> v)"
  by (induction k v xs rule: put_assoc.induct) auto

lemma strip_prefix_append [simp]: "strip_prefix p (p @ s) = Some s"
  by (simp add: strip_prefix_def starts_with_def)

lemma kcli_mac_word:
  assumes "word_ok tap" and "CHR ''='' \<notin> set tap"
  shows "\<exists>m. kcli_word (mac_word hash n tap) a = Inr (a\<lparr>k_tap_mac := Some m\<rparr>)
    \<and> tap_macs (a\<lparr>k_tap_mac := Some m\<rparr>) = (tap_macs a)(tap \<mapsto> vm_mac_gen hash (of_nat n) tap)"
proof -
  have v: "utf8_valid (tap @ ''='' @ vm_mac_gen hash (of_nat n) tap)"
    by (rule word_ok_utf8) (use assms in \<open>simp add: byte_in_def byte_val_def\<close>)
  have "tap_mac_val (tap @ ''='' @ vm_mac_gen hash (of_nat n) tap) = Inr (tap, vm_mac_gen hash (of_nat n) tap)"
    using v split_once_first [of tap "\<lambda>c. c = CHR ''=''" "CHR ''=''" "vm_mac_gen hash (of_nat n) tap"] assms(2)
    by (simp add: tap_mac_val_def) (metis option.simps(5))
  moreover have "strip_prefix ''rapido.hostname='' (mac_word hash n tap) = None"
    "strip_prefix ''rapido.vm_num='' (mac_word hash n tap) = None"
    "strip_prefix ''rapido.mac.'' (mac_word hash n tap) = Some (tap @ ''='' @ vm_mac_gen hash (of_nat n) tap)"
    by (simp_all add: mac_word_def strip_prefix_def starts_with_def)
  ultimately show ?thesis
    by (intro exI [of _ "case k_tap_mac a of None \<Rightarrow> [(tap, vm_mac_gen hash (of_nat n) tap)]
        | Some m \<Rightarrow> put_assoc tap (vm_mac_gen hash (of_nat n) tap) m"])
      (auto simp: kcli_word_def tap_macs_def put_assoc_map split: option.splits)
qed

lemma kcli_mac_words:
  assumes "\<forall>tap\<in>set taps. word_ok tap \<and> CHR ''='' \<notin> set tap"
  shows "\<exists>z. kcli_words (map (mac_word hash n) taps) a = Inr (a\<lparr>k_tap_mac := z\<rparr>)
    \<and> (\<forall>tap. tap_macs (a\<lparr>k_tap_mac := z\<rparr>) tap =
          (if tap \<in> set taps then Some (vm_mac_gen hash (of_nat n) tap) else tap_macs a tap))"
  using assms
proof (induction taps arbitrary: a)
  case Nil
  then show ?case by (intro exI [of _ "k_tap_mac a"]) simp
next
  case (Cons tap taps)
  then obtain m where m: "kcli_word (mac_word hash n tap) a = Inr (a\<lparr>k_tap_mac := Some m\<rparr>)"
    "tap_macs (a\<lparr>k_tap_mac := Some m\<rparr>) = (tap_macs a)(tap \<mapsto> vm_mac_gen hash (of_nat n) tap)"
    using kcli_mac_word [of tap hash n a] by auto
  from Cons.IH [of "a\<lparr>k_tap_mac := Some m\<rparr>"] Cons.prems obtain z where
    "kcli_words (map (mac_word hash n) taps) (a\<lparr>k_tap_mac := Some m\<rparr>) = Inr (a\<lparr>k_tap_mac := z\<rparr>)"
    "\<forall>t. tap_macs (a\<lparr>k_tap_mac := z\<rparr>) t =
      (if t \<in> set taps then Some (vm_mac_gen hash (of_nat n) t) else tap_macs (a\<lparr>k_tap_mac := Some m\<rparr>) t)" by auto
  with m show ?case by (intro exI [of _ z]) auto
qed

lemma kcli_named:
  "kcli_word ''rdinit=/rdinit'' a = Inr a" "kcli_word ''net.ifnames=0'' a = Inr a"
  "word_ok v \<Longrightarrow> kcli_word (''console='' @ v) a = Inr (a\<lparr>k_console := Some v\<rparr>)"
  "word_ok v \<Longrightarrow> kcli_word (''rapido.vm_num='' @ v) a = Inr (a\<lparr>k_vm_num := Some v\<rparr>)"
  "word_ok v \<Longrightarrow> kcli_word (''systemd.machine_id='' @ v) a = Inr (a\<lparr>k_machine_id := Some v\<rparr>)"
  "word_ok v \<Longrightarrow> kcli_word (''rapido.hostname='' @ v) a = Inr (a\<lparr>k_hostname := Some v\<rparr>)"
  "stty_val v = Inr v \<Longrightarrow> kcli_word (''rapido.stty='' @ v) a = Inr (a\<lparr>k_stty := Some v\<rparr>)"
  by (simp_all add: kcli_word_def strip_prefix_def starts_with_def utf8_val_def word_ok_utf8)

lemma stty_arg_val:
  assumes "fst rc < 2 ^ 32" and "snd rc < 2 ^ 32"
  shows "stty_val (stty_arg rc) = Inr (stty_arg rc)" and "word_ok (stty_arg rc)"
proof -
  show w: "word_ok (stty_arg rc)" by (simp add: stty_arg_def byte_in_def byte_val_def)
  have "CHR '','' \<notin> set (fmt_dec (fst rc))"
    using fmt_dec_digits [of "CHR '',''" "fst rc"] by (auto simp: byte_in_def byte_val_def)
  then have "split_once (\<lambda>c. c = CHR '','') (stty_arg rc) = Some (fmt_dec (fst rc), fmt_dec (snd rc))"
    using split_once_first [of "fmt_dec (fst rc)" "\<lambda>c. c = CHR '',''" "CHR '',''" "fmt_dec (snd rc)"]
    unfolding stty_arg_def by auto
  with w assms show "stty_val (stty_arg rc) = Inr (stty_arg rc)"
    by (simp add: stty_val_def word_ok_utf8 from_str_radix_fmt_dec)
qed

text \<open>Words that the parser passes over, such as the parameters of the kernel's own.\<close>

definition kcli_keys :: "bytes list" where
  "kcli_keys = [''rapido.hostname='', ''rapido.vm_num='', ''rapido.mac.'', ''rapido.stty='', ''systemd.machine_id='', ''console='']"

definition foreign :: "bytes \<Rightarrow> bool" where
  "foreign w \<longleftrightarrow> (\<forall>k\<in>set kcli_keys. \<not> starts_with k w)"

lemma kcli_foreign: "\<forall>w\<in>set ws. foreign w \<Longrightarrow> kcli_words ws a = Inr a"
  by (induction ws) (auto simp: foreign_def kcli_keys_def kcli_word_def strip_prefix_def)

definition extra_words :: "conf \<Rightarrow> bytes list" where
  \<comment> \<open>the words that the configuration adds to the command line\<close>
  "extra_words conf =
    (case conf ''QEMU_EXTRA_KERNEL_PARAMS'' of
       None \<Rightarrow> []
     | Some kp \<Rightarrow> split_on (\<lambda>c. c = CHR '' '' \<or> c = newline) kp)"

definition extra_text :: "conf \<Rightarrow> bytes" where
  "extra_text conf = (case conf ''QEMU_EXTRA_KERNEL_PARAMS'' of Some kp \<Rightarrow> '' '' @ kp | None \<Rightarrow> [])"

lemma kcli_extra:
  assumes "kcli_parse cl = Inr a" and "\<forall>w\<in>set (extra_words conf). foreign w"
  shows "kcli_parse (cl @ extra_text conf) = Inr a"
proof (cases "conf ''QEMU_EXTRA_KERNEL_PARAMS''")
  case None
  with assms show ?thesis by (simp add: extra_text_def)
next
  case (Some kp)
  with assms kcli_foreign show ?thesis
    by (simp add: kcli_parse_def extra_text_def extra_words_def split_on_append_sep kcli_words_append)
qed

lemma kcli_command_line:
  assumes "word_ok cons" and "\<forall>rc\<in>set_option sz. fst rc < 2 ^ 32 \<and> snd rc < 2 ^ 32" and "\<forall>s\<in>set_option hn. word_ok s"
    and "ws \<in> {[], [''net.ifnames=0'']}" and "\<forall>tap\<in>set taps. word_ok tap \<and> CHR ''='' \<notin> set tap"
  shows "\<exists>a. kcli_parse (kcmdline_base cons n
        @ words_str (case sz of None \<Rightarrow> [] | Some rc \<Rightarrow> [''rapido.stty='' @ stty_arg rc])
        @ words_str (case hn of None \<Rightarrow> [] | Some s \<Rightarrow> [''rapido.hostname='' @ s])
        @ words_str (ws @ map (mac_word hash n) taps)) = Inr a
    \<and> k_vm_num a = Some (fmt_dec n) \<and> k_machine_id a = Some (fmt_hex 32 n) \<and> k_console a = Some cons
    \<and> k_stty a = map_option stty_arg sz \<and> k_hostname a = hn
    \<and> (\<forall>tap. tap_macs a tap = (if tap \<in> set taps then Some (vm_mac_gen hash (of_nat n) tap) else None))"
proof -
  let ?sz = "case sz of None \<Rightarrow> [] | Some rc \<Rightarrow> [''rapido.stty='' @ stty_arg rc]"
  let ?hn = "case hn of None \<Rightarrow> [] | Some s \<Rightarrow> [''rapido.hostname='' @ s]"
  let ?base = "[''console='' @ cons, ''rapido.vm_num='' @ fmt_dec n, ''systemd.machine_id='' @ fmt_hex 32 n]"
  let ?ws = "?base @ ?sz @ ?hn @ ws @ map (mac_word hash n) taps"
  let ?a = "no_kcli_args\<lparr>k_console := Some cons, k_vm_num := Some (fmt_dec n), k_machine_id := Some (fmt_hex 32 n),
    k_stty := map_option stty_arg sz, k_hostname := hn\<rparr>"
  have "\<forall>x\<in>set ?ws. word_ok x" and "word_ok ''rdinit=/rdinit''"
    using assms by (auto simp: mac_word_def stty_arg_val byte_in_def byte_val_def split: option.splits)
  from split_words [OF this(2,1)]
  have split: "kcli_parse (''rdinit=/rdinit'' @ words_str ?ws) = kcli_words (''rdinit=/rdinit'' # ?ws) no_kcli_args"
    by (simp add: kcli_parse_def)
  have fixed: "kcli_words (''rdinit=/rdinit'' # ?base @ ?sz @ ?hn @ ws) no_kcli_args = Inr ?a"
    using assms(1-4) by (cases sz; cases hn) (auto simp: kcli_named [simplified] stty_arg_val no_kcli_args_def)
  from kcli_mac_words [OF assms(5), of hash n ?a] obtain z where
    "kcli_words (map (mac_word hash n) taps) ?a = Inr (?a\<lparr>k_tap_mac := z\<rparr>)"
    "\<forall>tap. tap_macs (?a\<lparr>k_tap_mac := z\<rparr>) tap =
          (if tap \<in> set taps then Some (vm_mac_gen hash (of_nat n) tap) else tap_macs ?a tap)" by blast
  moreover have "tap_macs ?a tap = None" for tap by (simp add: tap_macs_def no_kcli_args_def)
  moreover have "kcli_words (''rdinit=/rdinit'' # ?ws) no_kcli_args
      = bindR (kcli_words (''rdinit=/rdinit'' # ?base @ ?sz @ ?hn @ ws) no_kcli_args) (kcli_words (map (mac_word hash n) taps))"
    using kcli_words_append [of "''rdinit=/rdinit'' # ?base @ ?sz @ ?hn @ ws" "map (mac_word hash n) taps" no_kcli_args] by simp
  ultimately have "kcli_parse (''rdinit=/rdinit'' @ words_str ?ws) = Inr (?a\<lparr>k_tap_mac := z\<rparr>)"
    and "\<forall>tap. tap_macs (?a\<lparr>k_tap_mac := z\<rparr>) tap = (if tap \<in> set taps then Some (vm_mac_gen hash (of_nat n) tap) else None)"
    unfolding split fixed by simp_all
  then show ?thesis
    by (intro exI [of _ "?a\<lparr>k_tap_mac := z\<rparr>"]) (simp add: kcmdline_base_words)
qed

lemma hostname_param_words:
  assumes "read_to_string h (dir @ ''/hostname'') = (case hn of None \<Rightarrow> err NotFound | Some s \<Rightarrow> Inr (s @ [newline]))"
    and "\<forall>s\<in>set_option hn. word_ok s"
  shows "hostname_param h dir = Inr (words_str (case hn of None \<Rightarrow> [] | Some s \<Rightarrow> [''rapido.hostname='' @ s]))"
  using assms by (cases hn) (simp_all add: hostname_param_def trim_end_line err_kind_def)

lemma arch_console:
  assumes "vm_qemu_args_get h conf = Inr qa"
  shows "word_ok (qa_console qa)"
proof -
  have t: "word_ok cons" if "map_of arch_table l = Some (a, b, c, cons, d)" for l a b c cons d
    using map_of_SomeD [OF that] by (auto simp: arch_table_def byte_in_def byte_val_def)
  have "word_ok (qa_console qa)" if "arch_lines h ksrc krel ps ls = Inr qa" for ksrc krel ps ls
    using that
  proof (induction ls)
    case (Cons l ls)
    then show ?case
    proof (cases "map_of arch_table l")
      case (Some v)
      obtain a b c cons d where v: "v = (a, b, c, cons, d)" by (cases v)
      with Some Cons.prems have "qa_console qa = cons" by (auto simp: bindR_Inr_iff)
      with t [of l a b c cons d] Some v show ?thesis by simp
    qed simp
  qed simp
  with assms show ?thesis by (auto simp: vm_qemu_args_get_def bindR_Inr_iff)
qed

lemma vm_params_append:
  "\<exists>pre post. vm_params qa rscs img pid conf net
    = pre @ [''-append'', na_cmdline net @ extra_text conf] @ post @ na_params net"
proof -
  have "\<exists>pre post. xs @ ys @ zs @ [''-append'', cl] @ us @ vs @ ps = pre @ [''-append'', cl] @ post @ ps"
    for xs ys zs us vs ps :: "bytes list" and cl
    by (intro exI [of _ "xs @ ys @ zs"] exI [of _ "us @ vs"]) simp
  then show ?thesis unfolding vm_params_def Let_def extra_text_def .
qed

text \<open>
  C7. What \<^verbatim>\<open>rapido-vm\<close> writes on the kernel command line is what \<^verbatim>\<open>rapido-init\<close> reads from
  it: the machine number, the machine id, the console of the kernel's architecture, the terminal size
  and the host name come back, and with them, when the archive asks for a network, a MAC address for
  every tap device that has a \<^verbatim>\<open>.network\<close> file in the directory of the machine and for no other, the
  same address as in the parameters of the network device that QEMU is given for it. The sizes fit 32 bits, the names are
  printable without blanks, no tap name holds an equals sign, and the words that
  \<^verbatim>\<open>QEMU_EXTRA_KERNEL_PARAMS\<close> adds, if it is set, start with none of the keys that the parser knows.
\<close>

theorem kcmdline_read_back:
  assumes "vm_command h (map_option size_out sz) hash n vm_pid_file img conf = Inr (bin, params)"
    and "conf ''VM_NET_CONF'' = Some vnc" and "\<forall>w\<in>set (extra_words conf). foreign w"
    and "\<forall>rc\<in>set_option sz. fst rc < 2 ^ 32 \<and> snd rc < 2 ^ 32"
    and "dir = vnc @ ''/vm'' @ fmt_dec n"
    and "read_to_string h (dir @ ''/hostname'') = (case hn of None \<Rightarrow> err NotFound | Some s \<Rightarrow> Inr (s @ [newline]))"
    and "\<forall>s\<in>set_option hn. word_ok s"
    and "\<forall>tap\<in>set (vm_taps h dir True). word_ok tap \<and> CHR ''='' \<notin> set tap"
  shows "\<exists>qa rscs pre cl post a. vm_qemu_args_get h conf = Inr qa \<and> vm_resources_get h img = Inr rscs
    \<and> params = pre @ [''-append'', cl] @ post @ net_devices hash n 0 (vm_taps h dir (vr_net rscs))
    \<and> kcli_parse cl = Inr a
    \<and> k_vm_num a = Some (fmt_dec n) \<and> k_machine_id a = Some (fmt_hex 32 n) \<and> k_console a = Some (qa_console qa)
    \<and> k_stty a = map_option stty_arg sz \<and> k_hostname a = hn
    \<and> (\<forall>tap. tap_macs a tap =
          (if tap \<in> set (vm_taps h dir (vr_net rscs)) then Some (vm_mac_gen hash (of_nat n) tap) else None))"
proof -
  let ?szw = "case sz of None \<Rightarrow> [] | Some rc \<Rightarrow> [''rapido.stty='' @ stty_arg rc]"
  let ?hnw = "case hn of None \<Rightarrow> [] | Some s \<Rightarrow> [''rapido.hostname='' @ s]"
  have hnp: "hostname_param h dir = Inr (words_str ?hnw)" by (rule hostname_param_words [OF assms(6,7)])
  from assms(1) obtain qa rscs net where qa: "vm_qemu_args_get h conf = Inr qa" and r: "vm_resources_get h img = Inr rscs"
    and net: "vm_net h hash n dir (vr_net rscs) (kcmdline_base (qa_console qa) n @ words_str ?szw @ words_str ?hnw) = Inr net"
    and p: "params = vm_params qa rscs img vm_pid_file conf net"
    using hnp unfolding vm_command_def assms(2) by (auto simp: bindR_Inr_iff Let_def host_stty_size_words assms(5))
  let ?taps = "vm_taps h dir (vr_net rscs)"
  from vm_net_words [OF net] obtain ws where w: "na_cmdline net = (kcmdline_base (qa_console qa) n @ words_str ?szw @ words_str ?hnw) @ words_str (ws @ map (mac_word hash n) ?taps)"
    "ws \<in> {[], [''net.ifnames=0'']}" "na_params net = net_devices hash n 0 ?taps"
    by (elim exE conjE)
  have "\<forall>tap\<in>set ?taps. word_ok tap \<and> CHR ''='' \<notin> set tap"
    using assms(8) by (cases "vr_net rscs") (simp_all only:, simp add: vm_taps_def)
  from kcli_command_line [OF arch_console [OF qa] assms(4,7) w(2) this, of n hash] w(1) obtain a where
    a: "kcli_parse (na_cmdline net) = Inr a" and
    "k_vm_num a = Some (fmt_dec n) \<and> k_machine_id a = Some (fmt_hex 32 n)
      \<and> k_console a = Some (qa_console qa) \<and> k_stty a = map_option stty_arg sz \<and> k_hostname a = hn
      \<and> (\<forall>tap. tap_macs a tap = (if tap \<in> set ?taps then Some (vm_mac_gen hash (of_nat n) tap) else None))"
    by auto
  moreover have "\<exists>pre post. params = pre @ [''-append'', na_cmdline net @ extra_text conf] @ post @ net_devices hash n 0 ?taps"
    using vm_params_append [of qa rscs img vm_pid_file conf net] w(3) p by simp
  ultimately show ?thesis using kcli_extra [OF a assms(3)] qa r by blast
qed


section \<open>A machine with one network device\<close>

definition net_dir :: cpio_entry where
  "net_dir = \<lparr>e_ino = 0, e_md = sample_md 0x41ED 0, e_name = ''rapido-rsc/net'', e_zeros = 0, e_data = []\<rparr>"

definition net_img :: bytes where
  "net_img = entry_bytes net_dir @ entry_bytes trailer_entry"

definition net_host :: host where
  "net_host = (files_host [(''/ks/.config'', ''CONFIG_X86_64=y''), (''/ks/arch/x86/boot/bzImage'', ''x''), (''img'', net_img),
      (''/sys/class/net/tap0/tun_flags'', ''0x1002'' @ [newline]), (''/net/vm1/hostname'', ''guest'' @ [newline])])
    \<lparr>h_readdir := (\<lambda>p. if p = ''/net/vm1'' then Inr [Inr ''tap0.network'', Inr ''hostname''] else Inl NotFound)\<rparr>"

definition net_conf :: conf where
  "net_conf = [''KERNEL_SRC'' \<mapsto> ''/ks'', ''VM_NET_CONF'' \<mapsto> ''/net'']"

lemma net_resources: "vm_resources_get net_host ''img'' = Inr (default_rscs\<lparr>vr_net := True\<rparr>)"
proof -
  have "entry_wf net_dir" by (simp add: entry_wf_def net_dir_def e_namesize_def sample_md_def PATH_MAX_def)
  then have "archive_walk (net_img, k) = [Inr (ent_of net_dir)]" for k
    unfolding net_img_def
    by (subst archive_walk_Cons) (simp_all add: net_dir_def trailer_name_def archive_walk_trailer [of "[]", simplified])
  moreover have "rsc_line (ent_of net_dir) = ''rapido-rsc/net''"
    by (simp add: rsc_line_def ent_of_def net_dir_def e_namesize_def)
  moreover have "vm_resource_line_process ''rapido-rsc/net'' r = (Inr True, r\<lparr>vr_net := True\<rparr>)" for r
    by (simp add: vm_resource_line_process_def strip_prefix_def starts_with_def)
  moreover have "h_open net_host ''img'' = Inr (file_meta net_img, net_img, None)"
    by (simp add: net_host_def files_host_def)
  ultimately show ?thesis by (simp add: vm_resources_get_def)
qed

lemma net_queries:
  "vm_qemu_args_get net_host net_conf = Inr \<lparr>qemu_bin = ''qemu-system-x86_64'', kernel_img = ''/ks/arch/x86/boot/bzImage'',
    qa_console = ''ttyS0'', qa_params = []\<rparr>"
  "read_to_string net_host ''/net/vm1/hostname'' = Inr (''guest'' @ [newline])"
  "tun_flags net_host ''tap0'' = Inr (Some 4098)"
  "tap_of ''/net/vm1/tap0.network'' = Some ''tap0''" "tap_of ''/net/vm1/hostname'' = None"
  "path_join ''/net/vm1'' ''tap0.network'' = ''/net/vm1/tap0.network''"
  "path_join ''/net/vm1'' ''hostname'' = ''/net/vm1/hostname''"
  "fmt_dec 1 = ''1''" "and (4098 :: nat) 2 = 2"
  by code_simp+


theorem kcmdline_read_back_witness:
  "\<exists>bin params pre cl post a.
    vm_command net_host (Some (size_out (24, 80))) (\<lambda>_ _. 0x123456789A) 1 ''pid'' ''img'' net_conf = Inr (bin, params)
    \<and> params = pre @ [''-append'', cl] @ post @ net_devices (\<lambda>_ _. 0x123456789A) 1 0 [''tap0'']
    \<and> kcli_parse cl = Inr a \<and> k_vm_num a = Some ''1'' \<and> k_hostname a = Some ''guest''
    \<and> k_stty a = Some (stty_arg (24, 80))
    \<and> k_console a = Some ''ttyS0''
    \<and> tap_macs a = [''tap0'' \<mapsto> vm_mac_gen (\<lambda>_ _. 0x123456789A) 1 ''tap0'']"
proof -
  let ?h = "\<lambda>_ _. 0x123456789A"
  have one: "fmt_dec (Suc 0) = ''1''" using net_queries(8) by simp
  have d: "net_conf ''VM_NET_CONF'' = Some ''/net''" "\<forall>w\<in>set (extra_words net_conf). foreign w"
    "''/net/vm1'' = ''/net'' @ ''/vm'' @ fmt_dec 1"
    by (simp_all add: net_conf_def one extra_words_def)
  have rd: "h_readdir net_host ''/net/vm1'' = Inr [Inr ''tap0.network'', Inr ''hostname'']" by (simp add: net_host_def)
  have hn: "read_to_string net_host (''/net/vm1'' @ ''/hostname'') = (case Some ''guest'' of None \<Rightarrow> err NotFound | Some s \<Rightarrow> Inr (s @ [newline]))"
    using net_queries(2) by simp
  have w: "word_ok ''guest''" "word_ok ''tap0''" by code_simp+
  have hp: "hostname_param net_host ''/net/vm1'' = Inr (words_str [''rapido.hostname=guest''])"
    using hostname_param_words [OF hn] w by simp
  obtain bin params where c: "vm_command net_host (map_option size_out (Some (24, 80))) ?h 1 ''pid'' ''img'' net_conf = Inr (bin, params)"
  proof -
    have "\<exists>acc. vm_net net_host ?h 1 ''/net/vm1'' True cl = Inr acc" for cl
      using rd by (simp add: vm_net_def net_entry_def net_queries Let_def)
    then obtain acc where "vm_net net_host ?h 1 ''/net/vm1'' True (host_stty_size (map_option size_out (Some (24, 80)))
        (kcmdline_base ''ttyS0'' 1) '' rapido.stty='' @ words_str [''rapido.hostname=guest'']) = Inr acc" by blast
    moreover have "vr_net (default_rscs\<lparr>vr_net := True\<rparr>) = True" by simp
    ultimately show ?thesis
      by (intro that) (simp only: vm_command_def net_queries(1) bindR_simps Let_def d(1) d(3) [symmetric] hp net_resources
          option.case QemuArgs.simps VmResources.simps)
  qed
  have ht: "vm_taps net_host ''/net/vm1'' True = [''tap0'']"
    using rd by (simp add: vm_taps_def host_taps_def List.map_filter_simps net_queries is_tap_def)
  then have taps: "\<forall>tap\<in>set (vm_taps net_host ''/net/vm1'' True). word_ok tap \<and> CHR ''='' \<notin> set tap"
    using w by simp
  have "\<forall>rc\<in>set_option (Some (24, 80)). fst rc < (2 :: nat) ^ 32 \<and> snd rc < (2 :: nat) ^ 32" "\<forall>s\<in>set_option (Some ''guest''). word_ok s"
    using w by simp_all
  from kcmdline_read_back [OF c d(1,2) this(1) d(3) hn this(2) taps] obtain pre cl post a where
    "params = pre @ [''-append'', cl] @ post @ net_devices ?h 1 0 [''tap0'']" "kcli_parse cl = Inr a" "k_vm_num a = Some (fmt_dec 1)"
    "k_console a = Some ''ttyS0''" "k_stty a = map_option stty_arg (Some (24, 80))" "k_hostname a = Some ''guest''"
    and m: "\<forall>tap. tap_macs a tap = (if tap \<in> set [''tap0''] then Some (vm_mac_gen ?h (of_nat 1) tap) else None)"
    using net_queries(1) net_resources ht by auto
  moreover have "tap_macs a = [''tap0'' \<mapsto> vm_mac_gen ?h 1 ''tap0'']" using m by (auto simp: fun_eq_iff)
  ultimately show ?thesis using c net_queries(8)
    by (intro exI [of _ bin] exI [of _ params] exI [of _ pre] exI [of _ cl] exI [of _ post] exI [of _ a])
      (simp only: option.map of_nat_1 simp_thms)
qed

end
