(* ===== verification/Vm_Rsc.thy ===== *)
theory Vm_Rsc
  imports Vm_Run "HOL-Library.Code_Target_Nat" "HOL-Library.Code_Target_Int"
begin

text \<open>
  From the archive writer to \<^verbatim>\<open>rapido-vm\<close>: the resources that a manifest asks for as entries under
  \<^verbatim>\<open>rapido-rsc\<close> are those that the machine is started with.
\<close>

section \<open>Names as the archive holds them\<close>

text \<open>A file longer than the data alignment may get zeros after its name.\<close>

definition unpadded :: "ArchiveProperties \<Rightarrow> archive_op \<Rightarrow> bool" where
  "unpadded props x \<longleftrightarrow> data_align props = 0 \<or> md_len (op_md x) \<le> data_align props"

lemma op_entry_unpadded: "unpadded (as_props st) x \<Longrightarrow> e_zeros (op_entry x st) = 0"
  by (cases x) (auto simp: unpadded_def path_entry_def symlink_entry_def file_entry_def data_align_seek_def Let_def not_less [symmetric])

lemma run_ops_entries:
  assumes "for_each ops run_op c = (Inr (), c')" and "holds base es c"
  shows "\<exists>es'. holds base (es @ es') c'
    \<and> list_all2 (\<lambda>x e. \<exists>st. as_props st = as_props (c_state c) \<and> e = op_entry x st) ops es'"
  using assms
proof (induction ops arbitrary: c es)
  case Nil
  then show ?case by (intro exI [of _ "[]"]) simp
next
  case (Cons x ops)
  from Cons.prems(1) obtain u where x: "run_op x c = (Inr (), u)" and ops: "for_each ops run_op u = (Inr (), c')"
    by (auto simp: bindE_Inr_iff)
  let ?e = "op_entry x (c_state c)"
  have h: "holds base (es @ [?e]) u" using op_archiver.extends_archive [OF x Cons.prems(2)] .
  have p: "as_props (c_state u) = as_props (c_state c)"
    using Cons.prems(2) by (intro op_archiver.props_kept [OF x]) (simp add: holds_def)
  from Cons.IH [OF ops h] obtain es' where es': "holds base ((es @ [?e]) @ es') c'"
    "list_all2 (\<lambda>x e. \<exists>st. as_props st = as_props (c_state c) \<and> e = op_entry x st) ops es'" unfolding p by blast
  then show ?case by (intro exI [of _ "?e # es'"]) auto
qed

lemma rsc_line_ent_of:
  assumes "entry_wf e"
  shows "rsc_line (ent_of e) = e_name e @ replicate (e_zeros e) NUL"
proof -
  have ns: "e_namesize e \<le> PATH_MAX" using assms by (simp add: entry_wf_def)
  then have "unat (of_nat (e_namesize e) :: u32) = e_namesize e" by (intro unat_of_nat_small) (simp add: PATH_MAX_def)
  with ns show ?thesis by (simp add: rsc_line_def ent_of_def e_namesize_def min_def)
qed

lemma starts_with_zeros: "NUL \<notin> set p \<Longrightarrow> starts_with p (s @ replicate k NUL) \<longleftrightarrow> starts_with p s"
proof
  assume p: "NUL \<notin> set p" and "starts_with p (s @ replicate k NUL)"
  then have e: "take (length p) s @ replicate (min k (length p - length s)) NUL = p"
    by (simp add: starts_with_def min.commute)
  with p have "min k (length p - length s) = 0" by (metis in_set_replicate in_set_conv_decomp neq0_conv set_append UnCI)
  with e show "starts_with p s" by (simp add: starts_with_def)
qed (auto simp: starts_with_def dest: arg_cong [of _ _ length])

lemma in_rsc_zeros: "in_rsc (s @ replicate k NUL) \<longleftrightarrow> in_rsc s"
  unfolding in_rsc_def by (rule starts_with_zeros) simp

section \<open>What the machine is started with\<close>

fun rsc_lines :: "bytes list \<Rightarrow> VmResources \<Rightarrow> VmResources res" where
  \<comment> \<open>the resource names, one after the other\<close>
  "rsc_lines [] rscs = Inr rscs"
| "rsc_lines (l # ls) rscs =
    (case vm_resource_line_process l rscs of (Inl e, _) \<Rightarrow> Inl e | (Inr _, rscs1) \<Rightarrow> rsc_lines ls rscs1)"

lemma scan_rsc:
  assumes "list_all (\<lambda>e. entry_wf e \<and> e_zeros e = 0) es" and "list_all plain_item post"
  shows "resources_scan (map (\<lambda>e. Inr (ent_of e)) es @ post) r = rsc_lines (map e_name es) r"
  using assms(1)
proof (induction es arbitrary: r)
  case Nil
  then show ?case using assms(2) by (simp add: scan_plain)
qed (auto simp: rsc_line_ent_of split: sum.splits prod.splits)

lemma loop_skip: "list_all plain_item pre \<Longrightarrow> resources_loop (pre @ ys) False r = resources_loop ys False r"
  by (induction pre) (auto simp: plain_item_def line_process_out)

lemma archive_run_ops:
  assumes "for_each ops run_op \<lparr>c_state = new_state props, c_out = w\<rparr> = (Inr (), c)"
    and "archive_trailer c = (Inr n, c')" and "unat (namesize_max props) \<le> PATH_MAX" and "w_buf w = []"
    and names: "\<forall>x\<in>set ops. NUL \<notin> set (arch_name (op_path x)) \<and> arch_name (op_path x) \<noteq> trailer_name"
  obtains es where "list_all2 (\<lambda>x e. \<exists>st. as_props st = props \<and> e = op_entry x st) ops es" and "list_all entry_wf es"
    and "archive_walk (w_buf (c_out c') @ rest, k) = map (\<lambda>e. Inr (ent_of e)) es"
proof -
  have "holds [] [] \<lparr>c_state = new_state props, c_out = w\<rparr>"
    using assms(3,4) by (simp add: holds_def ready_def new_state_def)
  from run_ops_entries [OF assms(1) this] obtain es where h: "holds [] es c"
    and p: "list_all2 (\<lambda>x e. \<exists>st. as_props st = props \<and> e = op_entry x st) ops es"
    by (auto simp: new_state_def)
  have wf: "list_all entry_wf es" using h by (simp add: holds_def)
  have "\<forall>e\<in>set es. e_name e @ replicate (e_zeros e) NUL \<noteq> trailer_name"
    using p names by (induction rule: list_all2_induct) (auto simp: op_entry_fields no_NUL_trailer)
  moreover have "w_buf (c_out c') = concat (map entry_bytes es) @ entry_bytes trailer_entry"
    using archive_trailer_appends [OF assms(2)] h by (simp add: holds_def wrote_def)
  ultimately show thesis using archive_walk_entries [OF wf] archive_walk_trailer by (intro that [OF p wf]) simp
qed

lemma ops_entry:
  assumes "list_all2 (\<lambda>x e. \<exists>st. as_props st = props \<and> e = op_entry x st) ops es"
  shows "map e_name es = map (\<lambda>x. arch_name (op_path x)) ops"
    and "\<forall>x\<in>set ops. unpadded props x \<Longrightarrow> \<forall>e\<in>set es. e_zeros e = 0"
  using assms by (induction rule: list_all2_induct) (auto simp: op_entry_fields op_entry_unpadded)

lemma items_in_rsc:
  assumes "map e_name es = map f ops" and "list_all entry_wf es"
  shows "\<forall>x\<in>set ops. \<not> in_rsc (f x) \<Longrightarrow> list_all plain_item (map (\<lambda>e. Inr (ent_of e)) es)"
    and "\<forall>x\<in>set ops. in_rsc (f x) \<Longrightarrow> list_all rsc_item (map (\<lambda>e. Inr (ent_of e)) es)"
proof -
  have n: "e \<in> set es \<Longrightarrow> e_name e \<in> f ` set ops" for e using arg_cong [OF assms(1), of set] by auto
  have "e \<in> set es \<Longrightarrow> in_rsc (rsc_line (ent_of e)) \<longleftrightarrow> in_rsc (e_name e)" for e
    using assms(2) by (simp add: list_all_iff rsc_line_ent_of in_rsc_zeros)
  with n show "\<forall>x\<in>set ops. \<not> in_rsc (f x) \<Longrightarrow> list_all plain_item (map (\<lambda>e. Inr (ent_of e)) es)"
    and "\<forall>x\<in>set ops. in_rsc (f x) \<Longrightarrow> list_all rsc_item (map (\<lambda>e. Inr (ent_of e)) es)"
    by (fastforce simp: list_all_iff plain_item_def rsc_item_def)+
qed

text \<open>
  C16. The resources a machine is started with are those of the archive: when an archive was written
  by any successful sequence of archiving operations in which the entries under \<^verbatim>\<open>rapido-rsc\<close> stand
  together, as the comment in \<^verbatim>\<open>rapido-vm\<close> demands, and none of them is a file longer than the
  data alignment, then \<^verbatim>\<open>rapido-vm\<close> reads from it, padding, trailer and the early exit of its
  loop notwithstanding, exactly what its line parser makes of their paths in order, errors included.
\<close>

theorem vm_resources_written:
  assumes "for_each (pre @ xs @ post) run_op \<lparr>c_state = new_state props, c_out = w\<rparr> = (Inr (), c)"
    and "archive_trailer c = (Inr n, c')" and "unat (namesize_max props) \<le> PATH_MAX" and "w_buf w = []"
    and "\<forall>x\<in>set (pre @ xs @ post). NUL \<notin> set (arch_name (op_path x)) \<and> arch_name (op_path x) \<noteq> trailer_name"
    and "\<forall>x\<in>set (pre @ post). \<not> in_rsc (arch_name (op_path x))"
    and "\<forall>x\<in>set xs. in_rsc (arch_name (op_path x)) \<and> unpadded props x"
    and "h_open h img = Inr (md, w_buf (c_out c') @ rest, k)"
  shows "vm_resources_get h img = rsc_lines (map (\<lambda>x. arch_name (op_path x)) xs) default_rscs"
proof -
  let ?P = "\<lambda>x e. \<exists>st. as_props st = props \<and> e = op_entry x st" and ?i = "map (\<lambda>e. Inr (ent_of e))"
  obtain es where "list_all2 ?P (pre @ xs @ post) es" and "list_all entry_wf es"
    and w: "archive_walk (w_buf (c_out c') @ rest, k) = ?i es"
    by (rule archive_run_ops [OF assms(1-5)])
  then obtain e1 e2 e3 where es: "es = e1 @ e2 @ e3" and p: "list_all2 ?P pre e1" "list_all2 ?P xs e2" "list_all2 ?P post e3"
    and wf: "list_all entry_wf e1" "list_all entry_wf e2" "list_all entry_wf e3"
    by (auto simp: list_all2_append1)
  have "list_all plain_item (?i e1)" "list_all rsc_item (?i e2)" "list_all plain_item (?i e3)"
    using items_in_rsc [OF ops_entry(1) [OF p(1)] wf(1)] items_in_rsc [OF ops_entry(1) [OF p(2)] wf(2)]
      items_in_rsc [OF ops_entry(1) [OF p(3)] wf(3)] assms(6,7) by simp_all
  moreover have "list_all (\<lambda>e. entry_wf e \<and> e_zeros e = 0) e2"
    using ops_entry(2) [OF p(2)] wf(2) assms(7) by (simp add: list_all_iff)
  ultimately have "resources_loop (archive_walk (w_buf (c_out c') @ rest, k)) False default_rscs
      = rsc_lines (map e_name e2) default_rscs"
    by (simp add: w es loop_skip loop_rsc scan_rsc)
  with assms(8) ops_entry(1) [OF p(2)] show ?thesis by (simp add: vm_resources_get_def)
qed

definition rsc_ops :: "archive_op list" where
  "rsc_ops = [ArchivePath ''/rapido-rsc'' (sample_md 0x41ED 0), ArchivePath ''/rapido-rsc/cpu'' (sample_md 0x41ED 0),
     ArchiveFile ''/rapido-rsc/cpu/8'' (sample_md 0x81A4 0) ([], None)]"

theorem vm_resources_written_witness:
  "\<exists>c n c'. for_each ([ArchivePath ''/etc'' (sample_md 0x41ED 0)] @ rsc_ops @ sample_ops) run_op
      \<lparr>c_state = new_state (default_props\<lparr>data_align := 4096\<rparr>), c_out = \<lparr>w_buf = [], w_room = None\<rparr>\<rparr> = (Inr (), c)
    \<and> archive_trailer c = (Inr n, c')
    \<and> vm_resources_get (files_host [(''img'', w_buf (c_out c'))]) ''img'' = Inr (default_rscs\<lparr>vr_cpus := 8\<rparr>)"
proof -
  let ?ops = "[ArchivePath ''/etc'' (sample_md 0x41ED 0)] @ rsc_ops @ sample_ops"
  let ?p = "default_props\<lparr>data_align := 4096\<rparr>" and ?w = "\<lparr>w_buf = [], w_room = None\<rparr>"
  have n: "path_trim_prefixes ''/etc'' = Inr ''etc''" "path_trim_prefixes ''/rapido-rsc'' = Inr ''rapido-rsc''"
    "path_trim_prefixes ''/rapido-rsc/cpu'' = Inr ''rapido-rsc/cpu''"
    "path_trim_prefixes ''/rapido-rsc/cpu/8'' = Inr ''rapido-rsc/cpu/8''" by code_simp+
  have ok: "\<forall>x\<in>set ?ops. op_ok x \<and> (\<exists>f. path_trim_prefixes (op_path x) = Inr f)"
    using sample_ok by (simp add: rsc_ops_def n S_IF_defs sample_md_def)
  obtain c m c' where r: "for_each ?ops run_op \<lparr>c_state = new_state ?p, c_out = ?w\<rparr> = (Inr (), c)"
    and t: "archive_trailer c = (Inr m, c')"
    by (rule archive_ops_run [OF _ _ ok, of ?p ?w]) (simp_all add: props_aligned_def default_props_def PATH_MAX_def)
  have "vm_resources_get (files_host [(''img'', w_buf (c_out c'))]) ''img''
      = rsc_lines (map (\<lambda>x. arch_name (op_path x)) rsc_ops) default_rscs"
    by (rule vm_resources_written [OF r t, where rest = "[]"])
      (simp_all add: rsc_ops_def sample_ops_def sample_names arch_name_def n trailer_name_def in_rsc_def starts_with_def
        unpadded_def files_host_def default_props_def sample_md_def PATH_MAX_def)
  moreover have "rsc_lines (map (\<lambda>x. arch_name (op_path x)) rsc_ops) default_rscs = Inr (default_rscs\<lparr>vr_cpus := 8\<rparr>)"
    by code_simp
  ultimately show ?thesis using r t by auto
qed

text \<open>The condition on the length is needed: \<^verbatim>\<open>rapido-vm\<close> takes the padding for a part of the name.\<close>

lemma rsc_padding_refused:
  "vm_resource_line_process (''rapido-rsc/mem/1G'' @ [NUL]) r = (err InvalidData, r)"
proof -
  have "\<not> (utf8_valid (''1G'' @ [NUL]) \<and> mem_ok (''1G'' @ [NUL]))" by code_simp
  then show ?thesis by (simp add: vm_resource_line_process_def strip_prefix_def starts_with_def)
qed

end
