(* ===== verification/Vm_Fleet.thy ===== *)
theory Vm_Fleet
  imports Boot
begin

text \<open>
  Several invocations of \<^verbatim>\<open>rapido-vm\<close> on one host: a step relation over their interleavings. An
  invocation looks at one pid file at a time, as the loop of \<^verbatim>\<open>main\<close> does, and only QEMU, which it
  starts afterwards, writes the file (its option \<^verbatim>\<open>-pidfile\<close>). Machines end in between, with or
  without removing their pid file, and other processes come and go. QEMU may also end before it
  has written the file, as it does when another QEMU holds the lock on it (\<open>locked\<close>); when that
  happens is left open. Waiting for QEMU does not fail.
\<close>

section \<open>Invocations and the state they share\<close>

record vm_setup =
  vs_host :: host
  vs_stty :: "bytes option"
  vs_hash :: hasher
  vs_dir :: bytes
  vs_img :: bytes
  vs_conf :: conf

datatype vm_tool =
    Checking "nat list" \<comment> \<open>in the loop of \<^verbatim>\<open>main\<close>, with these numbers left\<close>
  | Chosen nat \<comment> \<open>in \<^verbatim>\<open>vm_start\<close>, before QEMU has written the pid file\<close>
  | Up nat nat \<comment> \<open>waiting for the machine with this number and process\<close>
  | Ended "unit res"

record fleet =
  f_files :: "bytes \<rightharpoonup> bytes" \<comment> \<open>the pid files\<close>
  f_procs :: "nat list" \<comment> \<open>the processes that run\<close>
  f_tools :: "vm_tool list"

definition proc_path :: "nat \<Rightarrow> bytes" where
  "proc_path p = ''/proc/'' @ fmt_dec p"

definition pid_line :: "nat \<Rightarrow> bytes" where
  "pid_line p = fmt_dec p @ [newline]"

definition fleet_host :: "host \<Rightarrow> fleet \<Rightarrow> host" where
  \<comment> \<open>the host with the pid files and processes of this moment\<close>
  "fleet_host h fl = h\<lparr>
     h_open := (\<lambda>p. case f_files fl p of Some s \<Rightarrow> Inr (file_meta s, s, None) | None \<Rightarrow> h_open h p),
     h_lstat := (\<lambda>p. if starts_with ''/proc/'' p
                     then if p \<in> proc_path ` set (f_procs fl) then Inr (file_meta []) else Inl NotFound
                     else h_lstat h p)\<rparr>"

definition is_up :: "vm_setup \<Rightarrow> fleet \<Rightarrow> nat \<Rightarrow> bool res" where
  "is_up su fl n = vm_is_running (fleet_host (vs_host su) fl) (pid_file (vs_dir su) n)"

definition fleet_command :: "vm_setup \<Rightarrow> fleet \<Rightarrow> nat \<Rightarrow> (bytes \<times> bytes list) res" where
  "fleet_command su fl n = vm_command (fleet_host (vs_host su) fl) (vs_stty su) (vs_hash su) n
     (pid_file (vs_dir su) n) (vs_img su) (vs_conf su)"

definition set_tool :: "nat \<Rightarrow> vm_tool \<Rightarrow> fleet \<Rightarrow> fleet" where
  "set_tool i t fl = fl\<lparr>f_tools := (f_tools fl)[i := t]\<rparr>"

definition tool_at :: "fleet \<Rightarrow> nat \<Rightarrow> vm_tool \<Rightarrow> bool" where
  "tool_at fl i t \<longleftrightarrow> i < length (f_tools fl) \<and> f_tools fl ! i = t"

text \<open>
  The predicate \<open>ok\<close> says when another invocation may start. A process number is below the
  limit of the kernel.
\<close>

inductive fleet_step :: "vm_setup \<Rightarrow> (fleet \<Rightarrow> bool) \<Rightarrow> fleet \<Rightarrow> fleet \<Rightarrow> bool" for su ok where
  invoke: "ok fl \<Longrightarrow> fleet_step su ok fl (fl\<lparr>f_tools := f_tools fl @ [Checking [1..<1000]]\<rparr>)"
| busy: "tool_at fl i (Checking (n # ns)) \<Longrightarrow> is_up su fl n = Inr True \<Longrightarrow>
    fleet_step su ok fl (set_tool i (Checking ns) fl)"
| free: "tool_at fl i (Checking (n # ns)) \<Longrightarrow> is_up su fl n = Inr False \<Longrightarrow>
    fleet_step su ok fl (set_tool i (Chosen n) fl)"
| bad_file: "tool_at fl i (Checking (n # ns)) \<Longrightarrow> is_up su fl n = Inl e \<Longrightarrow>
    fleet_step su ok fl (set_tool i (Ended (Inl e)) fl)"
| all_up: "tool_at fl i (Checking []) \<Longrightarrow> fleet_step su ok fl (set_tool i (Ended (Inr ())) fl)"
| refused: "tool_at fl i (Chosen n) \<Longrightarrow> fleet_command su fl n = Inl e \<Longrightarrow>
    fleet_step su ok fl (set_tool i (Ended (Inl e)) fl)"
| no_qemu: "tool_at fl i (Chosen n) \<Longrightarrow> fleet_command su fl n = Inr cmd \<Longrightarrow>
    fleet_step su ok fl (set_tool i (Ended (err k)) fl)"
| locked: "tool_at fl i (Chosen n) \<Longrightarrow> fleet_command su fl n = Inr cmd \<Longrightarrow>
    fleet_step su ok fl (set_tool i (Ended (Inr ())) fl)"
| launch: "tool_at fl i (Chosen n) \<Longrightarrow> fleet_command su fl n = Inr cmd \<Longrightarrow> p \<notin> set (f_procs fl) \<Longrightarrow> p < 2 ^ 22 \<Longrightarrow>
    fleet_step su ok fl (set_tool i (Up n p)
      (fl\<lparr>f_files := (f_files fl)(pid_file (vs_dir su) n \<mapsto> pid_line p), f_procs := p # f_procs fl\<rparr>))"
| machine_ends: "tool_at fl i (Up n p) \<Longrightarrow>
    fleet_step su ok fl (set_tool i (Ended (Inr ()))
      (fl\<lparr>f_files := (if tidy then (f_files fl)(pid_file (vs_dir su) n := None) else f_files fl),
          f_procs := removeAll p (f_procs fl)\<rparr>))"
| other_starts: "p \<notin> set (f_procs fl) \<Longrightarrow> fleet_step su ok fl (fl\<lparr>f_procs := p # f_procs fl\<rparr>)"
| other_ends: "\<forall>i n. \<not> tool_at fl i (Up n p) \<Longrightarrow> fleet_step su ok fl (fl\<lparr>f_procs := removeAll p (f_procs fl)\<rparr>)"

inductive_cases fleet_stepE: "fleet_step su ok fl fl'"

definition pending :: "vm_tool \<Rightarrow> bool" where
  "pending t = (case t of Checking _ \<Rightarrow> True | Chosen _ \<Rightarrow> True | _ \<Rightarrow> False)"

definition idle :: "fleet \<Rightarrow> bool" where
  "idle fl \<longleftrightarrow> \<not> list_ex pending (f_tools fl)"

definition no_fleet :: fleet where
  "no_fleet = \<lparr>f_files = Map.empty, f_procs = [], f_tools = []\<rparr>"

section \<open>Pid files\<close>

lemma fmt_dec_inject: "fmt_dec m = fmt_dec n \<longleftrightarrow> m = n"
proof
  assume e: "fmt_dec m = fmt_dec n"
  have "m < 2 ^ (m + n)" "n < 2 ^ (m + n)" using less_exp [of "m + n"] by linarith+
  with e show "m = n" by (metis from_str_radix_fmt_dec option.inject)
qed simp

lemma pid_file_inject: "pid_file d m = pid_file d n \<longleftrightarrow> m = n"
  by (simp add: pid_file_def fmt_dec_inject)

lemma pid_line_up:
  assumes "f_files fl (pid_file (vs_dir su) n) = Some (pid_line p)" and "p \<in> set (f_procs fl)" and "p < 2 ^ 22"
  shows "is_up su fl n = Inr True"
proof -
  have "newline \<notin> set (fmt_dec p)" using fmt_dec_digits [of newline p] by (auto simp: byte_in_def newline_def byte_val_def)
  then have "read_until newline (pid_line p) = (pid_line p, [])" using read_until_line [of newline "fmt_dec p" "[]"] by (simp add: pid_line_def)
  moreover have "utf8_valid (pid_line p)"
    using fmt_dec_digits [of _ p] by (intro utf8_valid_ascii) (fastforce simp: pid_line_def byte_in_def newline_def byte_val_def)
  ultimately have "read_line (pid_line p, None) = (Inr (pid_line p), [], None)"
    by (simp add: read_line_def line_error_def utf8_line_def)
  moreover have "length (fmt_dec p) \<le> 7"
    using nat_digits_length [of 10 p 6] assms(3) by (simp add: fmt_dec_def)
  then have "length (pid_line p) \<le> 16" and "pid_line p \<noteq> []" by (simp_all add: pid_line_def)
  moreover have "from_str_radix 64 10 (fmt_dec p) = Some p" using assms(3) by (intro from_str_radix_fmt_dec) simp
  moreover have "trim_end (pid_line p) = fmt_dec p" unfolding pid_line_def by (rule trim_end_line) simp
  moreover have "h_lstat (fleet_host (vs_host su) fl) (''/proc/'' @ fmt_dec p) = Inr (file_meta [])"
    using assms(2) by (auto simp: fleet_host_def proc_path_def starts_with_def)
  ultimately show ?thesis
    using assms(1) by (simp add: is_up_def vm_is_running_def fleet_host_def Let_def)
qed


section \<open>One invocation at a time\<close>

definition tool_range :: "vm_tool \<Rightarrow> bool" where
  "tool_range t = (case t of
     Checking ns \<Rightarrow> set ns \<subseteq> {1..<1000} | Chosen n \<Rightarrow> n \<in> {1..<1000} | Up n _ \<Rightarrow> n \<in> {1..<1000} | Ended _ \<Rightarrow> True)"

definition fleet_inv :: "vm_setup \<Rightarrow> fleet \<Rightarrow> bool" where
  "fleet_inv su fl \<longleftrightarrow>
    (\<forall>i n p. tool_at fl i (Up n p) \<longrightarrow>
       p \<in> set (f_procs fl) \<and> p < 2 ^ 22 \<and> f_files fl (pid_file (vs_dir su) n) = Some (pid_line p))
    \<and> (\<forall>i j n m p q. tool_at fl i (Up n p) \<and> tool_at fl j (Up m q) \<and> i \<noteq> j \<longrightarrow> n \<noteq> m \<and> p \<noteq> q)
    \<and> (\<forall>i j n p. tool_at fl i (Chosen n) \<longrightarrow> \<not> tool_at fl j (Up n p))
    \<and> (\<forall>i j t u. tool_at fl i t \<and> tool_at fl j u \<and> pending t \<and> pending u \<longrightarrow> i = j)
    \<and> (\<forall>i t. tool_at fl i t \<longrightarrow> tool_range t)"

lemma tool_at_set_tool:
  "tool_at (set_tool i t fl) j u \<longleftrightarrow> (if i = j then j < length (f_tools fl) \<and> u = t else tool_at fl j u)"
  by (auto simp: tool_at_def set_tool_def)

lemma tool_at_fields [simp]:
  "tool_at (fl\<lparr>f_files := fs\<rparr>) i t = tool_at fl i t" "tool_at (fl\<lparr>f_procs := ps\<rparr>) i t = tool_at fl i t"
  "f_files (set_tool i t fl) = f_files fl" "f_procs (set_tool i t fl) = f_procs fl"
  by (simp_all add: tool_at_def set_tool_def)

lemma tool_at_invoke:
  "tool_at (fl\<lparr>f_tools := f_tools fl @ [t]\<rparr>) i u \<longleftrightarrow> tool_at fl i u \<or> i = length (f_tools fl) \<and> u = t"
  by (auto simp: tool_at_def nth_append less_Suc_eq)

lemma idle_pending: "idle fl \<Longrightarrow> tool_at fl i t \<Longrightarrow> \<not> pending t"
  by (auto simp: idle_def tool_at_def list_ex_length)

lemma pending_simps [simp]:
  "pending (Checking ns)" "pending (Chosen n)" "\<not> pending (Up n p)" "\<not> pending (Ended r)"
  by (simp_all add: pending_def)

lemma tool_range_simps [simp]:
  "tool_range (Checking ns) \<longleftrightarrow> set ns \<subseteq> {1..<1000}" "tool_range (Chosen n) \<longleftrightarrow> n \<in> {1..<1000}"
  "tool_range (Up n p) \<longleftrightarrow> n \<in> {1..<1000}" "tool_range (Ended r)"
  by (simp_all add: tool_range_def)

lemma fleet_invI:
  assumes "\<And>i n p. tool_at fl i (Up n p) \<Longrightarrow>
      p \<in> set (f_procs fl) \<and> p < 2 ^ 22 \<and> f_files fl (pid_file (vs_dir su) n) = Some (pid_line p)"
    and "\<And>i j n m p q. tool_at fl i (Up n p) \<Longrightarrow> tool_at fl j (Up m q) \<Longrightarrow> i \<noteq> j \<Longrightarrow> n \<noteq> m \<and> p \<noteq> q"
    and "\<And>i j n p. tool_at fl i (Chosen n) \<Longrightarrow> \<not> tool_at fl j (Up n p)"
    and "\<And>i j t u. tool_at fl i t \<Longrightarrow> tool_at fl j u \<Longrightarrow> pending t \<Longrightarrow> pending u \<Longrightarrow> i = j"
    and "\<And>i t. tool_at fl i t \<Longrightarrow> tool_range t"
  shows "fleet_inv su fl"
  unfolding fleet_inv_def using assms by blast

lemma fleet_invD:
  assumes "fleet_inv su fl"
  shows "tool_at fl i (Up n p) \<Longrightarrow> p \<in> set (f_procs fl)"
    and "tool_at fl i (Up n p) \<Longrightarrow> p < 2 ^ 22"
    and "tool_at fl i (Up n p) \<Longrightarrow> f_files fl (pid_file (vs_dir su) n) = Some (pid_line p)"
    and "tool_at fl i (Up n p) \<Longrightarrow> tool_at fl j (Up m q) \<Longrightarrow> i \<noteq> j \<Longrightarrow> n \<noteq> m \<and> p \<noteq> q"
    and "tool_at fl i (Chosen n) \<Longrightarrow> \<not> tool_at fl j (Up n p)"
    and "tool_at fl i t \<Longrightarrow> tool_at fl j u \<Longrightarrow> pending t \<Longrightarrow> pending u \<Longrightarrow> i = j"
    and "tool_at fl i t \<Longrightarrow> tool_range t"
  using assms unfolding fleet_inv_def by blast+

text \<open>The kinds of steps: an invocation moves on without starting a machine, one starts, one ends.\<close>

lemma fleet_inv_set_tool:
  assumes "fleet_inv su fl" and "tool_at fl i t" and "\<And>n p. u \<noteq> Up n p" and "pending u \<Longrightarrow> pending t"
    and "\<And>n j p. u = Chosen n \<Longrightarrow> \<not> tool_at fl j (Up n p)" and "tool_range t \<Longrightarrow> tool_range u"
  shows "fleet_inv su (set_tool i u fl)"
proof (rule fleet_invI)
  fix j k v w
  assume "tool_at (set_tool i u fl) j v" "tool_at (set_tool i u fl) k w" "pending v" "pending w"
  with assms(2,4) fleet_invD(6) [OF assms(1)] show "j = k" by (auto simp: tool_at_set_tool split: if_splits)
next
  fix j v
  assume "tool_at (set_tool i u fl) j v"
  with assms(2,6) fleet_invD(7) [OF assms(1)] show "tool_range v" by (auto simp: tool_at_set_tool split: if_splits)
qed (use assms(3,5) fleet_invD(1-5) [OF assms(1)] in \<open>auto simp: tool_at_set_tool split: if_splits\<close>)

lemma fleet_inv_procs:
  assumes "fleet_inv su fl" and "\<And>i n p. tool_at fl i (Up n p) \<Longrightarrow> p \<in> set ps"
  shows "fleet_inv su (fl\<lparr>f_procs := ps\<rparr>)"
  by (rule fleet_invI) (use assms(2) fleet_invD [OF assms(1)] in \<open>simp_all\<close>)

lemma fleet_inv_launch:
  assumes "fleet_inv su fl" and "tool_at fl i (Chosen n)" and "p \<notin> set (f_procs fl)" and "p < 2 ^ 22"
  shows "fleet_inv su (set_tool i (Up n p)
    (fl\<lparr>f_files := (f_files fl)(pid_file (vs_dir su) n \<mapsto> pid_line p), f_procs := p # f_procs fl\<rparr>))"
proof (rule fleet_invI, goal_cases)
  note inv = fleet_invD [OF assms(1)]
  have c: "tool_at fl j (Up m q) \<Longrightarrow> m \<noteq> n \<and> q \<noteq> p" for j m q using inv(1,5) assms(2,3) by blast
  have o: "tool_at fl j t \<Longrightarrow> pending t \<Longrightarrow> j = i" for j t using inv(6) assms(2) by (metis pending_simps(2))
  {
    case (1 j m q)
    with inv(1-3) c assms(4) show ?case by (auto simp: tool_at_set_tool pid_file_inject split: if_splits)
  next
    case (2 j k m l q r)
    with inv(4) show ?case by (auto simp: tool_at_set_tool dest: c split: if_splits)
  next
    case (3 j k m q)
    with o show ?case by (auto simp: tool_at_set_tool split: if_splits)
  next
    case (4 j k t u)
    with o show ?case by (auto simp: tool_at_set_tool split: if_splits)
  next
    case (5 j t)
    with inv(7) [of j t] inv(7) [OF assms(2)] show ?case by (auto simp: tool_at_set_tool split: if_splits)
  }
qed

lemma fleet_inv_ends:
  assumes "fleet_inv su fl" and "tool_at fl i (Up n p)"
  shows "fleet_inv su (set_tool i (Ended r)
    (fl\<lparr>f_files := (if tidy then (f_files fl)(pid_file (vs_dir su) n := None) else f_files fl),
       f_procs := removeAll p (f_procs fl)\<rparr>))" (is "fleet_inv su (set_tool i _ ?fl)")
proof (rule fleet_invI)
  note inv = fleet_invD [OF assms(1)]
  have keep: "j \<noteq> i \<and> tool_at fl j t \<or> t = Ended r" if "tool_at (set_tool i (Ended r) ?fl) j t" for j t
    using that by (auto simp: tool_at_set_tool split: if_splits)
  show "q \<in> set (f_procs (set_tool i (Ended r) ?fl)) \<and> q < 2 ^ 22
      \<and> f_files (set_tool i (Ended r) ?fl) (pid_file (vs_dir su) m) = Some (pid_line q)"
    if "tool_at (set_tool i (Ended r) ?fl) j (Up m q)" for j m q
    using keep [OF that] inv(1-3) [of j m q] inv(4) [OF assms(2), of j m q] by (simp add: pid_file_inject)
  show "j = k" if "tool_at (set_tool i (Ended r) ?fl) j t" "tool_at (set_tool i (Ended r) ?fl) k u" "pending t" "pending u" for j k t u
    using keep [OF that(1)] keep [OF that(2)] that(3,4) inv(6) by (metis pending_simps(4))
  show "tool_range t" if "tool_at (set_tool i (Ended r) ?fl) j t" for j t
    using keep [OF that] inv(7) by (metis tool_range_simps(4))
qed (use fleet_invD(4,5) [OF assms(1)] in \<open>simp_all add: tool_at_set_tool split: if_splits\<close>)

lemma fleet_inv_step:
  assumes "fleet_step su idle fl fl'" and "fleet_inv su fl"
  shows "fleet_inv su fl'"
  using assms
proof (induction rule: fleet_step.induct)
  case (invoke fl)
  show ?case
    by (rule fleet_invI)
      (use fleet_invD [OF invoke(2)] idle_pending [OF invoke(1)] in \<open>auto simp: tool_at_invoke\<close>)
next
  case (free fl i n ns)
  have "\<not> tool_at fl j (Up n p)" for j p
    using pid_line_up [of fl su n p] fleet_invD(1-3) [OF free(3), of j n p] free(2) by auto
  with free show ?case by (intro fleet_inv_set_tool) auto
next
  case (machine_ends fl i n p tidy)
  then show ?case by (intro fleet_inv_ends)
next
  case (other_starts p fl)
  then show ?case using fleet_invD(1) [OF other_starts(2)] by (intro fleet_inv_procs) auto
next
  case (other_ends fl p)
  then show ?case using fleet_invD(1) [OF other_ends(2)] by (intro fleet_inv_procs) auto
qed (auto intro: fleet_inv_set_tool fleet_inv_launch)

inductive reachable :: "vm_setup \<Rightarrow> (fleet \<Rightarrow> bool) \<Rightarrow> fleet \<Rightarrow> bool" for su ok where
  start: "reachable su ok no_fleet"
| step: "reachable su ok fl \<Longrightarrow> fleet_step su ok fl fl' \<Longrightarrow> reachable su ok fl'"

lemma reachable_inv: "reachable su idle fl \<Longrightarrow> fleet_inv su fl"
proof (induction rule: reachable.induct)
  case start
  show ?case by (simp add: fleet_inv_def tool_at_def no_fleet_def)
qed (rule fleet_inv_step)

lemma reachable_steps: "(fleet_step su ok)\<^sup>*\<^sup>* fl fl' \<Longrightarrow> reachable su ok fl \<Longrightarrow> reachable su ok fl'"
  by (induction rule: rtranclp_induct) (auto intro: reachable.step)

fun up_number :: "vm_tool \<Rightarrow> nat list" where
  "up_number (Up n p) = [n]"
| "up_number _ = []"

definition numbers :: "fleet \<Rightarrow> nat list" where
  \<comment> \<open>the numbers of the machines that run\<close>
  "numbers fl = concat (map up_number (f_tools fl))"

lemma up_number_iff: "n \<in> set (up_number t) \<longleftrightarrow> (\<exists>p. t = Up n p)"
  by (cases t) auto

lemma distinct_numbers:
  assumes "\<And>i j n m p q. i < length ts \<Longrightarrow> j < length ts \<Longrightarrow> ts ! i = Up n p \<Longrightarrow> ts ! j = Up m q \<Longrightarrow> i \<noteq> j \<Longrightarrow> n \<noteq> m"
  shows "distinct (concat (map up_number ts))"
  using assms
proof (induction ts)
  case (Cons t ts)
  have new: "n \<noteq> m" if "t = Up n p" "Up m q \<in> set ts" for n m p q
  proof -
    from that(2) obtain j where "j < length ts" "ts ! j = Up m q" by (auto simp: in_set_conv_nth)
    with that(1) Cons.prems [of 0 "Suc j" n p m q] show ?thesis by simp
  qed
  have "distinct (concat (map up_number ts))"
  proof (rule Cons.IH)
    fix i j n m p q
    assume "i < length ts" "j < length ts" "ts ! i = Up n p" "ts ! j = Up m q" "i \<noteq> j"
    then show "n \<noteq> m" using Cons.prems [of "Suc i" "Suc j" n p m q] by simp
  qed
  moreover have "distinct (up_number t)" by (cases t) simp_all
  moreover have "n \<notin> set (concat (map up_number ts))" if "n \<in> set (up_number t)" for n
    using that new by (auto simp: up_number_iff)
  ultimately show ?case by auto
qed simp

text \<open>
  C17. On a host where an invocation of \<^verbatim>\<open>rapido-vm\<close> only starts when no other one is between its
  first look at the pid files and the start of its machine, the machines that run at the same
  time always have different numbers (and with them pid files, network directories and MAC
  addresses), all of them from 1 to 999, however machines and other processes end in between,
  pid files left behind included; and the pid file of a running machine names its process.
\<close>

theorem vm_numbers_distinct:
  assumes "reachable su idle fl"
  shows "distinct (numbers fl) \<and> set (numbers fl) \<subseteq> {1..<1000}
    \<and> (\<forall>n p. Up n p \<in> set (f_tools fl) \<longrightarrow> p \<in> set (f_procs fl) \<and> f_files fl (pid_file (vs_dir su) n) = Some (pid_line p))"
proof -
  note inv = fleet_invD [OF reachable_inv [OF assms]]
  have at: "t \<in> set (f_tools fl) \<longleftrightarrow> (\<exists>i. tool_at fl i t)" for t by (auto simp: tool_at_def in_set_conv_nth)
  have "distinct (numbers fl)"
    unfolding numbers_def by (rule distinct_numbers) (use inv(4) in \<open>auto simp: tool_at_def\<close>)
  moreover have "n \<in> {1..<1000}" if "n \<in> set (numbers fl)" for n
  proof -
    from that obtain p i where "tool_at fl i (Up n p)" by (auto simp: numbers_def at up_number_iff)
    with inv(7) show ?thesis by fastforce
  qed
  ultimately show ?thesis using inv(1,3) unfolding at by blast
qed

section \<open>Invocations at the same time\<close>

lemma fleet_host_tools: "fleet_host h (fl\<lparr>f_tools := ts\<rparr>) = fleet_host h fl"
  by (simp add: fleet_host_def cong: if_cong)

lemma vm_pick_steps:
  assumes "vm_pick (fleet_host (vs_host su) fl) (vs_dir su) ns = Inr (Some n)" and "tool_at fl i (Checking ns)"
  shows "(fleet_step su ok)\<^sup>*\<^sup>* fl (set_tool i (Chosen n) fl)"
  using assms
proof (induction ns arbitrary: fl)
  case (Cons m ns)
  note up = is_up_def [of su fl m, symmetric]
  show ?case
  proof (cases "is_up su fl m = Inr True")
    case True
    let ?fl = "set_tool i (Checking ns) fl"
    have "fleet_host (vs_host su) ?fl = fleet_host (vs_host su) fl" by (simp add: set_tool_def fleet_host_tools)
    moreover have "tool_at ?fl i (Checking ns)" using Cons.prems(2) by (simp add: tool_at_set_tool) (simp add: tool_at_def)
    moreover have "set_tool i (Chosen n) ?fl = set_tool i (Chosen n) fl" by (simp add: set_tool_def)
    ultimately have "(fleet_step su ok)\<^sup>*\<^sup>* ?fl (set_tool i (Chosen n) fl)"
      using Cons.IH [of ?fl] Cons.prems(1) True by (simp add: up)
    with fleet_step.busy [OF Cons.prems(2) True] show ?thesis by (rule converse_rtranclp_into_rtranclp)
  next
    case False
    with Cons.prems(1) have "is_up su fl m = Inr False" "m = n" by (auto simp: up bindR_Inr_iff split: if_splits)
    with fleet_step.free [OF Cons.prems(2)] show ?thesis by (blast intro: r_into_rtranclp)
  qed
qed simp

lemma set_tool_last:
  "set_tool (length (f_tools fl)) u (fl\<lparr>f_tools := f_tools fl @ [t]\<rparr>) = fl\<lparr>f_tools := f_tools fl @ [u]\<rparr>"
  by (simp add: set_tool_def)

lemma fleet_command_tools: "fleet_command su (fl\<lparr>f_tools := ts\<rparr>) n = fleet_command su fl n"
  by (simp add: fleet_command_def fleet_host_tools)

text \<open>An invocation that nothing interferes with starts the machine that \<^const>\<open>vm_pick\<close> chooses.\<close>

lemma vm_alone_starts:
  assumes "vm_pick (fleet_host (vs_host su) fl) (vs_dir su) [1..<1000] = Inr (Some n)" and "ok fl"
    and "fleet_command su fl n = Inr cmd" and "p \<notin> set (f_procs fl)" and "p < 2 ^ 22"
  shows "(fleet_step su ok)\<^sup>*\<^sup>* fl
    (fl\<lparr>f_files := (f_files fl)(pid_file (vs_dir su) n \<mapsto> pid_line p), f_procs := p # f_procs fl, f_tools := f_tools fl @ [Up n p]\<rparr>)"
proof -
  let ?k = "length (f_tools fl)"
  let ?with = "\<lambda>t. fl\<lparr>f_tools := f_tools fl @ [t]\<rparr>"
  have "(fleet_step su ok)\<^sup>*\<^sup>* fl (?with (Checking [1..<1000]))" using fleet_step.invoke [of ok fl, OF assms(2)] by (rule r_into_rtranclp)
  also have "(fleet_step su ok)\<^sup>*\<^sup>* (?with (Checking [1..<1000])) (?with (Chosen n))"
    using vm_pick_steps [of su "?with (Checking [1..<1000])" _ n ?k ok] assms(1)
    by (simp only: fleet_host_tools set_tool_last) (simp add: tool_at_def)
  also have "fleet_step su ok (?with (Chosen n)) (set_tool ?k (Up n p) ((?with (Chosen n))
      \<lparr>f_files := (f_files (?with (Chosen n)))(pid_file (vs_dir su) n \<mapsto> pid_line p), f_procs := p # f_procs (?with (Chosen n))\<rparr>))"
    by (rule fleet_step.launch) (use assms(3-5) in \<open>simp_all add: fleet_command_tools tool_at_def\<close>)
  finally show ?thesis by (simp add: set_tool_def)
qed

definition decided :: "nat \<Rightarrow> vm_tool \<Rightarrow> bool" where
  "decided n t = (case t of Checking _ \<Rightarrow> False | Chosen m \<Rightarrow> m = n | Up m _ \<Rightarrow> m = n | Ended _ \<Rightarrow> True)"

lemma decided_simps [simp]:
  "\<not> decided n (Checking ns)" "decided n (Chosen m) \<longleftrightarrow> m = n" "decided n (Up m p) \<longleftrightarrow> m = n" "decided n (Ended r)"
  by (simp_all add: decided_def)

lemma decided_step:
  assumes "fleet_step su ok fl fl'" and "tool_at fl i t" and "decided n t"
  shows "\<exists>u. tool_at fl' i u \<and> decided n u"
proof -
  have set: "\<exists>u. tool_at (set_tool j v fl1) i u \<and> decided n u"
    if "tool_at fl j w" "decided n w \<Longrightarrow> decided n v" "f_tools fl1 = f_tools fl" for j v w fl1
    using that assms(2,3) by (auto simp: tool_at_set_tool) (auto simp: tool_at_def)
  from assms(1) show ?thesis
    by (elim fleet_stepE) (use assms(2,3) in \<open>auto intro: set simp: tool_at_invoke\<close>)
qed

lemma decided_steps:
  assumes "(fleet_step su ok)\<^sup>*\<^sup>* fl fl'" and "tool_at fl i t" and "decided n t"
  shows "\<exists>u. tool_at fl' i u \<and> decided n u"
  using assms by (induction rule: rtranclp_induct) (auto dest: decided_step)

text \<open>
  C36. Without that condition the choice is not safe: whatever machines run, when \<open>n\<close> is the number
  the next invocation would choose, two invocations at the same time can both choose \<open>n\<close>; and
  the choice is final, whatever happens afterwards neither of them ever starts another machine.
\<close>

theorem vm_pick_race:
  assumes "vm_pick (fleet_host (vs_host su) fl) (vs_dir su) [1..<1000] = Inr (Some n)"
  shows "(fleet_step su (\<lambda>_. True))\<^sup>*\<^sup>* fl (fl\<lparr>f_tools := f_tools fl @ [Chosen n, Chosen n]\<rparr>)
    \<and> (\<forall>fl' i. (fleet_step su (\<lambda>_. True))\<^sup>*\<^sup>* (fl\<lparr>f_tools := f_tools fl @ [Chosen n, Chosen n]\<rparr>) fl'
        \<and> i \<in> {length (f_tools fl), length (f_tools fl) + 1} \<longrightarrow>
        i < length (f_tools fl') \<and> decided n (f_tools fl' ! i))"
proof (intro conjI allI impI; (elim conjE)?)
  let ?c = "Checking [1..<1000]" and ?k = "length (f_tools fl)"
  let ?with = "\<lambda>ts. fl\<lparr>f_tools := f_tools fl @ ts\<rparr>"
  note invoke = fleet_step.invoke [of "\<lambda>_. True", OF TrueI]
  have "(fleet_step su (\<lambda>_. True))\<^sup>*\<^sup>* fl (?with [?c])" using invoke by (rule r_into_rtranclp)
  also have "fleet_step su (\<lambda>_. True) (?with [?c]) (?with [?c, ?c])" using invoke [of su "?with [?c]"] by simp
  also have "(fleet_step su (\<lambda>_. True))\<^sup>*\<^sup>* (?with [?c, ?c]) (?with [Chosen n, ?c])"
    using vm_pick_steps [of su "?with [?c, ?c]" _ n ?k] assms by (simp add: fleet_host_tools set_tool_def tool_at_def)
  also have "(fleet_step su (\<lambda>_. True))\<^sup>*\<^sup>* (?with [Chosen n, ?c]) (?with [Chosen n, Chosen n])"
    using vm_pick_steps [of su "?with [Chosen n, ?c]" _ n "Suc ?k"] assms
    by (simp add: fleet_host_tools set_tool_def tool_at_def nth_append list_update_append)
  finally show "(fleet_step su (\<lambda>_. True))\<^sup>*\<^sup>* fl (?with [Chosen n, Chosen n])" .
  fix fl' i
  assume s: "(fleet_step su (\<lambda>_. True))\<^sup>*\<^sup>* (?with [Chosen n, Chosen n]) fl'" and i: "i \<in> {?k, ?k + 1}"
  from i have "tool_at (?with [Chosen n, Chosen n]) i (Chosen n)" by (auto simp: tool_at_def nth_append)
  from decided_steps [OF s this, of n] have "\<exists>u. tool_at fl' i u \<and> decided n u" by simp
  then show "i < length (f_tools fl')" and "decided n (f_tools fl' ! i)" by (auto simp: tool_at_def)
qed

section \<open>Two machines\<close>

definition sample_setup :: vm_setup where
  "sample_setup =
    \<lparr>vs_host = files_host [(''/ks/.config'', ''CONFIG_X86_64=y''), (''/ks/arch/x86/boot/bzImage'', ''x''), (''img'', [])],
     vs_stty = None, vs_hash = (\<lambda>_ _. 0), vs_dir = ''run'', vs_img = ''img'',
     vs_conf = [''KERNEL_SRC'' \<mapsto> ''/ks'', ''VM_NET_CONF'' \<mapsto> ''/net'']\<rparr>"

definition one_vm :: fleet where
  "one_vm = \<lparr>f_files = [pid_file ''run'' 1 \<mapsto> pid_line 7], f_procs = [7], f_tools = [Up 1 7]\<rparr>"

definition two_vms :: fleet where
  "two_vms = \<lparr>f_files = [pid_file ''run'' 1 \<mapsto> pid_line 7, pid_file ''run'' 2 \<mapsto> pid_line 8], f_procs = [8, 7], f_tools = [Up 1 7, Up 2 8]\<rparr>"

lemma sample_command:
  "\<exists>cmd. fleet_command sample_setup no_fleet 1 = Inr cmd" "\<exists>cmd. fleet_command sample_setup one_vm 2 = Inr cmd"
proof -
  have "case fleet_command sample_setup no_fleet 1 of Inr _ \<Rightarrow> True | Inl _ \<Rightarrow> False"
    "case fleet_command sample_setup one_vm 2 of Inr _ \<Rightarrow> True | Inl _ \<Rightarrow> False" by code_simp+
  then show "\<exists>cmd. fleet_command sample_setup no_fleet 1 = Inr cmd" "\<exists>cmd. fleet_command sample_setup one_vm 2 = Inr cmd"
    by (auto split: sum.splits)
qed

lemma sample_pick:
  "vm_pick (fleet_host (vs_host sample_setup) no_fleet) ''run'' [1..<1000] = Inr (Some 1)"
  "vm_pick (fleet_host (vs_host sample_setup) one_vm) ''run'' [1..<1000] = Inr (Some 2)"
proof -
  have free: "vm_is_running (fleet_host (vs_host sample_setup) fl) (pid_file ''run'' n) = Inr False"
    if "f_files fl (pid_file ''run'' n) = None" for fl n
    using that by (simp add: vm_is_running_def fleet_host_def sample_setup_def files_host_def pid_file_def)
  have "is_up sample_setup one_vm 1 = Inr True" by (rule pid_line_up [where p = 7]) (simp_all add: one_vm_def sample_setup_def)
  then have "vm_is_running (fleet_host (vs_host sample_setup) one_vm) (pid_file ''run'' 1) = Inr True"
    by (simp add: is_up_def) (simp add: sample_setup_def)
  moreover have "{1..<2} = {1::nat}" by auto
  moreover have "f_files one_vm (pid_file ''run'' 2) = None" by (simp add: one_vm_def pid_file_inject)
  ultimately show "vm_pick (fleet_host (vs_host sample_setup) one_vm) ''run'' [1..<1000] = Inr (Some 2)"
    using free [of one_vm 2] by (intro vm_pick_free) simp_all
  show "vm_pick (fleet_host (vs_host sample_setup) no_fleet) ''run'' [1..<1000] = Inr (Some 1)"
    using free [of no_fleet 1] by (intro vm_pick_free) (auto simp: no_fleet_def)
qed

lemma two_vms_reachable: "reachable sample_setup idle two_vms"
proof -
  have d: "vs_dir sample_setup = ''run''" by (simp add: sample_setup_def)
  have u: "one_vm = no_fleet\<lparr>f_files := (f_files no_fleet)(pid_file ''run'' 1 \<mapsto> pid_line 7), f_procs := 7 # f_procs no_fleet, f_tools := f_tools no_fleet @ [Up 1 7]\<rparr>"
    "two_vms = one_vm\<lparr>f_files := (f_files one_vm)(pid_file ''run'' 2 \<mapsto> pid_line 8), f_procs := 8 # f_procs one_vm, f_tools := f_tools one_vm @ [Up 2 8]\<rparr>"
    by (simp_all add: no_fleet_def one_vm_def two_vms_def)
  have s: "idle no_fleet" "idle one_vm" "8 \<notin> set (f_procs one_vm)" "7 \<notin> set (f_procs no_fleet)"
    by (simp_all add: idle_def no_fleet_def one_vm_def)
  obtain cmd1 cmd2 where c: "fleet_command sample_setup no_fleet 1 = Inr cmd1" "fleet_command sample_setup one_vm 2 = Inr cmd2"
    using sample_command by blast
  have "(fleet_step sample_setup idle)\<^sup>*\<^sup>* no_fleet one_vm"
    unfolding u(1) d [symmetric] by (rule vm_alone_starts [of _ _ _ idle, OF _ s(1) c(1) s(4)]) (simp_all only: d sample_pick, simp)
  moreover have "(fleet_step sample_setup idle)\<^sup>*\<^sup>* one_vm two_vms"
    unfolding u(2) d [symmetric] by (rule vm_alone_starts [of _ _ _ idle, OF _ s(2) c(2) s(3)]) (simp_all only: d sample_pick, simp)
  ultimately show ?thesis using reachable_steps reachable.start by blast
qed

theorem vm_numbers_distinct_witness:
  "reachable sample_setup idle two_vms \<and> numbers two_vms = [1, 2] \<and> distinct (numbers two_vms)
    \<and> f_files two_vms (pid_file ''run'' 2) = Some (pid_line 8)"
  using vm_numbers_distinct [OF two_vms_reachable]
  by (simp add: two_vms_reachable) (simp add: numbers_def two_vms_def sample_setup_def)

theorem vm_pick_race_witness:
  "(fleet_step sample_setup (\<lambda>_. True))\<^sup>*\<^sup>* one_vm (one_vm\<lparr>f_tools := [Up 1 7, Chosen 2, Chosen 2]\<rparr>)"
proof -
  have "vs_dir sample_setup = ''run''" by (simp add: sample_setup_def)
  with sample_pick(2) have "vm_pick (fleet_host (vs_host sample_setup) one_vm) (vs_dir sample_setup) [1..<1000] = Inr (Some 2)" by simp
  from vm_pick_race [OF this] show ?thesis by (simp add: one_vm_def)
qed

end
