(* ===== verification/Completion.thy ===== *)
theory Completion
  imports Host
begin

text \<open>
  The tool \<^verbatim>\<open>src/bin/bash-completion.rs\<close>, which bash runs to complete a \<^verbatim>\<open>rapido\<close> command
  line. The state is what it has printed. \<^verbatim>\<open>bash -c\<close> with \<^verbatim>\<open>compgen\<close> is an argument of the
  model: the command it is given, to its output and whether it succeeds.
\<close>

type_synonym shell = "bytes \<Rightarrow> error_kind + (bytes \<times> bool)"

definition RAPIDO_CUT_DIR :: bytes where "RAPIDO_CUT_DIR = ''cut''"

definition RAPIDO_CMDS :: "bytes list" where
  "RAPIDO_CMDS = [''boot'', ''cut'', ''help'', ''list'', ''setup-network'', ''teardown-network'']"

definition put_out :: "bytes \<Rightarrow> (bytes, unit) eff" where
  "put_out z = modifyE (\<lambda>out. out @ z)"

section \<open>Candidates\<close>

fun cut_names :: "(error_kind + bytes) list \<Rightarrow> bytes \<Rightarrow> (bytes, bool) eff" where
  "cut_names [] filter_inc = ret True"
| "cut_names (Inl _ # es) filter_inc = ret False"
| "cut_names (Inr name # es) filter_inc =
    (case file_stem (path_join RAPIDO_CUT_DIR name) of
       None \<Rightarrow> cut_names es filter_inc
     | Some stem \<Rightarrow>
       if \<not> utf8_valid stem then cut_names es filter_inc
       else
         (let ent = replace_byte CHR ''_'' CHR ''-'' stem in
          if starts_with filter_inc ent
          then seqE (put_out (ent @ [newline])) (cut_names es filter_inc)
          else cut_names es filter_inc))"

definition complete_cut_script_name :: "host \<Rightarrow> bytes \<Rightarrow> (bytes, bool) eff" where
  "complete_cut_script_name h filter_inc =
    (case h_readdir h RAPIDO_CUT_DIR of Inl _ \<Rightarrow> ret False | Inr cut_ls \<Rightarrow> cut_names cut_ls filter_inc)"

definition complete_filter :: "bytes list \<Rightarrow> bytes \<Rightarrow> (bytes, unit) eff" where
  "complete_filter options filter_inc =
    for_each options (\<lambda>param. if starts_with filter_inc param then put_out (param @ [newline]) else ret ())"

definition complete_local_file :: "shell \<Rightarrow> bytes \<Rightarrow> (bytes, bool) eff" where
  "complete_local_file sh filter_inc =
    (case sh (''compgen -o filenames -A file -- '' @ filter_inc) of
       Inl _ \<Rightarrow> ret False
     | Inr (stdout, ok) \<Rightarrow> seqE (put_out stdout) (ret ok))"

definition complete_cut_any_param :: "host \<Rightarrow> bytes \<Rightarrow> bool \<Rightarrow> (bytes, bool) eff" where
  "complete_cut_any_param h cursor_cmpl seen_b =
    seqE (complete_filter (if seen_b then [''-f'', ''-x''] else [''-B'', ''-f'', ''-x'']) cursor_cmpl)
      (complete_cut_script_name h cursor_cmpl)"

definition complete_cut :: "host \<Rightarrow> shell \<Rightarrow> bytes list \<Rightarrow> bytes \<Rightarrow> bool \<Rightarrow> (bytes, bool) eff" where
  "complete_cut h sh prior_args cursor_cmpl seen_b =
    (if length prior_args < 2 \<or> prior_args ! 1 \<noteq> ''cut'' then throw (Panic ''assertion failed'')
     else if length prior_args = 2 then complete_cut_any_param h cursor_cmpl False
     else if last prior_args = ''-f'' then complete_local_file sh cursor_cmpl
     else if last prior_args = ''-x'' then ret False
     else if last prior_args = ''-B'' then complete_cut_any_param h cursor_cmpl True
     else if length prior_args \<le> 3 then ret False
     else if prior_args ! (length prior_args - 2) = ''-f'' then complete_cut_any_param h cursor_cmpl seen_b
     else ret False)"

section \<open>The word under the cursor\<close>

function chars :: "bytes \<Rightarrow> bytes list" where
  \<comment> \<open>the characters of a valid string, each as its bytes\<close>
  "chars [] = []"
| "chars (a # s) = (a # take (char_len a - 1) s) # chars (drop (char_len a - 1) s)"
  by pat_completeness auto
termination
  by (relation "measure length") auto

definition is_char_boundary :: "bytes \<Rightarrow> nat \<Rightarrow> bool" where
  "is_char_boundary s i \<longleftrightarrow> i = 0 \<or> i = length s \<or> (i < length s \<and> \<not> cont_byte (s ! i))"

definition replace_range :: "bytes \<Rightarrow> nat \<Rightarrow> nat \<Rightarrow> bytes \<Rightarrow> bytes res" where
  \<comment> \<open>\<^verbatim>\<open>String::replace_range(a..b, r)\<close>\<close>
  "replace_range s a b r =
    (if is_char_boundary s a \<and> is_char_boundary s b then Inr (take a s @ r @ drop b s)
     else Inl (Panic ''assertion failed: self.is_char_boundary(n)''))"

definition complete_nil_arg_under_cursor :: "bytes \<Rightarrow> bytes option \<Rightarrow> (bytes \<times> bool) res" where
  "complete_nil_arg_under_cursor s comp_tok =
    (if NUL \<notin> set s then Inr (s, False)
     else case comp_tok of
       Some t \<Rightarrow> Inr (concat (map (\<lambda>c. if c = NUL then t else [c]) s), True)
     | None \<Rightarrow> if last s = NUL then Inr (butlast s, True) else Inl (Panic ''assertion failed''))"

definition mark_cursor :: "bytes \<Rightarrow> nat \<Rightarrow> (bytes \<times> bytes option) res" where
  \<comment> \<open>the command line with a nul at the cursor, and the character it stands for\<close>
  "mark_cursor comp_line comp_point =
    (if comp_point < length (chars comp_line) then
       (let tok = chars comp_line ! comp_point; ws = ws_len tok \<noteq> 0 in
        bindR (replace_range comp_line comp_point (comp_point + 1) (if ws then [NUL, CHR '' ''] else [NUL])) (\<lambda>l.
        Inr (l, if ws then None else Some tok)))
     else Inr (comp_line @ [NUL], None))"

fun complete_words :: "host \<Rightarrow> shell \<Rightarrow> bytes option \<Rightarrow> bytes list \<Rightarrow> bytes list \<Rightarrow> bool \<Rightarrow> (bytes, bool) eff" where
  "complete_words h sh tok [] args seen_b = ret False"
| "complete_words h sh tok (s # ws) args seen_b =
    (if s = ''-x'' then ret False
     else
       bindE (lift_res (complete_nil_arg_under_cursor s tok)) (\<lambda>(arg, under_cursor).
       if under_cursor then
         (case args of
            [] \<Rightarrow> ret False
          | [_] \<Rightarrow> seqE (complete_filter RAPIDO_CMDS arg) (ret True)
          | _ # a1 # _ \<Rightarrow> if a1 = ''cut'' then complete_cut h sh args arg seen_b else ret False)
       else complete_words h sh tok ws (args @ [arg]) (seen_b \<or> arg = ''-B'')))"

definition complete_rapido :: "host \<Rightarrow> shell \<Rightarrow> bytes \<Rightarrow> nat \<Rightarrow> (bytes, bool) eff" where
  "complete_rapido h sh comp_line comp_point =
    bindE (lift_res (mark_cursor comp_line comp_point)) (\<lambda>(l, tok).
    complete_words h sh tok (split_whitespace l) [] False)"

definition completion_main :: "host \<Rightarrow> shell \<Rightarrow> bytes list \<Rightarrow> (bytes, unit) eff" where
  \<comment> \<open>the arguments with the program name first; every refusal is silent\<close>
  "completion_main h sh args =
    (case args of
       _ # prog_cmpl # _ \<Rightarrow>
         (case (h_env h ''COMP_LINE'', h_env h ''COMP_POINT'') of
            (Some comp_line, Some ps) \<Rightarrow>
              (if \<not> utf8_valid comp_line \<or> \<not> utf8_valid ps then ret ()
               else case from_str_radix 64 10 ps of
                 None \<Rightarrow> ret ()
               | Some comp_point \<Rightarrow>
                 if (prog_cmpl = ''rapido'' \<or> prog_cmpl = ''./rapido'') \<and> is_file h ''rapido''
                 then bindE (complete_rapido h sh comp_line comp_point) (\<lambda>_. ret ())
                 else ret ())
          | _ \<Rightarrow> ret ())
     | _ \<Rightarrow> ret ())"

end
