(* ===== verification/Completion_Run.thy ===== *)
theory Completion_Run
  imports Completion Cut_Main
begin

text \<open>
  What the completion prints: the candidates after \<^verbatim>\<open>rapido cut\<close>, and the lines on which the
  position of the cursor makes it panic.
\<close>

section \<open>Candidates\<close>

definition print_lines :: "bytes list \<Rightarrow> bytes" where
  "print_lines ls = concat (map (\<lambda>l. l @ [newline]) ls)"

definition cut_stem :: "bytes \<Rightarrow> bytes option" where
  \<comment> \<open>the name of a cut script as it is given on the command line\<close>
  "cut_stem name =
    (case file_stem (path_join RAPIDO_CUT_DIR name) of
       None \<Rightarrow> None
     | Some stem \<Rightarrow> if utf8_valid stem then Some (replace_byte CHR ''_'' CHR ''-'' stem) else None)"

lemma complete_filter_prints:
  "complete_filter opts w out = (Inr (), out @ print_lines (filter (starts_with w) opts))"
  unfolding complete_filter_def
  by (induction opts arbitrary: out) (auto simp: print_lines_def bindE_def put_out_def)

lemma cut_names_prints:
  "cut_names (map Inr names) w out = (Inr True, out @ print_lines (filter (starts_with w) (List.map_filter cut_stem names)))"
proof (induction names arbitrary: out)
  case (Cons name names)
  then show ?case
    by (auto simp: cut_stem_def print_lines_def put_out_def Let_def seqE_def bindE_def List.map_filter_simps
        split: option.splits)
qed (simp add: print_lines_def List.map_filter_simps)

lemma complete_cut_any_param_prints:
  assumes "h_readdir h RAPIDO_CUT_DIR = Inr (map Inr names)"
  shows "complete_cut_any_param h w False out
    = (Inr True, out @ print_lines (filter (starts_with w) ([''-B'', ''-f'', ''-x''] @ List.map_filter cut_stem names)))"
  by (simp add: complete_cut_any_param_def complete_filter_prints complete_cut_script_name_def assms cut_names_prints
      seqE_def bindE_def) (simp add: print_lines_def)

section \<open>The word under the cursor\<close>

lemma chars_length: "length (chars s) \<le> length s"
proof (induction s rule: chars.induct)
  case (2 a s)
  then show ?case by simp
qed simp

lemma take_word_cursor: "word_ok w \<Longrightarrow> take_word (w @ [NUL]) = w @ [NUL]"
  by (induction w) (simp add: ascii_ws_def byte_in_def byte_val_def, simp add: ws_len_printable del: ws_len.simps)

lemma split_whitespace_cursor:
  assumes "word_ok w"
  shows "split_whitespace (w @ [NUL]) = [w @ [NUL]]"
proof -
  obtain c v where w: "w @ [NUL] = c # v" and v: "take_word v = v" and c: "ws_len (c # v) = 0"
  proof (cases w)
    case Nil
    then show thesis by (intro that [of NUL "[]"]) (simp_all add: ascii_ws_def byte_in_def byte_val_def)
  next
    case (Cons c u)
    with assms show thesis
      by (intro that [of c "u @ [NUL]"]) (simp_all add: take_word_cursor ws_len_printable del: ws_len.simps)
  qed
  then show ?thesis
    by (simp add: split_whitespace.simps [of "c # v"] trim_start.simps [of "c # v"] split_whitespace_Nil del: ws_len.simps)
qed

text \<open>
  C39. Completing a word after \<^verbatim>\<open>rapido cut\<close> at the end of the line prints exactly the options and
  the names of the cut scripts that start with the typed word, in this order, one per line.
\<close>

theorem complete_cut_candidates:
  assumes "word_ok w" and "h_readdir h RAPIDO_CUT_DIR = Inr (map Inr names)"
  shows "complete_rapido h sh (''rapido cut '' @ w) (length (''rapido cut '' @ w)) out
    = (Inr True, out @ print_lines (filter (starts_with w) ([''-B'', ''-f'', ''-x''] @ List.map_filter cut_stem names)))"
proof -
  let ?line = "''rapido cut '' @ w"
  have "mark_cursor ?line (length ?line) = Inr (?line @ [NUL], None)"
    using chars_length [of ?line] by (simp add: mark_cursor_def)
  moreover have "split_whitespace (?line @ [NUL]) = [''rapido'', ''cut'', w @ [NUL]]"
    using split_whitespace_word [of "''rapido''" "CHR '' ''" "''cut '' @ w @ [NUL]"]
      split_whitespace_word [of "''cut''" "CHR '' ''" "w @ [NUL]"] split_whitespace_cursor [OF assms(1)]
    by (simp add: byte_in_def byte_val_def)
  moreover have "complete_nil_arg_under_cursor ''rapido'' None = Inr (''rapido'', False)"
    "complete_nil_arg_under_cursor ''cut'' None = Inr (''cut'', False)"
    "complete_nil_arg_under_cursor (w @ [NUL]) None = Inr (w, True)"
    by (simp_all add: complete_nil_arg_under_cursor_def)
  ultimately show ?thesis
    by (simp add: complete_rapido_def bindE_def complete_cut_def complete_cut_any_param_prints [OF assms(2)])
qed

theorem complete_cut_candidates_witness:
  "complete_rapido ((files_host [])\<lparr>h_readdir := (\<lambda>_. Inr [Inr ''btrfs.sh'', Inr ''fstests_xfs.sh'']) \<rparr>) (\<lambda>_. Inl NotFound)
      ''rapido cut f'' 12 [] = (Inr True, ''fstests-xfs'' @ [newline])"
proof -
  let ?h = "(files_host [])\<lparr>h_readdir := (\<lambda>_. Inr [Inr ''btrfs.sh'', Inr ''fstests_xfs.sh'']) \<rparr>"
  let ?out = "print_lines (filter (starts_with ''f'')
      ([''-B'', ''-f'', ''-x''] @ List.map_filter cut_stem [''btrfs.sh'', ''fstests_xfs.sh'']))"
  have "h_readdir ?h RAPIDO_CUT_DIR = Inr (map Inr [''btrfs.sh'', ''fstests_xfs.sh''])" by simp
  moreover have "word_ok ''f''" by (simp add: byte_in_def byte_val_def)
  ultimately have "complete_rapido ?h (\<lambda>_. Inl NotFound) (''rapido cut '' @ ''f'') (length (''rapido cut '' @ ''f'')) [] = (Inr True, [] @ ?out)"
    by (intro complete_cut_candidates)
  moreover have "?out = ''fstests-xfs'' @ [newline]" by code_simp
  ultimately show ?thesis by (simp add: eval_nat_numeral)
qed

lemma utf8_second_byte:
  assumes "utf8_valid (a # s)" and "1 < char_len a"
  shows "\<exists>b s1. s = b # s1 \<and> cont_byte b"
proof -
  have "\<not> byte_in 0 127 a" using assms(2) by (auto simp: char_len_def byte_in_def split: if_splits)
  with assms(1) show ?thesis
    by (auto simp: byte_in_def split: list.splits if_splits)
qed

text \<open>
  C40. The cursor position is taken as a number of characters and then used as a number of
  bytes: with the cursor on the second character of a line that starts with a character of
  more than one byte, the completion panics on a position inside the first character. With the
  cursor behind a line of that one character only, where there is no second one, it marks the end
  of the line.
\<close>

theorem complete_rapido_panics:
  assumes "utf8_valid line" and "chars line = c # cs" and "1 < length c"
  shows "if cs = [] then mark_cursor line 1 = Inr (line @ [NUL], None)
    else complete_rapido h sh line 1 out = (Inl (Panic ''assertion failed: self.is_char_boundary(n)''), out)"
proof -
  from assms(2) obtain a s where l: "line = a # s" by (cases line) auto
  with assms(2,3) have "1 < char_len a" by auto
  from utf8_second_byte [OF assms(1) [unfolded l] this] obtain b s1 where b: "s = b # s1" "cont_byte b" by blast
  have "\<not> is_char_boundary line 1" if "cs \<noteq> []"
  proof
    assume "is_char_boundary line 1"
    with b l have "s = []" by (simp add: is_char_boundary_def)
    with b show False by simp
  qed
  then have "mark_cursor line 1 = Inl (Panic ''assertion failed: self.is_char_boundary(n)'')" if "cs \<noteq> []"
    using that assms(2) by (simp add: mark_cursor_def Let_def replace_range_def)
  then show ?thesis using assms(2) by (simp add: complete_rapido_def mark_cursor_def bindE_def)
qed

theorem complete_rapido_panics_witness:
  "complete_rapido (files_host []) (\<lambda>_. Inl NotFound) [CHR 0xC3, CHR 0xA9, CHR 0xC3, CHR 0xA9] 1 []
    = (Inl (Panic ''assertion failed: self.is_char_boundary(n)''), [])"
proof -
  let ?l = "[CHR 0xC3, CHR 0xA9, CHR 0xC3, CHR 0xA9]"
  have "utf8_valid ?l" "chars ?l = [CHR 0xC3, CHR 0xA9] # [[CHR 0xC3, CHR 0xA9]]" by code_simp+
  from complete_rapido_panics [OF this, of "files_host []" "\<lambda>_. Inl NotFound" "[]"] show ?thesis by simp
qed

end
