(* ===== verification/Manifest_Run.thy ===== *)
theory Manifest_Run
  imports Cut_Main
begin

text \<open>
  What the manifest language guarantees: variables in paths, the directives that the help
  text documents, and manifests that include themselves.
\<close>

section \<open>Variables in paths\<close>

lemma split_inclusive_none: "s \<noteq> [] \<Longrightarrow> \<forall>c\<in>set s. \<not> P c \<Longrightarrow> split_inclusive P s = [s]"
proof (induction s)
  case (Cons c s)
  then show ?case by (cases s) simp_all
qed simp

lemma split_inclusive_first: "\<forall>c\<in>set a. \<not> P c \<Longrightarrow> P d \<Longrightarrow> split_inclusive P (a @ d # s) = (a @ [d]) # split_inclusive P s"
  by (induction a) auto

lemma ends_with_none: "x \<notin> set s \<Longrightarrow> s \<noteq> [] \<Longrightarrow> \<not> ends_with [x] s"
  by (cases s rule: rev_cases) auto

lemma sub_path_vars_plain:
  assumes "CHR ''$'' \<notin> set p"
  shows "sub_path_vars conf p = Inr p"
proof (cases "p = []")
  case False
  with assms have "split_inclusive (\<lambda>c. c = CHR ''$'') p = [p]" by (intro split_inclusive_none) auto
  moreover have "\<not> ends_with ''$'' p" using assms False by (intro ends_with_none)
  ultimately show ?thesis by (simp add: sub_path_vars_def Let_def)
qed (simp add: sub_path_vars_def)

text \<open>A path with references, each followed by some text, and what they stand for.\<close>

fun ref_text :: "(bytes \<times> bytes) list \<Rightarrow> bytes" where
  "ref_text [] = []"
| "ref_text ((k, b) # refs) = ''${'' @ k @ ''}'' @ b @ ref_text refs"

fun ref_values :: "conf \<Rightarrow> (bytes \<times> bytes) list \<Rightarrow> bytes option" where
  "ref_values conf [] = Some []"
| "ref_values conf ((k, b) # refs) =
    (case (conf k, ref_values conf refs) of (Some v, Some r) \<Rightarrow> Some (v @ b @ r) | _ \<Rightarrow> None)"

definition no_meta :: "bytes \<Rightarrow> bool" where
  "no_meta s \<longleftrightarrow> (\<forall>c\<in>set s. c \<notin> {CHR ''$'', CHR ''{'', CHR ''}''})"

lemma var_block_ref:
  assumes "no_meta k" and "CHR ''{'' \<notin> set t" and "CHR ''}'' \<notin> set t"
  shows "var_block conf (''{'' @ k @ ''}'' @ t) =
    (case conf k of
       None \<Rightarrow> Inl ''invalid variable substitution: not seen''
     | Some v \<Rightarrow> Inr (v, if t = [] then None else Some t))"
proof -
  let ?brace = "\<lambda>c. c = CHR ''{'' \<or> c = CHR ''}''"
  have "split_inclusive ?brace (k @ CHR ''}'' # t) = (k @ ''}'') # split_inclusive ?brace t"
    using assms(1) by (intro split_inclusive_first) (auto simp: no_meta_def)
  moreover have "split_inclusive ?brace t = (if t = [] then [] else [t])"
    using assms(2,3) split_inclusive_none [of t ?brace] by auto
  ultimately show ?thesis by (simp add: var_block_def split: option.splits)
qed

lemma sub_blocks_refs:
  assumes "no_meta k" and "no_meta b" and "\<forall>(k, b)\<in>set refs. no_meta k \<and> no_meta b"
  shows "sub_blocks conf (split_inclusive (\<lambda>c. c = CHR ''$'') (''{'' @ k @ ''}'' @ b @ ref_text refs)) True acc =
    (case ref_values conf ((k, b) # refs) of
       Some r \<Rightarrow> Inr (acc @ r)
     | None \<Rightarrow> Inl ''invalid variable substitution: not seen'')"
  using assms
proof (induction refs arbitrary: k b acc)
  case Nil
  let ?block = "''{'' @ k @ ''}'' @ b"
  have "split_inclusive (\<lambda>c. c = CHR ''$'') ?block = [?block]"
    using Nil.prems(1,2) by (intro split_inclusive_none) (auto simp: no_meta_def)
  moreover have "b \<noteq> [] \<Longrightarrow> \<not> ends_with ''$'' b" using Nil.prems(2) by (intro ends_with_none) (auto simp: no_meta_def)
  moreover have "var_block conf ?block = (case conf k of
       None \<Rightarrow> Inl ''invalid variable substitution: not seen'' | Some v \<Rightarrow> Inr (v, if b = [] then None else Some b))"
    using Nil.prems(1,2) by (intro var_block_ref) (auto simp: no_meta_def)
  ultimately show ?case by (auto simp: Let_def split: option.splits)
next
  case (Cons r refs)
  obtain j c where r: "r = (j, c)" by (cases r)
  let ?rest = "split_inclusive (\<lambda>c. c = CHR ''$'') (''{'' @ j @ ''}'' @ c @ ref_text refs)"
  let ?block = "''{'' @ k @ ''}'' @ b @ ''$''"
  have "split_inclusive (\<lambda>c. c = CHR ''$'') ((''{'' @ k @ ''}'' @ b) @ CHR ''$'' # (''{'' @ j @ ''}'' @ c @ ref_text refs))
      = ((''{'' @ k @ ''}'' @ b) @ ''$'') # ?rest"
    using Cons.prems(1,2) by (intro split_inclusive_first) (auto simp: no_meta_def)
  then have blocks: "split_inclusive (\<lambda>c. c = CHR ''$'') (''{'' @ k @ ''}'' @ b @ ref_text (r # refs)) = ?block # ?rest"
    by (simp add: r)
  have var: "var_block conf ?block = (case conf k of
       None \<Rightarrow> Inl ''invalid variable substitution: not seen'' | Some v \<Rightarrow> Inr (v, Some (b @ ''$'')))"
    using Cons.prems(1,2) by (subst var_block_ref) (auto simp: no_meta_def)
  have "sub_blocks conf ?rest True acc' = (case ref_values conf (r # refs) of
       Some r \<Rightarrow> Inr (acc' @ r) | None \<Rightarrow> Inl ''invalid variable substitution: not seen'')" for acc'
    using Cons.IH [of j c acc'] Cons.prems(3) r by auto
  then show ?case unfolding blocks
    by (cases "conf k"; cases "ref_values conf (r # refs)")
      (simp_all add: var [simplified] ends_with_def Let_def r)
qed

text \<open>
  C20. The references \<^verbatim>\<open>${KEY}\<close> in a manifest path are replaced by the values that the configuration has
  for the keys, whatever characters the values hold, and the text before, between and after them is
  kept; a key that is not configured is an error. The text and the keys hold no dollar sign and no brace
  of their own: after a reference the code drops what follows another brace.
\<close>

theorem sub_path_vars_reference:
  assumes "no_meta a" and "\<forall>(k, b)\<in>set refs. no_meta k \<and> no_meta b"
  shows "sub_path_vars conf (a @ ref_text refs)
    = (case ref_values conf refs of Some r \<Rightarrow> Inr (a @ r) | None \<Rightarrow> Inl ''invalid variable substitution: not seen'')"
proof (cases refs)
  case Nil
  have "CHR ''$'' \<notin> set a" using assms(1) by (auto simp: no_meta_def)
  with Nil show ?thesis by (simp add: sub_path_vars_plain)
next
  case (Cons r rs)
  obtain k b where r: "r = (k, b)" by (cases r)
  let ?rest = "''{'' @ k @ ''}'' @ b @ ref_text rs"
  have "split_inclusive (\<lambda>c. c = CHR ''$'') (a @ CHR ''$'' # ?rest) = (a @ ''$'') # split_inclusive (\<lambda>c. c = CHR ''$'') ?rest"
    using assms(1) by (intro split_inclusive_first) (auto simp: no_meta_def)
  then have "sub_path_vars conf (a @ ref_text refs) = sub_blocks conf (split_inclusive (\<lambda>c. c = CHR ''$'') ?rest) True a"
    by (simp add: sub_path_vars_def Cons r ends_with_def Let_def)
  with sub_blocks_refs [of k b rs conf a] assms(2) show ?thesis by (simp add: Cons r)
qed

theorem sub_path_vars_reference_witness:
  "sub_path_vars [''K'' \<mapsto> ''v$'', ''J'' \<mapsto> ''w''] ''/x/${K}/y${J}'' = Inr ''/x/v$/yw''"
  using sub_path_vars_reference [of "''/x/''" "[(''K'', ''/y''), (''J'', [])]" "[''K'' \<mapsto> ''v$'', ''J'' \<mapsto> ''w'']"]
  by (simp add: no_meta_def)

section \<open>Manifests that include themselves\<close>

definition include_line :: "bytes \<Rightarrow> bytes" where
  "include_line p = ''include '' @ p @ [newline]"

lemma include_line_read:
  assumes "word_ok p" and "length p < 16000"
  shows "read_line (include_line p @ rest, e) = (Inr (include_line p), rest, e)"
    and "length (include_line p) \<le> 16 * 1024"
proof -
  have "newline \<notin> set (''include '' @ p)" using word_ok_blank [OF assms(1)] by (auto simp: newline_def)
  then have "read_until newline (include_line p @ rest) = (include_line p, rest)"
    using read_until_line [of newline "''include '' @ p" rest] by (simp add: include_line_def)
  moreover have "utf8_valid (include_line p)"
    using assms(1) by (intro utf8_valid_ascii) (auto simp: include_line_def word_ok_def byte_in_def byte_val_def newline_def)
  ultimately show "read_line (include_line p @ rest, e) = (Inr (include_line p), rest, e)"
    by (simp add: read_line_def line_error_def utf8_line_def) (simp add: include_line_def)
qed (use assms(2) in \<open>simp add: include_line_def\<close>)

lemma include_directive:
  assumes "word_ok p" and "p \<noteq> []" and "CHR ''$'' \<notin> set p"
    and "path_stat h (GManifest p) = Inr f" and "h_open h (fe_path f) = Inr (md, rd)"
  shows "manifest_parse_one fuel h conf (include_line p) s = (Inr (), s\<lparr>cu_fests := rd # cu_fests s\<rparr>)"
proof -
  have "split_whitespace (include_line p) = [''include'', p]"
    using split_whitespace_word [of "''include''" "CHR '' ''" "p @ [newline]"] split_whitespace_word [OF assms(1,2), of newline "[]"]
    by (simp add: include_line_def split_whitespace_Nil byte_in_def byte_val_def)
  moreover have "manifest_name_sub conf (Some p) = Inr p" by (simp add: manifest_name_sub_def sub_path_vars_plain assms(3))
  then have "manifest_include h conf (Some p) s = (Inr (), s\<lparr>cu_fests := rd # cu_fests s\<rparr>)"
    using assms(4,5) by (simp add: manifest_include_def)
  ultimately show ?thesis
    by (simp add: manifest_parse_one_def directive_def arg_def starts_with_def)
qed

text \<open>
  C31. A manifest whose first line includes the manifest itself is never read to its end: the
  loop of \<^verbatim>\<open>manifest_parse\<close> runs out of every bound on its rounds, opening the file once more in
  each, because included files are not remembered.
\<close>

theorem manifest_self_include:
  assumes "cu_fests s = (include_line p @ rest, e) # fests"
    and "path_stat h (GManifest p) = Inr f" and "h_open h (fe_path f) = Inr (md, include_line p @ rest, e)"
    and "word_ok p" and "p \<noteq> []" and "CHR ''$'' \<notin> set p" and "length p < 16000"
  shows "fst (manifest_parse fuel h conf s) = Inl OutOfFuel"
proof -
  have "fst (manifest_loop n fuel h conf t) = Inl OutOfFuel"
    if "\<exists>fests. cu_fests t = (include_line p @ rest, e) # fests" for n t
    using that
  proof (induction n arbitrary: t)
    case (Suc n)
    then obtain fs where t: "cu_fests t = (include_line p @ rest, e) # fs" by blast
    let ?u = "t\<lparr>cu_fests := (rest, e) # fs\<rparr>"
    have "include_line p \<noteq> []" by (simp add: include_line_def)
    with t include_line_read [OF assms(4,7)] have r: "manifest_read t = (Inr (Some (include_line p)), ?u)"
      by (simp add: manifest_read_def)
    note d = include_directive [OF assms(4-6,2,3), of fuel conf ?u]
    have "fst (manifest_loop n fuel h conf (?u\<lparr>cu_fests := (include_line p @ rest, e) # cu_fests ?u\<rparr>)) = Inl OutOfFuel"
      by (rule Suc.IH) simp
    with t r d show ?case by (simp add: bindE_def seqE_def)
  qed simp
  with assms(1) show ?thesis by (simp add: manifest_parse_def seqE_def bindE_def)
qed

theorem manifest_self_include_witness:
  "fst (manifest_parse 1000 (files_host [(''/m'', include_line ''/m'')]) Map.empty
      (cut_start \<lparr>w_buf = [], w_room = None\<rparr> [(include_line ''/m'', None)])) = Inl OutOfFuel"
proof -
  let ?h = "files_host [(''/m'', include_line ''/m'')]"
  have f: "path_stat ?h (GManifest ''/m'') = Inr \<lparr>fe_path = ''/m'', fe_md = file_meta (include_line ''/m'')\<rparr>" by code_simp
  show ?thesis
    by (rule manifest_self_include [OF _ f, where e = None and rest = "[]" and fests = "[]"])
      (simp_all add: cut_start_def files_host_def byte_in_def byte_val_def)
qed

section \<open>The documented directives\<close>

definition documented :: "bytes list" where
  \<comment> \<open>the first words of the lines between the comment and the next empty line\<close>
  "documented = map (\<lambda>l. hd (split_whitespace l)) (takeWhile (\<lambda>l. l \<noteq> []) (drop 4 MANIFEST_FORMAT))"

lemma documented_words:
  "documented = [''bin'', ''try-bin'', ''kmod'', ''try-kmod'', ''dir'', ''file'', ''autorun'', ''tree'', ''slink'', ''filter'', ''include'']"
  by code_simp

text \<open>
  C21. The help text and the parser agree on the directives of a manifest: a first word that is
  no comment is refused as unsupported, before anything is archived, exactly when it is not
  among the documented ones.
\<close>

theorem manifest_directives_documented:
  "directive fuel h conf etype ws = (0, throw (IoErr Unsupported [])) \<longleftrightarrow> etype \<notin> set documented"
proof
  assume "etype \<notin> set documented"
  then show "directive fuel h conf etype ws = (0, throw (IoErr Unsupported []))"
    unfolding documented_words by (simp add: directive_def)
next
  assume d: "directive fuel h conf etype ws = (0, throw (IoErr Unsupported []))"
  show "etype \<notin> set documented"
  proof
    assume "etype \<in> set documented"
    with d have "etype = ''autorun''" and "ws = []"
      unfolding documented_words by (auto simp: directive_def)
    with d have "manifest_autoruns h conf [] = throw (IoErr Unsupported [])" by (simp add: directive_def)
    then have "fst (manifest_autoruns h conf [] undefined) = Inl (IoErr Unsupported [])" by simp
    then show False by (simp add: manifest_autoruns_def bindE_def seqE_def)
  qed
qed

end
