(* ===== verification/Spec2Isabelle.thy ===== *)
theory Spec2Isabelle
  imports Cut_Samples Dracut_Run Boot Vm_Rsc Vm_Fleet Completion_Run Manifest_Run
begin

text \<open>
  A model of the rapido tools and the theorems that make them correct.

  Rapido boots a small Linux guest with a given kernel in QEMU. \<^verbatim>\<open>rapido-cut\<close> reads
  \<^verbatim>\<open>rapido.conf\<close> and manifests and writes an initramfs: a newc cpio archive of programs
  with the libraries they need, kernel modules with their dependencies, data and scripts.
  \<^verbatim>\<open>rapido-vm\<close> walks that archive for the resources the guest asks for, and starts QEMU with a kernel
  command line that describes the guest. \<^verbatim>\<open>rapido-init\<close> is the first process of the guest:
  it mounts file systems, reads the same configuration and the kernel command line, loads
  modules, configures the network and hands over to systemd or a shell. \<^verbatim>\<open>dracut-cpio\<close> and
  \<^verbatim>\<open>lscpio\<close> write and list archives on their own, and \<^verbatim>\<open>bash-completion\<close> completes command lines.

  \<^bold>\<open>The vocabulary.\<close>
  \<^item> \<open>Prelude\<close>: machine integers are words of their width with the arithmetic of release builds
    (it wraps around and does not panic), bytes are \<^typ>\<open>char\<close>. An I/O
    error, a panic and a bound that ran out are the constructors of one \<open>fault\<close> type. A
    function that takes \<^verbatim>\<open>&mut\<close> arguments and returns a \<^verbatim>\<open>Result\<close> is an effect \<open>('s, 'a) eff\<close>, a
    function from a state to a result and the state after it, composed by \<open>bindE\<close>, \<open>seqE\<close>, \<open>tryE\<close> and
    \<open>for_each\<close>.
  \<^item> \<open>Rust_Str\<close>, \<open>Rust_Path\<close>: what the sources use of \<^verbatim>\<open>str\<close>, \<^verbatim>\<open>BufRead\<close> and
    \<^verbatim>\<open>std::path\<close>, with UTF-8 validity, Unicode blanks and path components.
  \<^item> \<open>Host\<close>: file system, environment, current directory and the ELF reader of the vendored
    crate \<^verbatim>\<open>rust-elf\<close> are the fields of a record that every function which queries
    them takes, with the architecture the programs were compiled for. Each query may fail with any error
    kind. The file system does not change during a run.

  \<^bold>\<open>The components\<close>, one group of theories each. Definitions have the names of the Rust
  functions; a loop body or a branch that is a definition of its own is named after what it does.
  \<^item> \<^verbatim>\<open>src/cpio\<close>: \<open>Cpio\<close> has the metadata conversion, the three archiving
    operations, the trailer and the walker. \<open>Cpio_Archive\<close> proves that each operation appends one
    well-formed entry (the locale \<open>archiver\<close>, interpreted for each of them, over the locale
    \<open>field_codec\<close> for header fields); \<open>Cpio_Walk\<close> that the walker inverts the writer, that
    the writer refines a list of entries, and that the walker is total and reaches none of its panics on any
    bytes, read errors and seek errors;
    \<open>Cpio_Total\<close> that valid requests succeed, refused ones change nothing and file data
    is aligned when its padded name fits.
  \<^item> \<^verbatim>\<open>src/kv-conf\<close>: \<open>KvConf\<close>, the parser of \<^verbatim>\<open>rapido.conf\<close>. Its three entry points
    share the locale \<open>conf_loop\<close>. Writing a map and reading it is the identity; no input panics.
  \<^item> \<^verbatim>\<open>src/lib.rs\<close>: \<open>Rapido_Lib\<close>, defaults and kernel versions.
  \<^item> \<^verbatim>\<open>src/kmod-parser\<close>: \<open>Kmod\<close>. Each of the five files has a line handler (the locale
    \<open>line_handler\<close>); a module of \<^verbatim>\<open>modules.dep\<close> is found with its dependencies, whatever the other
    files say.
  \<^item> \<^verbatim>\<open>src/third_party/crosvm/argument.rs\<close>: \<open>Argument\<close>. The locale \<open>callback\<close> states what the
    parser promises to its callback; it is interpreted for \<^verbatim>\<open>rapido-cut\<close> and \<^verbatim>\<open>dracut-cpio\<close>.
  \<^item> \<^verbatim>\<open>src/bin/rapido-cut.rs\<close>: \<open>Cut_Gather\<close> (names, ELF files, parent directories, modules, data
    trees), \<open>Cut_Manifest\<close> (the manifest language), \<open>Cut_Main\<close> (command line and main). One
    record holds the archive, the sets of seen paths and libraries, the module database and
    the stack of manifests. \<open>Cut_Trace\<close> shows that every function of the tool is a
    sequence of archiving operations; a law on such sequences (the locales \<open>trace_law\<close> and
    \<open>free_trace\<close>) then holds of the whole tool. \<open>Cut_Frame\<close> has the same for what functions leave
    alone (the locales \<open>frame_rel\<close> and \<open>cut_frame\<close>). \<open>Cut_Dirs\<close>, \<open>Cut_Elfs\<close>, \<open>Cut_Elfs_End\<close>, \<open>Cut_Data\<close>, \<open>Cut_Kmods\<close> and
    \<open>Manifest_Run\<close> show what each part archives (\<open>Cut_Elfs\<close> also that a whole run has gathered the core programs
    and the libraries they need), \<open>Cut_Run\<close> what a whole run leaves in
    the output, and \<open>Cut_Samples\<close> applies the theorems to concrete runs.
  \<^item> \<^verbatim>\<open>src/bin/dracut-cpio.rs\<close>, \<^verbatim>\<open>src/bin/lscpio.rs\<close>: \<open>Dracut_Cpio\<close>, \<open>Dracut_Run\<close>.
  \<^item> \<^verbatim>\<open>src/bin/rapido-vm.rs\<close>: \<open>Vm\<close>, \<open>Vm_Run\<close>. The hash of the MAC address and the output of
    \<^verbatim>\<open>stty\<close> are parameters. \<open>Vm_Fleet\<close> is a step relation over the interleavings of several
    invocations that share pid files and processes: one at a time they never give two running machines
    the same number; at the same time they may.
  \<^item> \<^verbatim>\<open>src/bin/rapido-init.rs\<close>: \<open>Init\<close>, \<open>Init_Run\<close>. Its system calls and commands are a trace of
    actions, with the environment and arguments of the commands, whose outcomes a parameter gives.
  \<^item> \<^verbatim>\<open>src/bin/bash-completion.rs\<close>: \<open>Completion\<close>, \<open>Completion_Run\<close>. The output of
    \<^verbatim>\<open>compgen\<close> is a parameter.

  \<^bold>\<open>Components together.\<close> \<open>Boot\<close>: what \<^verbatim>\<open>rapido-vm\<close> writes on the kernel command line is
  what \<^verbatim>\<open>rapido-init\<close> reads. \<open>Shared_Conf\<close>: the modules that \<^verbatim>\<open>rapido-init\<close> loads are those
  that \<^verbatim>\<open>rapido-cut\<close> gathered from the same file. \<open>Cut_Run\<close>: the walker that \<^verbatim>\<open>rapido-vm\<close> uses reads
  back what \<^verbatim>\<open>rapido-cut\<close> archived. \<open>Vm_Rsc\<close>: the resources that \<^verbatim>\<open>rapido-vm\<close> reads from an archive are
  those whose entries were written.

  \<^bold>\<open>Bounds.\<close> Every function is total. Three loops of \<^verbatim>\<open>rapido-cut\<close> take a bound on their
  rounds, because a host may make them run forever: the work lists of \<^verbatim>\<open>gather_archive_elfs\<close> and
  \<^verbatim>\<open>gather_archive_data\<close>, and the stack of manifests. Running out is the fault \<open>OutOfFuel\<close>, which no handler
  catches and no theorem takes for success. For data trees one round more than the
  source trees have entries is enough (\<open>gather_archive_data_ends\<close>); for binaries some bound is enough
  when finitely many entries can be pushed (\<open>gather_elfs_ends\<close>); for manifests no bound is enough
  when a manifest includes itself (\<open>manifest_self_include\<close>).

  \<^bold>\<open>Where the code differs from its intent\<close>, as theorems: \<open>parent_dirs_world_writable\<close> (an octal
  literal written in decimal), \<open>elf_deps_forgets\<close> and \<open>kmod_soft_shadows\<close> (a thing marked as seen before
  it was gathered), \<open>dracut_null_panics\<close>, \<open>dracut_align_guard_gap\<close>, \<open>kv_var_sub_drops\<close>,
  \<open>complete_rapido_panics\<close>, \<open>manifest_self_include\<close>, \<open>vm_pick_race\<close>, \<open>rsc_padding_refused\<close> (zeros that
  align file data are taken for a part of a resource name).

  \<^bold>\<open>Not modelled.\<close> The ELF parser \<^verbatim>\<open>rust-elf\<close> (vendored; a parameter), the shell
  scripts under \<^verbatim>\<open>cut\<close>, \<^verbatim>\<open>autorun\<close>, \<^verbatim>\<open>tools\<close> and \<^verbatim>\<open>selftest\<close>, the unit tests in the Rust files,
  debug output (\<^verbatim>\<open>dout!\<close>, \<^verbatim>\<open>eprintln!\<close>), flushing of buffered writers, and a file system that
  changes under a running tool (other than the pid files and processes of \<open>Vm_Fleet\<close>).
\<close>

end
